(* ===== verification/Walbox_Prelude.thy ===== *)
theory Walbox_Prelude
  imports Main "HOL-Library.AList" "HOL-Library.Word"
begin

text \<open>
  The shared prelude: Python results and exceptions as sums (\<open>rbind\<close>), operations of a
  mutable object as functions from the object's state to a result and a state
  (\<open>action\<close>, \<open>abind\<close>), insertion-ordered dictionaries as association lists, byte
  slices, and three interfaces stated as locales that the components interpret: a codec with its
  round-trip law, a machine with an invariant, and a machine that simulates another one.
\<close>

named_theorems wire_simps \<open>reading a buffer whose rest from an offset is known\<close>
named_theorems py_simps \<open>unfolding of the Python primitives on concrete input\<close>


section \<open>Results: a raised exception is the left summand\<close>

definition rbind :: "'e + 'a \<Rightarrow> ('a \<Rightarrow> 'e + 'b) \<Rightarrow> 'e + 'b" where
  "rbind m f = (case m of Inl e \<Rightarrow> Inl e | Inr x \<Rightarrow> f x)"

definition of_option :: "'e \<Rightarrow> 'a option \<Rightarrow> 'e + 'a" where
  "of_option e m = (case m of None \<Rightarrow> Inl e | Some x \<Rightarrow> Inr x)"

lemma rbind_simps [simp]:
  "rbind (Inl e) f = Inl e"
  "rbind (Inr x) f = f x"
  by (simp_all add: rbind_def)

lemma of_option_simps [simp]:
  "of_option e None = Inl e"
  "of_option e (Some x) = Inr x"
  by (simp_all add: of_option_def)

lemma of_option_eq_Inr [simp]: "of_option e m = Inr x \<longleftrightarrow> m = Some x"
  by (cases m) auto

lemma rbind_eq_Inr: "rbind m f = Inr y \<longleftrightarrow> (\<exists>x. m = Inr x \<and> f x = Inr y)"
  by (cases m) auto

lemma rbind_eq_Inl: "rbind m f = Inl e \<longleftrightarrow> m = Inl e \<or> (\<exists>x. m = Inr x \<and> f x = Inl e)"
  by (cases m) auto

lemma rbind_assoc: "rbind (rbind m f) g = rbind m (\<lambda>x. rbind (f x) g)"
  by (cases m) auto

lemma rbind_cong [fundef_cong]:
  "m = m' \<Longrightarrow> (\<And>x. m' = Inr x \<Longrightarrow> f x = f' x) \<Longrightarrow> rbind m f = rbind m' f'"
  by (cases m') auto


section \<open>Operations of a mutable object\<close>

text \<open>
  A method that mutates \<open>self\<close> is a function from the state to a result and the new
  state. The state is returned beside an exception too: Python does not roll an object back when
  one of its methods raises.
\<close>

type_synonym ('s, 'e, 'a) action = "'s \<Rightarrow> ('e + 'a) \<times> 's"

definition areturn :: "'a \<Rightarrow> ('s, 'e, 'a) action" where
  "areturn x s = (Inr x, s)"

definition araise :: "'e \<Rightarrow> ('s, 'e, 'a) action" where
  "araise e s = (Inl e, s)"

definition amodify :: "('s \<Rightarrow> 's) \<Rightarrow> ('s, 'e, unit) action" where
  "amodify f s = (Inr (), f s)"

definition alift :: "'e + 'a \<Rightarrow> ('s, 'e, 'a) action" where
  "alift m s = (m, s)"

definition abind :: "('s, 'e, 'a) action \<Rightarrow> ('a \<Rightarrow> ('s, 'e, 'b) action) \<Rightarrow> ('s, 'e, 'b) action" where
  "abind m f s = (case m s of (Inl e, s') \<Rightarrow> (Inl e, s') | (Inr x, s') \<Rightarrow> f x s')"

primrec afor :: "'x list \<Rightarrow> ('x \<Rightarrow> ('s, 'e, unit) action) \<Rightarrow> ('s, 'e, unit) action" where
  "afor [] body = areturn ()"
| "afor (x # xs) body = abind (body x) (\<lambda>_. afor xs body)"

lemma action_simps [simp]:
  "areturn x s = (Inr x, s)"
  "araise e s = (Inl e, s)"
  "amodify f s = (Inr (), f s)"
  "alift m s = (m, s)"
  by (simp_all add: areturn_def araise_def amodify_def alift_def)

lemma abind_Inl [simp]: "m s = (Inl e, s') \<Longrightarrow> abind m f s = (Inl e, s')"
  by (simp add: abind_def)

lemma abind_Inr [simp]: "m s = (Inr x, s') \<Longrightarrow> abind m f s = f x s'"
  by (simp add: abind_def)

lemma abind_split:
  "abind m f s = (case fst (m s) of Inl e \<Rightarrow> (Inl e, snd (m s)) | Inr x \<Rightarrow> f x (snd (m s)))"
  by (cases "m s"; cases "fst (m s)") (auto simp: abind_def)

text \<open>A run of method calls on one object, results collected, stopped by the first exception.\<close>

fun arun :: "('x \<Rightarrow> ('s, 'e, 'a) action) \<Rightarrow> 'x list \<Rightarrow> ('s, 'e, 'a list) action" where
  "arun f [] s = (Inr [], s)"
| "arun f (x # xs) s =
     (case f x s of
        (Inl e, s') \<Rightarrow> (Inl e, s')
      | (Inr y, s') \<Rightarrow>
          (case arun f xs s' of
             (Inl e, s'') \<Rightarrow> (Inl e, s'')
           | (Inr ys, s'') \<Rightarrow> (Inr (y # ys), s'')))"

lemma arun_append:
  "arun f (xs @ ys) s =
     (case arun f xs s of
        (Inl e, s') \<Rightarrow> (Inl e, s')
      | (Inr as, s') \<Rightarrow>
          (case arun f ys s' of
             (Inl e, s'') \<Rightarrow> (Inl e, s'')
           | (Inr bs, s'') \<Rightarrow> (Inr (as @ bs), s'')))"
  by (induction xs arbitrary: s) (auto split: prod.splits sum.splits)

lemma arun_length: "arun f xs s = (Inr ys, s') \<Longrightarrow> length ys = length xs"
  by (induction xs arbitrary: s ys) (auto split: prod.splits sum.splits)


section \<open>Dictionaries\<close>

text \<open>
  A Python dictionary keeps its insertion order: a new key goes to the end, an assignment to a
  present key keeps its place. \<open>AList.update\<close>, \<open>AList.delete\<close> and \<open>map_of\<close> are
  \<open>d[k] = v\<close>, \<open>del d[k]\<close> (or \<open>pop\<close>) and \<open>d.get(k)\<close>.
\<close>

type_synonym ('k, 'v) dict = "('k \<times> 'v) list"

abbreviation dict_ok :: "('k, 'v) dict \<Rightarrow> bool" where
  "dict_ok d \<equiv> distinct (map fst d)"

lemma map_of_dict_set [simp]: "map_of (AList.update k v d) = (map_of d)(k \<mapsto> v)"
  by (simp add: AList.update_conv')

lemma map_of_dict_del [simp]: "map_of (AList.delete k d) = (map_of d)(k := None)"
  by (simp add: AList.delete_conv')

lemma dict_ok_set [simp, intro]: "dict_ok d \<Longrightarrow> dict_ok (AList.update k v d)"
  by (rule AList.distinct_update)

lemma dict_ok_del [simp, intro]: "dict_ok d \<Longrightarrow> dict_ok (AList.delete k d)"
  by (rule AList.distinct_delete)

lemma map_of_filter_val:
  "dict_ok d \<Longrightarrow>
   map_of (filter (\<lambda>kv. P (snd kv)) d) k = (case map_of d k of None \<Rightarrow> None | Some v \<Rightarrow> if P v then Some v else None)"
  by (induction d) (auto simp: map_of_eq_None_iff image_iff split: option.splits)

lemma dict_set_new: "k \<notin> fst ` set d \<Longrightarrow> AList.update k v d = d @ [(k, v)]"
  by (induction d) auto


section \<open>Slices of a buffer\<close>

definition slice :: "'a list \<Rightarrow> nat \<Rightarrow> nat \<Rightarrow> 'a list" where
  "slice buf i j = take (j - i) (drop i buf)"

lemma slice_from_start [simp]: "slice buf 0 n = take n buf"
  by (simp add: slice_def)

lemma length_slice: "length (slice buf i j) \<le> j - i"
  by (simp add: slice_def)

text \<open>
  The reading rules: once \<open>drop off buf\<close> is known to start with some list, the slice that
  covers it is that list, and what is left after it is what follows.
\<close>

lemma slice_known: "drop off buf = xs @ rest \<Longrightarrow> length xs = n \<Longrightarrow> slice buf off (off + n) = xs"
  by (simp add: slice_def)

lemma drop_known: "drop off buf = xs @ rest \<Longrightarrow> length xs = n \<Longrightarrow> drop (off + n) buf = rest"
  by (metis add.commute append_eq_conv_conj drop_drop)

lemma drop_Suc_known: "drop off buf = x # rest \<Longrightarrow> drop (Suc off) buf = rest"
  by (metis drop_Suc list.sel(3) tl_drop)

lemma drop_Cons_less: "drop off buf = x # rest \<Longrightarrow> off < length buf"
  by (metis drop_all linorder_not_less list.distinct(1))

lemma nth_known: "drop off buf = x # rest \<Longrightarrow> buf ! off = x"
  by (metis drop_Cons_less hd_drop_conv_nth list.sel(1))

lemma slice_one_known: "drop off buf = x # rest \<Longrightarrow> slice buf off (Suc off) = [x]"
  using slice_known [of off buf "[x]" rest 1] by simp


section \<open>Interfaces\<close>

text \<open>A codec: what a decoder promises about the bytes its format writes for a valid value.\<close>

locale codec =
  fixes enc :: "'v \<Rightarrow> 'w list"
    and dec :: "'w list \<Rightarrow> 'e + 'v"
    and valid :: "'v \<Rightarrow> bool"
  assumes dec_enc: "valid v \<Longrightarrow> dec (enc v) = Inr v"
begin

lemma enc_inj: "valid u \<Longrightarrow> valid v \<Longrightarrow> enc u = enc v \<Longrightarrow> u = v"
  by (metis Inr_inject dec_enc)

lemma enc_inj_on: "inj_on enc {v. valid v}"
  by (rule inj_onI) (auto intro: enc_inj)

lemma dec_maps_back: "list_all valid vs \<Longrightarrow> map (dec \<circ> enc) vs = map Inr vs"
  by (induction vs) (auto simp: dec_enc)

end

text \<open>A machine over inputs with an invariant that one step keeps, whether it raises or not.\<close>

locale invariant_machine =
  fixes act :: "'x \<Rightarrow> ('s, 'e, 'a) action"
    and start :: 's
    and good :: "'x \<Rightarrow> 's \<Rightarrow> bool"
    and inv :: "'s \<Rightarrow> bool"
  assumes inv_start: "inv start"
    and inv_act: "inv s \<Longrightarrow> good x s \<Longrightarrow> inv (snd (act x s))"
begin

inductive reach :: "'s \<Rightarrow> bool" where
  reach_start: "reach start"
| reach_step: "reach s \<Longrightarrow> good x s \<Longrightarrow> reach (snd (act x s))"

lemma reach_inv: "reach s \<Longrightarrow> inv s"
  by (induction rule: reach.induct) (auto intro: inv_start inv_act)

fun all_good :: "'x list \<Rightarrow> 's \<Rightarrow> bool" where
  "all_good [] s = True"
| "all_good (x # xs) s =
     (good x s \<and> (case fst (act x s) of Inl _ \<Rightarrow> True | Inr _ \<Rightarrow> all_good xs (snd (act x s))))"

lemma inv_run: "inv s \<Longrightarrow> all_good xs s \<Longrightarrow> inv (snd (arun act xs s))"
proof (induction xs arbitrary: s)
  case Nil
  then show ?case by simp
next
  case (Cons x xs)
  have step: "inv (snd (act x s))"
    using Cons.prems by (simp add: inv_act)
  show ?case
  proof (cases "fst (act x s)")
    case (Inl e)
    then show ?thesis using step by (cases "act x s") auto
  next
    case (Inr y)
    with Cons.prems have "inv (snd (arun act xs (snd (act x s))))"
      by (intro Cons.IH step) simp
    with Inr show ?thesis
      by (cases "act x s") (auto split: prod.splits sum.splits)
  qed
qed

end

text \<open>
  A concrete machine that simulates an abstract one: from related states, on an input the abstract
  state allows, the same result and related states after it. Whole runs then give the same results.
\<close>

locale simulation =
  fixes cact :: "'x \<Rightarrow> ('c, 'e, 'a) action"
    and aact :: "'x \<Rightarrow> ('s, 'e, 'a) action"
    and ok :: "'x \<Rightarrow> 's \<Rightarrow> bool"
    and sim :: "'c \<Rightarrow> 's \<Rightarrow> bool"
  assumes sim_result: "sim c s \<Longrightarrow> ok x s \<Longrightarrow> fst (cact x c) = fst (aact x s)"
    and sim_state: "sim c s \<Longrightarrow> ok x s \<Longrightarrow> sim (snd (cact x c)) (snd (aact x s))"
begin

fun all_ok :: "'x list \<Rightarrow> 's \<Rightarrow> bool" where
  "all_ok [] s = True"
| "all_ok (x # xs) s =
     (ok x s \<and> (case aact x s of (Inl _, _) \<Rightarrow> True | (Inr _, s') \<Rightarrow> all_ok xs s'))"

lemma sim_run:
  "sim c s \<Longrightarrow> all_ok xs s \<Longrightarrow>
   fst (arun cact xs c) = fst (arun aact xs s) \<and> sim (snd (arun cact xs c)) (snd (arun aact xs s))"
proof (induction xs arbitrary: c s)
  case Nil
  then show ?case by simp
next
  case (Cons x xs)
  have ok: "ok x s" using Cons.prems(2) by simp
  obtain r c' where c': "cact x c = (r, c')" by fastforce
  obtain s' where s': "aact x s = (r, s')"
    using sim_result [OF Cons.prems(1) ok] c' by (cases "aact x s") auto
  have sim': "sim c' s'" using sim_state [OF Cons.prems(1) ok] c' s' by simp
  show ?case
  proof (cases r)
    case (Inl e)
    then show ?thesis using c' s' sim' by simp
  next
    case (Inr y)
    with Cons.prems(2) s' have "all_ok xs s'" by simp
    from Cons.IH [OF sim' this] c' s' Inr show ?thesis
      by (auto split: prod.splits sum.splits)
  qed
qed

end

end
