(* ===== verification/Py_Text.thy ===== *)
theory Py_Text
  imports Walbox_Prelude
begin

text \<open>
  Python text as the source uses it: a \<open>str\<close> is its list of code points, \<open>bytes\<close> is
  a list of 8-bit words. Here are the literals, \<open>str(n)\<close>, the \<open>:X\<close> format,
  \<open>repr\<close> of integers, strings and bytes, \<open>str.strip\<close> and \<open>int(text, 16)\<close>.
  What the Unicode character database says about code points from 128 on is a parameter
  (\<open>unicode_db\<close>); the ASCII half is written out.
\<close>

type_synonym pystr = "nat list"
type_synonym byte = "8 word"
type_synonym bytes = "8 word list"

definition lit :: "string \<Rightarrow> pystr" where
  "lit s = map of_char s"

definition blit :: "string \<Rightarrow> bytes" where
  "blit s = map of_char s"

record unicode_db =
  u_space :: "nat \<Rightarrow> bool"
  u_decimal :: "nat \<Rightarrow> nat option"
  u_printable :: "nat \<Rightarrow> bool"


section \<open>Numbers as text\<close>

fun radix :: "nat \<Rightarrow> nat \<Rightarrow> nat list" where
  "radix b n = (if b < 2 \<or> n < b then [n] else radix b (n div b) @ [n mod b])"

declare radix.simps [simp del]

definition digit_upper :: "nat \<Rightarrow> nat" where
  "digit_upper d = (if d < 10 then 48 + d else 55 + d)"

definition digit_lower :: "nat \<Rightarrow> nat" where
  "digit_lower d = (if d < 10 then 48 + d else 87 + d)"

definition str_int :: "int \<Rightarrow> pystr" where
  "str_int n = (if n < 0 then [45] else []) @ map digit_lower (radix 10 (nat \<bar>n\<bar>))"

definition hex_upper :: "int \<Rightarrow> pystr" where
  "hex_upper n = (if n < 0 then [45] else []) @ map digit_upper (radix 16 (nat \<bar>n\<bar>))"

definition hex_padded :: "nat \<Rightarrow> nat \<Rightarrow> pystr" where
  "hex_padded w n = (let ds = map digit_lower (radix 16 n) in replicate (w - length ds) 48 @ ds)"


section \<open>Representations\<close>

definition repr_quote :: "nat list \<Rightarrow> nat" where
  "repr_quote s = (if 39 \<in> set s \<and> 34 \<notin> set s then 34 else 39)"

definition escape_control :: "nat \<Rightarrow> nat \<Rightarrow> pystr option" where
  "escape_control q c =
     (if c = q \<or> c = 92 then Some [92, c]
      else if c = 9 then Some (lit [CHR 0x5C, CHR ''t''])
      else if c = 10 then Some (lit [CHR 0x5C, CHR ''n''])
      else if c = 13 then Some (lit [CHR 0x5C, CHR ''r''])
      else if c < 32 \<or> c = 127 then Some (lit [CHR 0x5C, CHR ''x''] @ hex_padded 2 c)
      else None)"

definition escape_char :: "unicode_db \<Rightarrow> nat \<Rightarrow> nat \<Rightarrow> pystr" where
  "escape_char u q c =
     (case escape_control q c of
        Some e \<Rightarrow> e
      | None \<Rightarrow>
          if c < 127 \<or> u_printable u c then [c]
          else if c \<le> 0xFF then lit [CHR 0x5C, CHR ''x''] @ hex_padded 2 c
          else if c \<le> 0xFFFF then lit [CHR 0x5C, CHR ''u''] @ hex_padded 4 c
          else lit [CHR 0x5C, CHR ''U''] @ hex_padded 8 c)"

definition str_repr :: "unicode_db \<Rightarrow> pystr \<Rightarrow> pystr" where
  "str_repr u s = (let q = repr_quote s in [q] @ concat (map (escape_char u q) s) @ [q])"

definition escape_byte :: "nat \<Rightarrow> nat \<Rightarrow> pystr" where
  "escape_byte q c =
     (case escape_control q c of
        Some e \<Rightarrow> e
      | None \<Rightarrow> if c < 127 then [c] else lit [CHR 0x5C, CHR ''x''] @ hex_padded 2 c)"

definition bytes_repr :: "bytes \<Rightarrow> pystr" where
  "bytes_repr bs =
     (let s = map unat bs; q = repr_quote s
      in [98, q] @ concat (map (escape_byte q) s) @ [q])"


section \<open>Stripping and parsing\<close>

definition is_space :: "unicode_db \<Rightarrow> nat \<Rightarrow> bool" where
  "is_space u c = (if c < 128 then (9 \<le> c \<and> c \<le> 13) \<or> (28 \<le> c \<and> c \<le> 32) else u_space u c)"

definition strip :: "unicode_db \<Rightarrow> pystr \<Rightarrow> pystr" where
  "strip u s = rev (dropWhile (is_space u) (rev (dropWhile (is_space u) s)))"

definition to_ascii_digits :: "unicode_db \<Rightarrow> pystr \<Rightarrow> pystr" where
  "to_ascii_digits u s =
     (if list_all (\<lambda>c. c < 128) s then s
      else map (\<lambda>c. if c < 127 then c
                    else if c = 127 then 63
                    else if u_space u c then 32
                    else (case u_decimal u c of Some d \<Rightarrow> 48 + d | None \<Rightarrow> 63)) s)"

definition hex_value :: "nat \<Rightarrow> nat option" where
  "hex_value c =
     (if 48 \<le> c \<and> c \<le> 57 then Some (c - 48)
      else if 65 \<le> c \<and> c \<le> 70 then Some (c - 55)
      else if 97 \<le> c \<and> c \<le> 102 then Some (c - 87)
      else None)"

text \<open>The digits of an integer literal: one underscore may stand between two digits.\<close>

fun hex_scan :: "nat \<Rightarrow> bool \<Rightarrow> pystr \<Rightarrow> (nat \<times> pystr) option" where
  "hex_scan acc us [] = (if us then None else Some (acc, []))"
| "hex_scan acc us (c # cs) =
     (if c = 95 then (if us then None else hex_scan acc True cs)
      else case hex_value c of
             Some d \<Rightarrow> hex_scan (16 * acc + d) False cs
           | None \<Rightarrow> if us then None else Some (acc, c # cs))"

definition c_space :: "nat \<Rightarrow> bool" where
  "c_space c = ((9 \<le> c \<and> c \<le> 13) \<or> c = 32)"

definition skip_sign :: "pystr \<Rightarrow> int \<times> pystr" where
  "skip_sign s = (case s of c # cs \<Rightarrow> if c = 45 then (-1, cs) else if c = 43 then (1, cs) else (1, s)
                          | [] \<Rightarrow> (1, s))"

definition skip_hex_prefix :: "pystr \<Rightarrow> pystr" where
  "skip_hex_prefix s =
     (case s of
        c # x # cs \<Rightarrow>
          if c = 48 \<and> (x = 120 \<or> x = 88) then (case cs of d # ds \<Rightarrow> if d = 95 then ds else cs | [] \<Rightarrow> cs)
          else s
      | _ \<Rightarrow> s)"

definition int_hex :: "unicode_db \<Rightarrow> pystr \<Rightarrow> int option" where
  "int_hex u text =
     (let (sg, body) = skip_sign (dropWhile c_space (to_ascii_digits u text));
          digits = skip_hex_prefix body
      in case digits of
           [] \<Rightarrow> None
         | c # _ \<Rightarrow>
             if hex_value c = None then None
             else (case hex_scan 0 False digits of
                     None \<Rightarrow> None
                   | Some (n, rest) \<Rightarrow> if list_all c_space rest then Some (sg * int n) else None))"


section \<open>Digits: every number is the value of its digits\<close>

definition radix_val :: "nat \<Rightarrow> nat list \<Rightarrow> nat" where
  "radix_val b ds = foldl (\<lambda>a d. b * a + d) 0 ds"

lemma radix_val_append: "radix_val b (ds @ [d]) = b * radix_val b ds + d"
  by (simp add: radix_val_def)

lemma radix_val_radix [simp]: "radix_val b (radix b n) = n"
proof (induction b n rule: radix.induct)
  case (1 b n)
  show ?case
  proof (cases "b < 2 \<or> n < b")
    case True
    then show ?thesis by (simp add: radix.simps [of b n] radix_val_def)
  next
    case False
    with 1 show ?thesis by (simp add: radix.simps [of b n] radix_val_append)
  qed
qed

lemma radix_digits: "2 \<le> b \<Longrightarrow> d \<in> set (radix b n) \<Longrightarrow> d < b"
proof (induction b n rule: radix.induct)
  case (1 b n)
  then show ?case by (cases "n < b") (auto simp: radix.simps [of b n])
qed

lemma radix_nonempty [simp]: "radix b n \<noteq> []"
  by (subst radix.simps) simp

lemma radix_inj: "radix b m = radix b n \<Longrightarrow> m = n"
  by (metis radix_val_radix)

lemma length_radix: "2 \<le> b \<Longrightarrow> n < b ^ k \<Longrightarrow> 0 < k \<Longrightarrow> length (radix b n) \<le> k"
proof (induction k arbitrary: n)
  case 0
  then show ?case by simp
next
  case (Suc k)
  show ?case
  proof (cases "n < b")
    case True
    then show ?thesis by (simp add: radix.simps [of b n])
  next
    case False
    with Suc.prems have "0 < k" by (cases k) auto
    moreover have "n div b < b ^ k"
      using Suc.prems by (simp add: less_mult_imp_div_less mult.commute)
    ultimately show ?thesis
      using False Suc by (simp add: radix.simps [of b n])
  qed
qed

lemma radix_split:
  assumes "2 \<le> b" and "b \<le> n"
  shows "radix b n = radix b (n div b) @ [n mod b]"
  using assms by (simp add: radix.simps [of b n])

lemma lit_simps [simp, py_simps]:
  "lit [] = []"
  "lit (c # cs) = of_char c # lit cs"
  "blit [] = []"
  "blit (c # cs) = of_char c # blit cs"
  by (simp_all add: lit_def blit_def)


section \<open>Upper-case hexadecimal reads back\<close>

lemma hex_value_upper [simp]: "d < 16 \<Longrightarrow> hex_value (digit_upper d) = Some d"
  by (auto simp: hex_value_def digit_upper_def)

lemma digit_upper_facts:
  "d < 16 \<Longrightarrow> digit_upper d < 128"
  "d < 16 \<Longrightarrow> digit_upper d \<noteq> 47"
  "d < 16 \<Longrightarrow> digit_upper d \<noteq> 95"
  "d < 16 \<Longrightarrow> digit_upper d \<noteq> 45"
  "d < 16 \<Longrightarrow> digit_upper d \<noteq> 43"
  "d < 16 \<Longrightarrow> digit_upper d \<noteq> 88"
  "d < 16 \<Longrightarrow> digit_upper d \<noteq> 120"
  "d < 16 \<Longrightarrow> \<not> c_space (digit_upper d)"
  by (auto simp: digit_upper_def c_space_def)

lemma hex_scan_upper:
  "\<forall>d \<in> set ds. d < 16 \<Longrightarrow>
   hex_scan acc False (map digit_upper ds) = Some (foldl (\<lambda>a d. 16 * a + d) acc ds, [])"
  by (induction ds arbitrary: acc) (auto simp: digit_upper_facts)

lemma skip_upper:
  assumes small: "\<forall>d \<in> set ds. d < 16"
  shows "dropWhile c_space (map digit_upper ds) = map digit_upper ds"
    and "skip_sign (map digit_upper ds) = (1, map digit_upper ds)"
    and "skip_hex_prefix (map digit_upper ds) = map digit_upper ds"
    and "to_ascii_digits u (map digit_upper ds) = map digit_upper ds"
proof -
  have "\<And>d. d \<in> set ds \<Longrightarrow> d < 16" using small by simp
  note upper = digit_upper_facts [OF this]
  show "to_ascii_digits u (map digit_upper ds) = map digit_upper ds"
    using upper(1) by (auto simp: to_ascii_digits_def list_all_iff)
  show "dropWhile c_space (map digit_upper ds) = map digit_upper ds"
    using upper(8) by (cases ds) auto
  show "skip_sign (map digit_upper ds) = (1, map digit_upper ds)"
    using upper(4,5) by (cases ds) (auto simp: skip_sign_def)
  show "skip_hex_prefix (map digit_upper ds) = map digit_upper ds"
    using upper(6,7) by (cases ds; cases "tl ds") (auto simp: skip_hex_prefix_def)
qed

lemma int_hex_upper: "0 \<le> n \<Longrightarrow> int_hex u (hex_upper n) = Some n"
proof -
  assume "0 \<le> n"
  let ?ds = "radix 16 (nat n)"
  have small: "\<forall>d \<in> set ?ds. d < 16" using radix_digits [of 16] by auto
  have scan: "hex_scan 0 False (map digit_upper ?ds) = Some (nat n, [])"
    using hex_scan_upper [OF small, of 0] radix_val_radix [of 16 "nat n"] by (simp add: radix_val_def)
  obtain d ds where ds: "?ds = d # ds" by (cases ?ds) auto
  with small have "d < 16" by simp
  with scan ds \<open>0 \<le> n\<close> skip_upper [OF small] show ?thesis
    by (simp add: int_hex_def hex_upper_def)
qed

end
