(* ===== verification/Errors.thy ===== *)
theory Errors
  imports Py_Text
begin

text \<open>
  \<open>walbox/errors.py\<close>: the error context, the walbox exceptions that carry one, the merge
  \<open>enrich\<close> and the rendering \<open>__str__\<close>. The datatype \<open>exn\<close> also names the
  built-in and third-party exceptions that can leave the modelled code.
\<close>

record error_context =
  ctx_slot :: "pystr option"
  ctx_publication :: "pystr option"
  ctx_lsn :: "int option"
  ctx_xid :: "int option"
  ctx_relation :: "pystr option"
  ctx_message_type :: "pystr option"

definition no_context :: error_context where
  "no_context = \<lparr>ctx_slot = None, ctx_publication = None, ctx_lsn = None, ctx_xid = None,
                 ctx_relation = None, ctx_message_type = None\<rparr>"

record walbox_error =
  err_message :: pystr
  err_context :: error_context

text \<open>
  The classes of \<open>errors.py\<close> first; then what Python's own operations raise; then the
  \<open>asyncio\<close> queue's exceptions, psycopg's \<open>OperationalError\<close>, the exception group of a
  task group, and any other exception, which application code may raise.
\<close>

datatype exn =
    WalboxError walbox_error
  | ProtocolError walbox_error
  | DecodeError walbox_error
  | ReplicationConnectionError walbox_error
  | CheckpointError walbox_error
  | IndexError
  | KeyError
  | ValueError pystr
  | UnicodeDecodeError
  | UnicodeEncodeError
  | OverflowError
  | AssertionError
  | TypeError
  | AttributeError
  | ZeroDivisionError
  | CancelledError
  | QueueFull
  | QueueShutDown
  | OperationalError pystr
  | ApplicationError nat
  | ExceptionGroup "exn list"

text \<open>\<open>WalboxError.__init__\<close>: no context given means the empty one.\<close>

definition walbox_error_init :: "pystr \<Rightarrow> error_context option \<Rightarrow> walbox_error" where
  "walbox_error_init message context =
     \<lparr>err_message = message,
      err_context = (case context of None \<Rightarrow> no_context | Some c \<Rightarrow> c)\<rparr>"

definition merge_field :: "'a option \<Rightarrow> 'a option \<Rightarrow> 'a option" where
  "merge_field given present = (case given of None \<Rightarrow> present | Some _ \<Rightarrow> given)"

text \<open>\<open>WalboxError.enrich\<close>, the keyword arguments gathered in a context.\<close>

definition enrich :: "error_context \<Rightarrow> walbox_error \<Rightarrow> walbox_error" where
  "enrich given err =
     err\<lparr>err_context :=
       \<lparr>ctx_slot = merge_field (ctx_slot given) (ctx_slot (err_context err)),
        ctx_publication = merge_field (ctx_publication given) (ctx_publication (err_context err)),
        ctx_lsn = merge_field (ctx_lsn given) (ctx_lsn (err_context err)),
        ctx_xid = merge_field (ctx_xid given) (ctx_xid (err_context err)),
        ctx_relation = merge_field (ctx_relation given) (ctx_relation (err_context err)),
        ctx_message_type = merge_field (ctx_message_type given) (ctx_message_type (err_context err))\<rparr>\<rparr>"

definition context_fields :: "unicode_db \<Rightarrow> error_context \<Rightarrow> (pystr \<times> pystr) list" where
  "context_fields u c =
     List.map_filter (\<lambda>(name, v). map_option (Pair name) v)
       [(lit ''slot'', map_option (str_repr u) (ctx_slot c)),
        (lit ''publication'', map_option (str_repr u) (ctx_publication c)),
        (lit ''lsn'', map_option str_int (ctx_lsn c)),
        (lit ''xid'', map_option str_int (ctx_xid c)),
        (lit ''relation'', map_option (str_repr u) (ctx_relation c)),
        (lit ''message_type'', map_option (str_repr u) (ctx_message_type c))]"

fun join :: "pystr \<Rightarrow> pystr list \<Rightarrow> pystr" where
  "join sep [] = []"
| "join sep [x] = x"
| "join sep (x # y # xs) = x @ sep @ join sep (y # xs)"

definition render_context :: "unicode_db \<Rightarrow> error_context \<Rightarrow> pystr" where
  "render_context u c =
     (let fields = context_fields u c
      in if fields = [] then []
         else lit '' ['' @ join (lit '', '') (map (\<lambda>(name, v). name @ lit ''='' @ v) fields) @ lit '']'')"

definition walbox_error_str :: "unicode_db \<Rightarrow> walbox_error \<Rightarrow> pystr" where
  "walbox_error_str u err =
     (let rendered = render_context u (err_context err)
      in if rendered = [] then err_message err else err_message err @ rendered)"

text \<open>The context arguments most raise sites use.\<close>

abbreviation message_type_context :: "pystr \<Rightarrow> error_context" where
  "message_type_context t \<equiv> no_context\<lparr>ctx_message_type := Some t\<rparr>"

abbreviation xid_context :: "int \<Rightarrow> error_context" where
  "xid_context x \<equiv> no_context\<lparr>ctx_xid := Some x\<rparr>"

definition decode_error_text :: "pystr \<Rightarrow> pystr \<Rightarrow> exn" where
  "decode_error_text message message_type =
     DecodeError (walbox_error_init message (Some (message_type_context message_type)))"

definition decode_error :: "string \<Rightarrow> string \<Rightarrow> exn" where
  "decode_error message message_type = decode_error_text (lit message) (lit message_type)"

fun is_decode_error :: "exn \<Rightarrow> bool" where
  "is_decode_error (DecodeError _) = True"
| "is_decode_error _ = False"

fun is_protocol_error :: "exn \<Rightarrow> bool" where
  "is_protocol_error (ProtocolError _) = True"
| "is_protocol_error _ = False"

fun is_connection_error :: "exn \<Rightarrow> bool" where
  "is_connection_error (ReplicationConnectionError _) = True"
| "is_connection_error _ = False"

lemma is_decode_error_decode_error [simp]:
  "is_decode_error (decode_error_text x y)"
  "is_decode_error (decode_error m t)"
  by (simp_all add: decode_error_def decode_error_text_def)


section \<open>The context is a lattice of known fields\<close>

lemma merge_field_simps [simp]:
  "merge_field None p = p"
  "merge_field (Some x) p = Some x"
  "merge_field g None = g"
  by (auto simp: merge_field_def split: option.split)

lemma merge_field_assoc: "merge_field (merge_field a b) c = merge_field a (merge_field b c)"
  by (cases a) auto

lemma merge_field_same [simp]: "merge_field v (merge_field v w) = merge_field v w"
  by (cases v) auto

lemma enrich_message [simp]: "err_message (enrich g err) = err_message err"
  by (simp add: enrich_def)

lemma enrich_fields [simp]:
  "ctx_slot (err_context (enrich g err)) = merge_field (ctx_slot g) (ctx_slot (err_context err))"
  "ctx_publication (err_context (enrich g err)) =
     merge_field (ctx_publication g) (ctx_publication (err_context err))"
  "ctx_lsn (err_context (enrich g err)) = merge_field (ctx_lsn g) (ctx_lsn (err_context err))"
  "ctx_xid (err_context (enrich g err)) = merge_field (ctx_xid g) (ctx_xid (err_context err))"
  "ctx_relation (err_context (enrich g err)) =
     merge_field (ctx_relation g) (ctx_relation (err_context err))"
  "ctx_message_type (err_context (enrich g err)) =
     merge_field (ctx_message_type g) (ctx_message_type (err_context err))"
  by (simp_all add: enrich_def)

lemma enrich_no_context [simp]: "enrich no_context err = err"
  by (simp add: enrich_def no_context_def)

text \<open>Two enrichments merge into one, and the later one wins where both name a field.\<close>

lemma enrich_enrich:
  "enrich g2 (enrich g1 err) =
   enrich (err_context (enrich g2 (walbox_error_init [] (Some g1)))) err"
  by (simp add: enrich_def walbox_error_init_def merge_field_assoc)

lemma render_context_empty_iff:
  "render_context u c = [] \<longleftrightarrow> c = no_context"
  by (auto simp: render_context_def context_fields_def no_context_def Let_def List.map_filter_def
      split: option.splits)


section \<open>Properties\<close>


end
