(* ===== verification/Py_Bytes.thy ===== *)
theory Py_Bytes
  imports Errors
begin

text \<open>
  The operations on \<open>bytes\<close> the decoders use: \<open>int.from_bytes\<close>,
  \<open>int.to_bytes\<close>, indexing, \<open>bytes.index\<close>, and the strict UTF-8 codec. A slice
  that reaches past the end of the buffer is shorter than asked for, an index past the end raises
  \<open>IndexError\<close>, as in Python.
\<close>

section \<open>Integers\<close>

definition int_from_bytes :: "bytes \<Rightarrow> int" where
  "int_from_bytes bs = foldl (\<lambda>acc b. 256 * acc + uint b) 0 bs"

definition int_from_bytes_signed :: "bytes \<Rightarrow> int" where
  "int_from_bytes_signed bs =
     (let n = int_from_bytes bs
      in if bs \<noteq> [] \<and> 2 ^ (8 * length bs - 1) \<le> n then n - 2 ^ (8 * length bs) else n)"

primrec be_bytes :: "nat \<Rightarrow> int \<Rightarrow> bytes" where
  "be_bytes 0 n = []"
| "be_bytes (Suc k) n = be_bytes k (n div 256) @ [word_of_int n]"

definition int_to_bytes :: "nat \<Rightarrow> int \<Rightarrow> exn + bytes" where
  "int_to_bytes k n = (if 0 \<le> n \<and> n < 256 ^ k then Inr (be_bytes k n) else Inl OverflowError)"


section \<open>Reading\<close>

definition byte_at :: "bytes \<Rightarrow> nat \<Rightarrow> exn + byte" where
  "byte_at buf i = (if i < length buf then Inr (buf ! i) else Inl IndexError)"

definition bytes_index :: "bytes \<Rightarrow> byte \<Rightarrow> nat \<Rightarrow> exn + nat" where
  "bytes_index buf b offset =
     (let end = offset + length (takeWhile (\<lambda>x. x \<noteq> b) (drop offset buf))
      in if end < length buf then Inr end else Inl (ValueError (lit ''subsection not found'')))"


section \<open>UTF-8\<close>

definition is_cont :: "byte \<Rightarrow> bool" where
  "is_cont b = (128 \<le> b \<and> b \<le> 191)"

text \<open>
  The strict decoder accepts exactly the well-formed sequences: no overlong form, no surrogate,
  nothing above U+10FFFF.
\<close>

fun utf8_decode :: "bytes \<Rightarrow> pystr option" where
  "utf8_decode [] = Some []"
| "utf8_decode (b # bs) =
     (if b < 128 then map_option (Cons (unat b)) (utf8_decode bs)
      else if b < 194 then None
      else if b < 224 then
        (case bs of
           c1 # r \<Rightarrow>
             if is_cont c1
             then map_option (Cons ((unat b - 192) * 64 + (unat c1 - 128))) (utf8_decode r)
             else None
         | _ \<Rightarrow> None)
      else if b < 240 then
        (case bs of
           c1 # c2 # r \<Rightarrow>
             if is_cont c1 \<and> is_cont c2 \<and> (b = 224 \<longrightarrow> 160 \<le> c1) \<and> (b = 237 \<longrightarrow> c1 \<le> 159)
             then map_option
               (Cons ((unat b - 224) * 4096 + (unat c1 - 128) * 64 + (unat c2 - 128)))
               (utf8_decode r)
             else None
         | _ \<Rightarrow> None)
      else if b < 245 then
        (case bs of
           c1 # c2 # c3 # r \<Rightarrow>
             if is_cont c1 \<and> is_cont c2 \<and> is_cont c3
                \<and> (b = 240 \<longrightarrow> 144 \<le> c1) \<and> (b = 244 \<longrightarrow> c1 \<le> 143)
             then map_option
               (Cons ((unat b - 240) * 262144 + (unat c1 - 128) * 4096
                      + (unat c2 - 128) * 64 + (unat c3 - 128)))
               (utf8_decode r)
             else None
         | _ \<Rightarrow> None)
      else None)"

definition is_scalar :: "nat \<Rightarrow> bool" where
  "is_scalar c = (c < 0xD800 \<or> (0xE000 \<le> c \<and> c < 0x110000))"

definition utf8_encode_char :: "nat \<Rightarrow> bytes" where
  "utf8_encode_char c =
     (if c < 128 then [of_nat c]
      else if c < 2048 then [of_nat (192 + c div 64), of_nat (128 + c mod 64)]
      else if c < 65536 then
        [of_nat (224 + c div 4096), of_nat (128 + c div 64 mod 64), of_nat (128 + c mod 64)]
      else [of_nat (240 + c div 262144), of_nat (128 + c div 4096 mod 64),
            of_nat (128 + c div 64 mod 64), of_nat (128 + c mod 64)])"

definition utf8_encode :: "pystr \<Rightarrow> bytes" where
  "utf8_encode s = concat (map utf8_encode_char s)"

text \<open>\<open>str.encode\<close> and \<open>bytes.decode\<close>, strict.\<close>

definition str_encode :: "pystr \<Rightarrow> exn + bytes" where
  "str_encode s = (if list_all is_scalar s then Inr (utf8_encode s) else Inl UnicodeEncodeError)"

definition bytes_decode :: "bytes \<Rightarrow> exn + pystr" where
  "bytes_decode bs = of_option UnicodeDecodeError (utf8_decode bs)"

text \<open>
  \<open>bytes.decode(errors=\<open>replace\<close>)\<close> on a slice of at most one byte, which is the only
  use the decoders make of it: an ASCII byte is its character, another byte is U+FFFD.
\<close>

definition decode_replace_byte :: "bytes \<Rightarrow> pystr" where
  "decode_replace_byte bs = map (\<lambda>b. if b < 128 then unat b else 0xFFFD) bs"


section \<open>Integers round trip\<close>

lemma length_be_bytes [simp]: "length (be_bytes k n) = k"
  by (induction k arbitrary: n) auto

lemma int_from_bytes_append [simp]: "int_from_bytes (bs @ [b]) = 256 * int_from_bytes bs + uint b"
  by (simp add: int_from_bytes_def)

lemma int_from_bytes_Nil [simp]: "int_from_bytes [] = 0"
  by (simp add: int_from_bytes_def)

lemma int_from_be_bytes_mod: "int_from_bytes (be_bytes k n) = n mod 256 ^ k"
proof (induction k arbitrary: n)
  case 0
  then show ?case by simp
next
  case (Suc k)
  have "uint (word_of_int n :: byte) = n mod 256"
    by (simp add: uint_word_of_int)
  then have "int_from_bytes (be_bytes (Suc k) n) = 256 * (n div 256 mod 256 ^ k) + n mod 256"
    by (simp add: Suc.IH)
  also have "\<dots> = n mod (256 * 256 ^ k)"
    by (simp add: zmod_zmult2_eq)
  finally show ?case by simp
qed

lemma be_bytes_mod: "be_bytes k (n mod 256 ^ k) = be_bytes k n"
proof (induction k arbitrary: n)
  case 0
  then show ?case by simp
next
  case (Suc k)
  have "n mod (256 * 256 ^ k) div 256 = n div 256 mod 256 ^ k"
    by (simp add: zmod_zmult2_eq)
  moreover have "(word_of_int (n mod (256 * 256 ^ k)) :: byte) = word_of_int n"
  proof -
    have "n mod (256 * 256 ^ k) mod 256 = n mod 256" by (simp add: zmod_zmult2_eq)
    then have "uint (word_of_int (n mod (256 * 256 ^ k)) :: byte) = uint (word_of_int n :: byte)"
      by (simp add: uint_word_of_int)
    then show ?thesis by (simp only: word_uint_eq_iff)
  qed
  ultimately show ?case by (simp add: Suc.IH)
qed

lemma int_from_be_bytes [simp]: "0 \<le> n \<Longrightarrow> n < 256 ^ k \<Longrightarrow> int_from_bytes (be_bytes k n) = n"
  by (simp add: int_from_be_bytes_mod)

lemma int_from_bytes_bounds: "0 \<le> int_from_bytes bs \<and> int_from_bytes bs < 256 ^ length bs"
proof (induction bs rule: rev_induct)
  case Nil
  then show ?case by simp
next
  case (snoc b bs)
  have "uint b < 256" using uint_lt2p [of b] by simp
  then show ?case using snoc by simp
qed

lemma int_from_bytes_nonneg [simp]: "0 \<le> int_from_bytes bs"
  using int_from_bytes_bounds by blast

lemma be_bytes_int_from_bytes: "be_bytes (length bs) (int_from_bytes bs) = bs"
proof (induction bs rule: rev_induct)
  case Nil
  then show ?case by simp
next
  case (snoc b bs)
  have b: "0 \<le> uint b" "uint b < 256" using uint_lt2p [of b] by simp_all
  then have "(256 * int_from_bytes bs + uint b) div 256 = int_from_bytes bs"
    by simp
  moreover have "word_of_int (256 * int_from_bytes bs + uint b) = b"
  proof -
    have "uint (word_of_int (256 * int_from_bytes bs + uint b) :: byte) = uint b"
    proof -
      have "uint (word_of_int (256 * int_from_bytes bs + uint b) :: byte)
          = (256 * int_from_bytes bs + uint b) mod 256"
        by (simp only: uint_word_of_int) simp
      also have "\<dots> = uint b" using b by simp
      finally show ?thesis .
    qed
    then show ?thesis by (simp only: word_uint_eq_iff)
  qed
  ultimately show ?case by (simp add: snoc)
qed

lemma int_from_bytes_signed_be:
  assumes "0 < k" and "- (2 ^ (8 * k - 1)) \<le> n" and "n < 2 ^ (8 * k - 1)"
  shows "int_from_bytes_signed (be_bytes k n) = n"
proof -
  define h :: int where "h = 2 ^ (8 * k - 1)"
  have full: "256 ^ k = 2 * h" and full': "2 ^ (8 * k) = 2 * h"
  proof -
    have "(2::int) ^ (8 * k) = 2 ^ Suc (8 * k - 1)" using \<open>0 < k\<close> by simp
    then show "2 ^ (8 * k) = 2 * h" by (simp add: h_def)
    then show "256 ^ k = 2 * h" by (simp add: power_mult)
  qed
  have bounds: "- h \<le> n" "n < h" using assms by (simp_all add: h_def)
  have "n mod (2 * h) = (if 0 \<le> n then n else n + 2 * h)"
  proof (cases "0 \<le> n")
    case True
    then show ?thesis using bounds by simp
  next
    case False
    have "n mod (2 * h) = (n + 2 * h) mod (2 * h)" by simp
    also have "\<dots> = n + 2 * h" using False bounds by (intro mod_pos_pos_trivial) simp_all
    finally show ?thesis using False by simp
  qed
  moreover have "be_bytes k n \<noteq> []" using \<open>0 < k\<close> by (metis length_be_bytes length_greater_0_conv)
  ultimately show ?thesis
    using bounds by (simp add: int_from_bytes_signed_def int_from_be_bytes_mod full full' h_def [unfolded One_nat_def, symmetric] Let_def)
qed


section \<open>UTF-8 round trip\<close>

lemma unat_of_nat_byte [simp]: "n < 256 \<Longrightarrow> unat (of_nat n :: byte) = n"
  by (simp add: unat_of_nat)

lemma byte_less_iff: "(of_nat n :: byte) < b \<longleftrightarrow> n < unat b" if "n < 256" for b :: byte
  using that by (simp add: word_less_nat_alt)

lemma byte_le_iff: "b \<le> (of_nat n :: byte) \<longleftrightarrow> unat b \<le> n" if "n < 256" for b :: byte
  using that by (simp add: word_le_nat_alt)

lemmas byte_nat = word_less_nat_alt word_le_nat_alt word_unat_eq_iff

text \<open>One reading rule per length of a sequence.\<close>

lemma utf8_decode_one:
  "unat b < 128 \<Longrightarrow> utf8_decode (b # r) = map_option (Cons (unat b)) (utf8_decode r)"
  by (simp add: byte_nat)

lemma utf8_decode_two:
  assumes "unat b = 192 + x" and "unat c1 = 128 + y" and "2 \<le> x" and "x < 32" and "y < 64"
  shows "utf8_decode (b # c1 # r) = map_option (Cons (x * 64 + y)) (utf8_decode r)"
  using assms by (simp add: byte_nat is_cont_def)

lemma utf8_decode_three:
  assumes "unat b = 224 + x" and "unat c1 = 128 + y" and "unat c2 = 128 + z"
    and "x < 16" and "y < 64" and "z < 64" and "x = 0 \<longrightarrow> 32 \<le> y" and "x = 13 \<longrightarrow> y \<le> 31"
  shows "utf8_decode (b # c1 # c2 # r) = map_option (Cons (x * 4096 + y * 64 + z)) (utf8_decode r)"
  using assms by (simp add: byte_nat is_cont_def)

lemma utf8_decode_four:
  assumes "unat b = 240 + x" and "unat c1 = 128 + y" and "unat c2 = 128 + z" and "unat c3 = 128 + w"
    and "x < 5" and "y < 64" and "z < 64" and "w < 64"
    and "x = 0 \<longrightarrow> 16 \<le> y" and "x = 4 \<longrightarrow> y \<le> 15"
  shows "utf8_decode (b # c1 # c2 # c3 # r)
       = map_option (Cons (x * 262144 + y * 4096 + z * 64 + w)) (utf8_decode r)"
  using assms by (simp add: byte_nat is_cont_def)

declare utf8_decode.simps(2) [simp del, py_simps]

lemma low_digit:
  fixes d :: nat
  shows "d div 64 = 13 \<Longrightarrow> d < 864 \<Longrightarrow> d mod 64 \<le> 31" and "d div 64 = 13 \<Longrightarrow> d < 896"
    and "d div 64 = 0 \<Longrightarrow> d mod 64 = d" and "d div 64 = 4 \<Longrightarrow> d < 272 \<Longrightarrow> d mod 64 \<le> 15"
proof -
  have d: "d = 64 * (d div 64) + d mod 64" "d mod 64 < 64" by simp_all
  show "d div 64 = 13 \<Longrightarrow> d < 864 \<Longrightarrow> d mod 64 \<le> 31" "d div 64 = 13 \<Longrightarrow> d < 896"
    "d div 64 = 4 \<Longrightarrow> d < 272 \<Longrightarrow> d mod 64 \<le> 15"
    using d by linarith+
  show "d div 64 = 0 \<Longrightarrow> d mod 64 = d" by (simp add: div_eq_0_iff)
qed

lemma split_64: "c div 4096 * 4096 + c div 64 mod 64 * 64 + c mod 64 = (c :: nat)"
proof -
  have "c = 64 * (c div 64) + c mod 64" "c div 64 = 64 * (c div 64 div 64) + c div 64 mod 64"
    by simp_all
  moreover have "c div 4096 = c div 64 div 64" by (simp flip: div_mult2_eq)
  ultimately show ?thesis by linarith
qed

lemma split_64_four:
  "c div 262144 * 262144 + c div 4096 mod 64 * 4096 + c div 64 mod 64 * 64 + c mod 64 = (c :: nat)"
proof -
  have "c div 4096 = 64 * (c div 4096 div 64) + c div 4096 mod 64" by simp
  moreover have "c div 262144 = c div 4096 div 64" by (simp flip: div_mult2_eq)
  ultimately show ?thesis using split_64 [of c] by linarith
qed

lemma utf8_decode_encode_char:
  assumes "is_scalar c"
  shows "utf8_decode (utf8_encode_char c @ bs) = map_option (Cons c) (utf8_decode bs)"
proof -
  consider "c < 128" | "128 \<le> c" "c < 2048" | "2048 \<le> c" "c < 65536" | "65536 \<le> c" "c < 1114112"
    using assms unfolding is_scalar_def by linarith
  moreover have cont: "\<And>m. 128 + m mod 64 < (256 :: nat)" "\<And>m. m mod 64 < (64 :: nat)"
    by (simp_all add: less_imp_le_nat trans_less_add1)
  ultimately show ?thesis
  proof cases
    case 1
    then show ?thesis
      using utf8_decode_one [of "of_nat c" bs] by (simp add: utf8_encode_char_def unat_of_nat)
  next
    case 2
    have "utf8_decode (of_nat (192 + c div 64) # of_nat (128 + c mod 64) # bs)
        = map_option (Cons (c div 64 * 64 + c mod 64)) (utf8_decode bs)"
      by (intro utf8_decode_two unat_of_nat_byte) (use 2 in auto)
    then show ?thesis using 2 by (simp add: utf8_encode_char_def)
  next
    case 3
    have y: "c div 4096 = 13 \<longrightarrow> c div 64 mod 64 \<le> 31" "c div 4096 = 0 \<longrightarrow> 32 \<le> c div 64 mod 64"
    proof -
      have d: "c div 4096 = c div 64 div 64" by (simp flip: div_mult2_eq)
      have "c div 64 < 864 \<or> 896 \<le> c div 64" "32 \<le> c div 64"
        using 3 assms by (auto simp: is_scalar_def)
      then show "c div 4096 = 13 \<longrightarrow> c div 64 mod 64 \<le> 31" "c div 4096 = 0 \<longrightarrow> 32 \<le> c div 64 mod 64"
        using low_digit [of "c div 64"] unfolding d by auto
    qed
    have lead: "c div 4096 < 16" "224 + c div 4096 < 256" using 3 by auto
    have "utf8_decode (of_nat (224 + c div 4096) # of_nat (128 + c div 64 mod 64)
            # of_nat (128 + c mod 64) # bs)
        = map_option (Cons (c div 4096 * 4096 + c div 64 mod 64 * 64 + c mod 64)) (utf8_decode bs)"
      by (rule utf8_decode_three [OF unat_of_nat_byte unat_of_nat_byte unat_of_nat_byte])
        (use lead cont y in \<open>simp_all only:\<close>)
    moreover have "c div 4096 * 4096 + c div 64 mod 64 * 64 + c mod 64 = c" by (rule split_64)
    ultimately show ?thesis using 3 by (simp add: utf8_encode_char_def)
  next
    case 4
    have lead: "c div 262144 < 5" "240 + c div 262144 < 256" using 4 by auto
    have y: "c div 262144 = 4 \<longrightarrow> c div 4096 mod 64 \<le> 15" "c div 262144 = 0 \<longrightarrow> 16 \<le> c div 4096 mod 64"
    proof -
      have d: "c div 262144 = c div 4096 div 64" by (simp flip: div_mult2_eq)
      have "c div 4096 < 272" "16 \<le> c div 4096" using 4 by auto
      then show "c div 262144 = 4 \<longrightarrow> c div 4096 mod 64 \<le> 15" "c div 262144 = 0 \<longrightarrow> 16 \<le> c div 4096 mod 64"
        using low_digit(3,4) [of "c div 4096"] unfolding d by auto
    qed
    have "utf8_decode (of_nat (240 + c div 262144) # of_nat (128 + c div 4096 mod 64)
            # of_nat (128 + c div 64 mod 64) # of_nat (128 + c mod 64) # bs)
        = map_option (Cons (c div 262144 * 262144 + c div 4096 mod 64 * 4096
            + c div 64 mod 64 * 64 + c mod 64)) (utf8_decode bs)"
      by (rule utf8_decode_four [OF unat_of_nat_byte unat_of_nat_byte unat_of_nat_byte unat_of_nat_byte])
        (use lead cont y in \<open>simp_all only:\<close>)
    moreover have "c div 262144 * 262144 + c div 4096 mod 64 * 4096
        + c div 64 mod 64 * 64 + c mod 64 = c"
      by (rule split_64_four)
    ultimately show ?thesis using 4 by (simp add: utf8_encode_char_def)
  qed
qed

lemma utf8_decode_encode: "list_all is_scalar s \<Longrightarrow> utf8_decode (utf8_encode s) = Some s"
  by (induction s) (simp_all add: utf8_encode_def utf8_decode_encode_char)

lemma bytes_decode_encode [simp]: "list_all is_scalar s \<Longrightarrow> bytes_decode (utf8_encode s) = Inr s"
  by (simp add: bytes_decode_def utf8_decode_encode)

text \<open>The decoder is canonical: what it accepts is the encoding of what it returns.\<close>

lemma byte_from_unat: "unat (b :: byte) = n \<Longrightarrow> of_nat n = b"
  by auto

text \<open>Base-64 digits of a sum in Horner form.\<close>

lemma digits_64:
  assumes "y < 64" and "z < (64::nat)"
  shows "(x * 4096 + y * 64 + z) div 4096 = x"
    and "(x * 4096 + y * 64 + z) div 64 = x * 64 + y"
    and "(x * 4096 + y * 64 + z) mod 64 = z"
proof -
  show "(x * 4096 + y * 64 + z) div 4096 = x" using assms by auto
  have "x * 4096 + y * 64 + z = z + (x * 64 + y) * 64" by simp
  then show "(x * 4096 + y * 64 + z) div 64 = x * 64 + y" "(x * 4096 + y * 64 + z) mod 64 = z"
    using assms by (simp_all only: div_mult_self1 mod_mult_self1) auto
qed

lemma digits_64_four:
  assumes "y < 64" and "z < 64" and "w < (64::nat)"
  shows "(x * 262144 + y * 4096 + z * 64 + w) div 262144 = x"
    and "(x * 262144 + y * 4096 + z * 64 + w) div 4096 mod 64 = y"
    and "(x * 262144 + y * 4096 + z * 64 + w) div 64 mod 64 = z"
    and "(x * 262144 + y * 4096 + z * 64 + w) mod 64 = w"
proof -
  let ?n = "x * 262144 + y * 4096 + z * 64 + w"
  have n: "?n = (x * 64 + y) * 4096 + z * 64 + w" by simp
  show "?n div 4096 mod 64 = y" "?n mod 64 = w"
    using assms digits_64 [of z w "x * 64 + y"] unfolding n by auto
  have "?n div 64 = (x * 64 + y) * 64 + z"
    using digits_64(2) [of z w "x * 64 + y"] assms unfolding n by simp
  also have "\<dots> = (x * 4096 + y * 64 + z)" by simp
  finally show "?n div 64 mod 64 = z" using digits_64(3) [of y z x] assms by (simp only:)
  show "?n div 262144 = x" using assms by auto
qed

lemma utf8_encode_two:
  assumes "unat b = 192 + x" and "unat c1 = 128 + y" and "2 \<le> x" and "x < 32" and "y < 64"
  shows "utf8_encode_char (x * 64 + y) = [b, c1] \<and> is_scalar (x * 64 + y)"
proof -
  have "(x * 64 + y) div 64 = x" "(x * 64 + y) mod 64 = y" using assms by auto
  then show ?thesis
    using assms byte_from_unat [OF assms(1)] byte_from_unat [OF assms(2)]
    by (simp add: utf8_encode_char_def is_scalar_def)
qed

lemma utf8_encode_three:
  assumes "unat b = 224 + x" and "unat c1 = 128 + y" and "unat c2 = 128 + z"
    and "x < 16" and "y < 64" and "z < 64" and "x = 0 \<longrightarrow> 32 \<le> y" and "x = 13 \<longrightarrow> y \<le> 31"
  shows "utf8_encode_char (x * 4096 + y * 64 + z) = [b, c1, c2] \<and> is_scalar (x * 4096 + y * 64 + z)"
proof -
  let ?n = "x * 4096 + y * 64 + z"
  have "?n div 4096 = x" "?n div 64 mod 64 = y" "?n mod 64 = z"
    using digits_64 [of y z x] assms(5,6) by auto
  moreover have "2048 \<le> ?n" "?n < 65536" using assms by (cases "x = 0"; simp)+
  moreover have "is_scalar ?n" using assms by (cases "x = 13") (auto simp: is_scalar_def)
  ultimately show ?thesis
    using byte_from_unat [OF assms(1)] byte_from_unat [OF assms(2)] byte_from_unat [OF assms(3)]
    by (simp add: utf8_encode_char_def)
qed

lemma utf8_encode_four:
  assumes "unat b = 240 + x" and "unat c1 = 128 + y" and "unat c2 = 128 + z" and "unat c3 = 128 + w"
    and "x < 5" and "y < 64" and "z < 64" and "w < 64"
    and "x = 0 \<longrightarrow> 16 \<le> y" and "x = 4 \<longrightarrow> y \<le> 15"
  shows "utf8_encode_char (x * 262144 + y * 4096 + z * 64 + w) = [b, c1, c2, c3]
       \<and> is_scalar (x * 262144 + y * 4096 + z * 64 + w)"
proof -
  let ?n = "x * 262144 + y * 4096 + z * 64 + w"
  have "?n div 262144 = x" "?n div 4096 mod 64 = y" "?n div 64 mod 64 = z" "?n mod 64 = w"
    using digits_64_four [of y z w x] assms(6-8) by auto
  moreover have "65536 \<le> ?n" using assms by (cases "x = 0") auto
  moreover have "?n < 1114112" using assms by (cases "x = 4") auto
  ultimately show ?thesis
    using byte_from_unat [OF assms(1)] byte_from_unat [OF assms(2)] byte_from_unat [OF assms(3)]
      byte_from_unat [OF assms(4)]
    by (simp add: utf8_encode_char_def is_scalar_def)
qed

lemma utf8_encode_Cons [simp]: "utf8_encode (c # s) = utf8_encode_char c @ utf8_encode s"
  by (simp add: utf8_encode_def)

lemma utf8_encode_Nil [simp]: "utf8_encode [] = []"
  by (simp add: utf8_encode_def)

lemma is_cont_nat: "is_cont c \<longleftrightarrow> (\<exists>y < 64. unat c = 128 + y)"
proof
  assume "is_cont c"
  then have "unat c = 128 + (unat c - 128)" "unat c - 128 < 64" by (auto simp: is_cont_def byte_nat)
  then show "\<exists>y < 64. unat c = 128 + y" by blast
next
  assume "\<exists>y < 64. unat c = 128 + y"
  then show "is_cont c" by (auto simp: is_cont_def byte_nat)
qed

lemma utf8_encode_decode:
  "utf8_decode bs = Some s \<Longrightarrow> utf8_encode s = bs \<and> list_all is_scalar s"
proof (induction bs arbitrary: s rule: utf8_decode.induct)
  case 1
  then show ?case by simp
next
  case (2 b bs)
  consider "unat b < 128" | x where "unat b = 192 + x" "2 \<le> x" "x < 32"
    | x where "unat b = 224 + x" "x < 16" | x where "unat b = 240 + x" "x < 5"
    | "b \<ge> 128" "b < 194 \<or> b \<ge> 245"
  proof -
    have "unat b < 128 \<or> (128 \<le> unat b \<and> unat b < 194) \<or> (194 \<le> unat b \<and> unat b < 224)
        \<or> (224 \<le> unat b \<and> unat b < 240) \<or> (240 \<le> unat b \<and> unat b < 245) \<or> 245 \<le> unat b"
      by linarith
    then show ?thesis
      using that(1) that(2) [of "unat b - 192"] that(3) [of "unat b - 224"]
        that(4) [of "unat b - 240"] that(5)
      by (auto simp: byte_nat)
  qed
  then show ?case
  proof cases
    case 1
    then obtain t where t: "utf8_decode bs = Some t" "s = unat b # t"
      using "2.prems" by (auto simp: utf8_decode_one)
    then have "utf8_encode t = bs \<and> list_all is_scalar t"
      using "2.IH"(1) 1 by (simp add: byte_nat)
    moreover have "is_scalar (unat b)" using 1 by (simp add: is_scalar_def)
    ultimately show ?thesis using 1 t by (simp add: utf8_encode_char_def)
  next
    case (2 x)
    then obtain c1 r y t where c: "bs = c1 # r" "unat c1 = 128 + y" "y < 64" "is_cont c1"
      "utf8_decode r = Some t" "s = (x * 64 + y) # t"
      using "2.prems" by (auto simp: utf8_decode.simps(2) byte_nat is_cont_nat split: list.splits if_splits)
    have "utf8_encode t = r \<and> list_all is_scalar t"
      using "2.IH"(2) [of c1 r t] 2 c by (simp add: byte_nat)
    then show ?thesis using utf8_encode_two [of b x c1 y] 2 c by simp
  next
    case (3 x)
    then obtain c1 c2 r y z t where c: "bs = c1 # c2 # r" "unat c1 = 128 + y" "y < 64" "is_cont c1"
      "unat c2 = 128 + z" "z < 64" "is_cont c2" "x = 0 \<longrightarrow> 32 \<le> y" "x = 13 \<longrightarrow> y \<le> 31"
      "utf8_decode r = Some t" "s = (x * 4096 + y * 64 + z) # t"
      using "2.prems"
      by (auto simp: utf8_decode.simps(2) byte_nat is_cont_nat split: list.splits if_splits)
    have "utf8_encode t = r \<and> list_all is_scalar t"
      using "2.IH"(3) [of c1 "c2 # r" c2 r t] 3 c by (simp add: byte_nat)
    then show ?thesis using utf8_encode_three [of b x c1 y c2 z] 3 c by simp
  next
    case (4 x)
    then obtain c1 c2 c3 r y z w t where c: "bs = c1 # c2 # c3 # r" "unat c1 = 128 + y" "y < 64"
      "is_cont c1" "unat c2 = 128 + z" "z < 64" "is_cont c2" "unat c3 = 128 + w" "w < 64" "is_cont c3"
      "x = 0 \<longrightarrow> 16 \<le> y" "x = 4 \<longrightarrow> y \<le> 15"
      "utf8_decode r = Some t" "s = (x * 262144 + y * 4096 + z * 64 + w) # t"
      using "2.prems"
      by (auto simp: utf8_decode.simps(2) byte_nat is_cont_nat split: list.splits if_splits)
    have "utf8_encode t = r \<and> list_all is_scalar t"
      using "2.IH"(4) [of c1 "c2 # c3 # r" c2 "c3 # r" c3 r t] 4 c by (simp add: byte_nat)
    then show ?thesis using utf8_encode_four [of b x c1 y c2 z c3 w] 4 c by simp
  next
    case 5
    then show ?thesis using "2.prems" by (auto simp: utf8_decode.simps(2) byte_nat split: if_splits)
  qed
qed

lemma utf8_encode_char_nonzero: "c \<noteq> 0 \<Longrightarrow> is_scalar c \<Longrightarrow> 0 \<notin> set (utf8_encode_char c)"
proof
  assume c: "c \<noteq> 0" "is_scalar c" "0 \<in> set (utf8_encode_char c)"
  have "c < 1114112" using c(2) by (auto simp: is_scalar_def)
  then have lead: "c < 2048 \<Longrightarrow> 192 + c div 64 < 256" "c < 65536 \<Longrightarrow> 224 + c div 4096 < 256"
    "240 + c div 262144 < 256" by auto
  have nz: "\<And>n. 0 < n \<Longrightarrow> n < 256 \<Longrightarrow> (0 :: byte) \<noteq> of_nat n"
    by (metis less_numeral_extra(3) unat_0 unat_of_nat_byte)
  have tail: "\<And>m. (0 :: byte) \<noteq> of_nat (128 + m mod 64)" by (rule nz) auto
  show False
    using c(1,3) nz [of c] nz [OF _ lead(1)] nz [OF _ lead(2)] nz [OF _ lead(3)] tail
    by (auto simp: utf8_encode_char_def split: if_splits simp del: of_nat_add)
qed

lemma utf8_encode_nonzero: "0 \<notin> set s \<Longrightarrow> list_all is_scalar s \<Longrightarrow> 0 \<notin> set (utf8_encode s)"
  using utf8_encode_char_nonzero by (induction s) auto

end
