(* ===== verification/Py_Float.thy ===== *)
theory Py_Float
  imports Complex_Main "HOL-Library.Log_Nat"
begin

text \<open>
  Python floats as the source uses them: clock readings, their differences and the back-off delay.
  A finite float is the rational number it denotes; an operation rounds the exact result to the
  nearest 53-bit number, ties to even (\<open>fl\<close>). Overflow and subnormal numbers are left out:
  the values here are seconds and microseconds of a clock.
\<close>

type_synonym pyfloat = rat

definition round_half_even :: "rat \<Rightarrow> int" where
  "round_half_even x =
     (let f = \<lfloor>x\<rfloor>; r = x - of_int f
      in if r < 1 / 2 \<or> (r = 1 / 2 \<and> even f) then f else f + 1)"

text \<open>\<open>\<lfloor>log 2 x\<rfloor>\<close> of a positive rational, from the lengths of its two halves.\<close>

definition ilog2 :: "rat \<Rightarrow> int" where
  "ilog2 x =
     (let (n, d) = quotient_of x; e = bitlen n - bitlen d
      in if 2 powi e \<le> x then e else e - 1)"

definition fl :: "rat \<Rightarrow> pyfloat" where
  "fl x = (if x = 0 then 0
           else let q = 2 powi (ilog2 \<bar>x\<bar> - 52) in of_int (round_half_even (x / q)) * q)"

definition fsub :: "pyfloat \<Rightarrow> pyfloat \<Rightarrow> pyfloat" where "fsub x y = fl (x - y)"
definition fadd :: "pyfloat \<Rightarrow> pyfloat \<Rightarrow> pyfloat" where "fadd x y = fl (x + y)"
definition fmul :: "pyfloat \<Rightarrow> pyfloat \<Rightarrow> pyfloat" where "fmul x y = fl (x * y)"

text \<open>\<open>int(x)\<close> of a float cuts off towards zero.\<close>

definition trunc :: "pyfloat \<Rightarrow> int" where
  "trunc x = (if 0 \<le> x then \<lfloor>x\<rfloor> else \<lceil>x\<rceil>)"


section \<open>Rounding\<close>

lemma round_half_even_of_int [simp]: "round_half_even (of_int n) = n"
  by (simp add: round_half_even_def)

lemma round_half_even_near: "\<bar>of_int (round_half_even x) - x\<bar> \<le> 1 / 2"
proof -
  have "of_int \<lfloor>x\<rfloor> \<le> x" "x < of_int \<lfloor>x\<rfloor> + 1" by linarith+
  then show ?thesis by (auto simp: round_half_even_def Let_def abs_le_iff)
qed

lemma round_half_even_mono:
  assumes "x \<le> y"
  shows "round_half_even x \<le> round_half_even y"
proof (cases "\<lfloor>x\<rfloor> = \<lfloor>y\<rfloor>")
  case True
  with assms show ?thesis by (auto simp: round_half_even_def Let_def)
next
  case False
  with floor_mono [OF assms] have "\<lfloor>x\<rfloor> + 1 \<le> \<lfloor>y\<rfloor>" by linarith
  then show ?thesis by (auto simp: round_half_even_def Let_def)
qed

lemma ilog2_bounds:
  assumes "0 < x"
  shows "2 powi ilog2 x \<le> x" and "x < 2 powi (ilog2 x + 1)"
proof -
  obtain n d where q: "quotient_of x = (n, d)" by fastforce
  have d: "0 < d" using quotient_of_denom_pos [OF q] .
  have x: "x = of_int n / of_int d" using quotient_of_div [OF q] .
  have n: "0 < n" using assms d by (simp add: x zero_less_divide_iff)
  have len: "0 \<le> bitlen n - 1" "0 \<le> bitlen d - 1" "0 \<le> bitlen n" "0 \<le> bitlen d"
    using n d by (auto simp: bitlen_alt_def)
  have pw: "2 powi k = (of_int (2 ^ nat k) :: rat)" if "0 \<le> k" for k
    using that by (simp add: power_int_def)
  have n1: "2 powi (bitlen n - 1) \<le> (of_int n :: rat)" and n2: "of_int n < (2::rat) powi bitlen n"
    using bitlen_bounds [OF n] len by (simp_all only: pw of_int_le_iff of_int_less_iff)
  have d1: "2 powi (bitlen d - 1) \<le> (of_int d :: rat)" and d2: "of_int d < (2::rat) powi bitlen d"
    using bitlen_bounds [OF d] len by (simp_all only: pw of_int_le_iff of_int_less_iff)
  let ?e = "bitlen n - bitlen d"
  have pos: "0 < (2::rat) powi k" for k by simp
  have "x < 2 powi bitlen n / 2 powi (bitlen d - 1)"
    unfolding x using n2 d1 pos d n by (intro frac_less) auto
  also have "\<dots> = 2 powi (bitlen n - (bitlen d - 1))"
    by (rule power_int_diff [symmetric]) simp
  also have "bitlen n - (bitlen d - 1) = ?e + 1" by simp
  finally have up: "x < 2 powi (?e + 1)" .
  have "2 powi (bitlen n - 1 - bitlen d) = (2::rat) powi (bitlen n - 1) / 2 powi bitlen d"
    by (rule power_int_diff) simp
  also have "\<dots> \<le> x"
    unfolding x using n1 d2 pos d n by (intro frac_le) auto
  finally have low: "2 powi (?e - 1) \<le> x" by (simp add: algebra_simps)
  show "2 powi ilog2 x \<le> x" "x < 2 powi (ilog2 x + 1)"
    using up low by (auto simp: ilog2_def q Let_def)
qed

lemma ilog2_less:
  assumes "0 < x" and "x < 2 powi k"
  shows "ilog2 x < k"
proof (rule ccontr)
  assume "\<not> ilog2 x < k"
  then have "2 powi k \<le> (2::rat) powi ilog2 x" by (simp add: power_int_increasing)
  with ilog2_bounds(1) [OF assms(1)] assms(2) show False by linarith
qed

lemma fl_0 [simp]: "fl 0 = 0" by (simp add: fl_def)

text \<open>A multiple of the unit in the last place is a float: rounding leaves it alone.\<close>

lemma fl_exact:
  assumes "x = of_int m * 2 powi k" and "\<bar>x\<bar> < 2 powi (k + 53)"
  shows "fl x = x"
proof (cases "x = 0")
  case False
  let ?s = "ilog2 \<bar>x\<bar> - 52"
  have "ilog2 \<bar>x\<bar> < k + 53" using assms(2) False by (intro ilog2_less) auto
  then have le: "0 \<le> k - ?s" by simp
  have "x / 2 powi ?s = of_int m * 2 powi (k - ?s)"
    by (simp add: assms(1) power_int_diff)
  also have "\<dots> = of_int (m * 2 ^ nat (k - ?s))"
    using le by (simp add: power_int_def)
  finally have "x / 2 powi ?s = of_int (m * 2 ^ nat (k - ?s))" .
  moreover from this have "of_int (m * 2 ^ nat (k - ?s)) * 2 powi ?s = x"
    by (metis nonzero_divide_eq_eq power_int_eq_0_iff zero_neq_numeral)
  ultimately show ?thesis using False
    by (simp only: fl_def Let_def if_False round_half_even_of_int)
qed simp

lemma fl_near:
  assumes "\<bar>x\<bar> < 2 powi (k + 53)"
  shows "\<bar>fl x - x\<bar> \<le> 2 powi k / 2"
proof (cases "x = 0")
  case False
  let ?q = "2 powi (ilog2 \<bar>x\<bar> - 52) :: rat"
  have q: "0 < ?q" by simp
  have "ilog2 \<bar>x\<bar> < k + 53" using assms False by (intro ilog2_less) auto
  then have qk: "?q \<le> 2 powi k" by (intro power_int_increasing) auto
  have "\<bar>fl x - x\<bar> = \<bar>of_int (round_half_even (x / ?q)) - x / ?q\<bar> * ?q"
  proof -
    have "fl x - x = (of_int (round_half_even (x / ?q)) - x / ?q) * ?q"
      using False by (simp add: fl_def Let_def left_diff_distrib)
    then show ?thesis using q by (simp only: abs_mult abs_of_pos)
  qed
  also have "\<dots> \<le> 1 / 2 * ?q"
    using round_half_even_near q by (intro mult_right_mono) auto
  finally show ?thesis using qk by simp
qed simp

lemma fl_int: "\<bar>n\<bar> < 2 ^ 53 \<Longrightarrow> fl (of_int n) = of_int n"
proof (rule fl_exact [of _ n 0])
  assume "\<bar>n\<bar> < 2 ^ 53"
  then have "of_int \<bar>n\<bar> < (of_int (2 ^ 53) :: rat)" by (simp only: of_int_less_iff)
  then show "\<bar>of_int n :: rat\<bar> < 2 powi (0 + 53)" by (simp add: power_int_def)
qed simp

lemma ilog2_eq:
  assumes "2 powi k \<le> x" and "x < 2 powi (k + 1)"
  shows "ilog2 x = k"
proof -
  have pos: "0 < x" using assms(1) less_le_trans [of 0 "2 powi k" x] by simp
  have "ilog2 x < k + 1" by (rule ilog2_less [OF pos assms(2)])
  moreover have "\<not> ilog2 x < k"
  proof
    assume "ilog2 x < k"
    then have "(2 :: rat) powi (ilog2 x + 1) \<le> 2 powi k" by (intro power_int_increasing) auto
    with ilog2_bounds(2) [OF pos] assms(1) show False by linarith
  qed
  ultimately show ?thesis by linarith
qed

lemma round_half_even_unique: "\<bar>x - of_int m\<bar> < 1 / 2 \<Longrightarrow> round_half_even x = m"
proof -
  assume near: "\<bar>x - of_int m\<bar> < 1 / 2"
  show ?thesis
  proof (cases "of_int m \<le> x")
    case True
    with near have "\<lfloor>x\<rfloor> = m" by (intro floor_unique) linarith+
    with near True show ?thesis by (simp add: round_half_even_def Let_def)
  next
    case False
    with near have "\<lfloor>x\<rfloor> = m - 1" by (intro floor_unique) (simp_all add: abs_less_iff)
    with near False show ?thesis by (simp add: round_half_even_def Let_def)
  qed
qed

text \<open>A value less than half a unit away from a float, in the float's own binade, rounds to it.\<close>

lemma fl_absorbs:
  assumes "2 powi (k + 52) \<le> x" and "x < 2 powi (k + 53)"
    and "\<bar>x - of_int m * 2 powi k\<bar> < 2 powi k / 2"
  shows "fl x = of_int m * 2 powi k"
proof -
  have pos: "0 < x" using assms(1) less_le_trans [of 0 "2 powi (k + 52)" x] by simp
  have "ilog2 x = k + 52" using assms(1,2) by (intro ilog2_eq) (auto simp: add.assoc)
  moreover have "\<bar>x / 2 powi k - of_int m\<bar> < 1 / 2"
  proof -
    have "x / 2 powi k - of_int m = (x - of_int m * 2 powi k) / 2 powi k"
      by (simp add: diff_divide_distrib)
    then have "\<bar>x / 2 powi k - of_int m\<bar> = \<bar>x - of_int m * 2 powi k\<bar> / 2 powi k"
      by (simp add: abs_divide)
    then show ?thesis using assms(3) by (simp add: divide_less_eq)
  qed
  ultimately show ?thesis
    using pos round_half_even_unique by (simp add: fl_def Let_def)
qed

text \<open>The powers of two the proofs about concrete clock ranges use.\<close>

lemma powi_values:
  "2 powi (- 20 + 53) = (8589934592 :: rat)" "2 powi - 20 = (1 / 1048576 :: rat)"
  "2 powi (- 23 + 53) = (1073741824 :: rat)" "2 powi - 23 = (1 / 8388608 :: rat)"
  "2 powi (- 3 + 53) = (1125899906842624 :: rat)" "2 powi (- 3 + 52) = (562949953421312 :: rat)"
  "2 powi - 3 = (1 / 8 :: rat)"
  "2 powi (0 + 53) = (9007199254740992 :: rat)" "2 powi 0 = (1 :: rat)"
  by (simp_all add: power_int_def power_one_over)

end
