(* ===== verification/Protocol.thy ===== *)
theory Protocol
  imports Py_Bytes Py_Float
begin

text \<open>
  \<open>walbox/protocol.py\<close>: the outer replication messages. \<open>XLogData\<close> and
  \<open>PrimaryKeepalive\<close> are decoded, \<open>StandbyStatusUpdate\<close> is encoded. The functions are
  pure; \<open>encode_xlog_data\<close>, \<open>encode_primary_keepalive\<close> and
  \<open>decode_standby_status_update\<close> state the wire format the server speaks and are the other
  half of the round trips.
\<close>

section \<open>Messages\<close>

record xlog_data =
  wal_start :: int
  wal_end :: int
  send_time :: int
  xlog_payload :: bytes

record primary_keepalive =
  keepalive_wal_end :: int
  keepalive_send_time :: int
  keepalive_reply_requested :: bool

record standby_status_update =
  written_lsn :: int
  flushed_lsn :: int
  applied_lsn :: int
  client_time :: int
  status_reply_requested :: bool

datatype replication_message = XLogData xlog_data | PrimaryKeepalive primary_keepalive


section \<open>Decoding and encoding\<close>

definition XLOG_DATA_HEADER_LEN :: nat where "XLOG_DATA_HEADER_LEN = 25"
definition PRIMARY_KEEPALIVE_LEN :: nat where "PRIMARY_KEEPALIVE_LEN = 18"

definition protocol_error :: "pystr \<Rightarrow> error_context option \<Rightarrow> exn" where
  "protocol_error message context = ProtocolError (walbox_error_init message context)"

definition decode_xlog_data :: "bytes \<Rightarrow> exn + xlog_data" where
  "decode_xlog_data payload =
     (if length payload < XLOG_DATA_HEADER_LEN \<or> slice payload 0 1 \<noteq> blit ''w''
      then Inl (protocol_error (lit ''not a valid XLogData message'')
                  (Some (message_type_context (lit ''XLogData''))))
      else Inr \<lparr>wal_start = int_from_bytes (slice payload 1 9),
                wal_end = int_from_bytes (slice payload 9 17),
                send_time = int_from_bytes (slice payload 17 25),
                xlog_payload = drop 25 payload\<rparr>)"

definition decode_primary_keepalive :: "bytes \<Rightarrow> exn + primary_keepalive" where
  "decode_primary_keepalive payload =
     (if length payload \<noteq> PRIMARY_KEEPALIVE_LEN \<or> slice payload 0 1 \<noteq> blit ''k''
      then Inl (protocol_error (lit ''not a valid PrimaryKeepaliveMessage'')
                  (Some (message_type_context (lit ''PrimaryKeepalive''))))
      else rbind (byte_at payload 17) (\<lambda>reply.
           Inr \<lparr>keepalive_wal_end = int_from_bytes (slice payload 1 9),
                keepalive_send_time = int_from_bytes (slice payload 9 17),
                keepalive_reply_requested = (reply \<noteq> 0)\<rparr>))"

definition decode_replication_message :: "bytes \<Rightarrow> exn + replication_message" where
  "decode_replication_message payload =
     (if payload = []
      then Inl (protocol_error (lit ''empty replication message payload'') None)
      else let other = slice payload 0 1
           in if other = blit ''w'' then rbind (decode_xlog_data payload) (\<lambda>m. Inr (XLogData m))
              else if other = blit ''k''
              then rbind (decode_primary_keepalive payload) (\<lambda>m. Inr (PrimaryKeepalive m))
              else Inl (protocol_error
                          (lit ''unknown replication message type '' @ bytes_repr other) None))"

definition encode_standby_status_update :: "standby_status_update \<Rightarrow> exn + bytes" where
  "encode_standby_status_update update =
     rbind (int_to_bytes 8 (written_lsn update + 1)) (\<lambda>w.
     rbind (int_to_bytes 8 (flushed_lsn update + 1)) (\<lambda>f.
     rbind (int_to_bytes 8 (applied_lsn update + 1)) (\<lambda>a.
     rbind (int_to_bytes 8 (client_time update)) (\<lambda>t.
     Inr (blit ''r'' @ w @ f @ a @ t @ [if status_reply_requested update then 1 else 0])))))"

text \<open>
  \<open>pg_now_micros\<close>, given the exact microseconds since the PostgreSQL epoch that the clock's
  \<open>datetime\<close> stands for: \<open>total_seconds()\<close> rounds their quotient to a float, and the product
  with a million is rounded again before \<open>int\<close> cuts it off.
\<close>

definition pg_now_micros :: "int \<Rightarrow> int" where
  "pg_now_micros elapsed =
     (let total_seconds = fl (of_int elapsed / 1000000)
      in trunc (fmul total_seconds 1000000))"


section \<open>The server's side of the format\<close>

definition encode_xlog_data :: "xlog_data \<Rightarrow> bytes" where
  "encode_xlog_data m =
     blit ''w'' @ be_bytes 8 (wal_start m) @ be_bytes 8 (wal_end m) @ be_bytes 8 (send_time m)
     @ xlog_payload m"

definition encode_primary_keepalive :: "primary_keepalive \<Rightarrow> bytes" where
  "encode_primary_keepalive m =
     blit ''k'' @ be_bytes 8 (keepalive_wal_end m) @ be_bytes 8 (keepalive_send_time m)
     @ [if keepalive_reply_requested m then 1 else 0]"

definition decode_standby_status_update :: "bytes \<Rightarrow> standby_status_update" where
  "decode_standby_status_update bs =
     \<lparr>written_lsn = int_from_bytes (slice bs 1 9) - 1,
      flushed_lsn = int_from_bytes (slice bs 9 17) - 1,
      applied_lsn = int_from_bytes (slice bs 17 25) - 1,
      client_time = int_from_bytes (slice bs 25 33),
      status_reply_requested = (drop 33 bs \<noteq> [0])\<rparr>"

definition u64 :: "int \<Rightarrow> bool" where "u64 n = (0 \<le> n \<and> n < 256 ^ 8)"
definition u32 :: "int \<Rightarrow> bool" where "u32 n = (0 \<le> n \<and> n < 256 ^ 4)"
definition u16 :: "int \<Rightarrow> bool" where "u16 n = (0 \<le> n \<and> n < 256 ^ 2)"
definition u8 :: "int \<Rightarrow> bool" where "u8 n = (0 \<le> n \<and> n < 256)"

definition valid_xlog :: "xlog_data \<Rightarrow> bool" where
  "valid_xlog m = (u64 (wal_start m) \<and> u64 (wal_end m) \<and> u64 (send_time m))"

definition valid_keepalive :: "primary_keepalive \<Rightarrow> bool" where
  "valid_keepalive m = (u64 (keepalive_wal_end m) \<and> u64 (keepalive_send_time m))"

definition encode_replication_message :: "replication_message \<Rightarrow> bytes" where
  "encode_replication_message m =
     (case m of XLogData x \<Rightarrow> encode_xlog_data x | PrimaryKeepalive k \<Rightarrow> encode_primary_keepalive k)"

definition valid_replication_message :: "replication_message \<Rightarrow> bool" where
  "valid_replication_message m =
     (case m of XLogData x \<Rightarrow> valid_xlog x | PrimaryKeepalive k \<Rightarrow> valid_keepalive k)"

definition sendable :: "standby_status_update \<Rightarrow> bool" where
  "sendable u = (u64 (written_lsn u + 1) \<and> u64 (flushed_lsn u + 1) \<and> u64 (applied_lsn u + 1)
                 \<and> u64 (client_time u))"


section \<open>Reading fixed fields\<close>

lemma be_bytes_u64 [simp]: "u64 n \<Longrightarrow> int_from_bytes (be_bytes 8 n) = n"
  by (simp add: u64_def int_from_be_bytes_mod)

lemma be_bytes_u32 [simp]: "u32 n \<Longrightarrow> int_from_bytes (be_bytes 4 n) = n"
  by (simp add: u32_def int_from_be_bytes_mod)

lemma be_bytes_u16 [simp]: "u16 n \<Longrightarrow> int_from_bytes (be_bytes 2 n) = n"
  by (simp add: u16_def int_from_be_bytes_mod)

lemma int_to_bytes_u64: "int_to_bytes 8 n = (if u64 n then Inr (be_bytes 8 n) else Inl OverflowError)"
  by (simp add: int_to_bytes_def u64_def)

lemma slice_append_skip: "length xs = i \<Longrightarrow> slice (xs @ ys) i j = take (j - i) ys"
  by (simp add: slice_def)

lemma slice_shift: "length xs \<le> i \<Longrightarrow> slice (xs @ ys) i j = slice ys (i - length xs) (j - length xs)"
  by (simp add: slice_def)

lemma slice_take: "j \<le> length xs \<Longrightarrow> slice (xs @ ys) i j = slice xs i j"
  by (simp add: slice_def)

lemma slice_all [simp]: "length xs \<le> j \<Longrightarrow> slice xs 0 j = xs"
  by simp

lemma slice_Cons [simp]: "0 < i \<Longrightarrow> slice (x # xs) i j = slice xs (i - 1) (j - 1)"
  by (cases i) (auto simp: slice_def)

lemmas fixed_fields = slice_shift slice_take

lemma protocol_error_is [simp]: "is_protocol_error (protocol_error m c)"
  by (simp add: protocol_error_def)

lemma decode_encode_xlog: "valid_xlog m \<Longrightarrow> decode_xlog_data (encode_xlog_data m) = Inr m"
  by (simp add: decode_xlog_data_def encode_xlog_data_def XLOG_DATA_HEADER_LEN_def valid_xlog_def
      fixed_fields)

lemma decode_encode_keepalive:
  "valid_keepalive m \<Longrightarrow> decode_primary_keepalive (encode_primary_keepalive m) = Inr m"
  by (simp add: decode_primary_keepalive_def encode_primary_keepalive_def PRIMARY_KEEPALIVE_LEN_def
      valid_keepalive_def fixed_fields byte_at_def nth_append)

interpretation xlog_codec: codec encode_xlog_data decode_xlog_data valid_xlog
  by unfold_locales (rule decode_encode_xlog)

interpretation keepalive_codec: codec encode_primary_keepalive decode_primary_keepalive valid_keepalive
  by unfold_locales (rule decode_encode_keepalive)

lemma starts_with: "slice payload 0 1 = [b] \<longleftrightarrow> (\<exists>rest. payload = b # rest)"
  by (cases payload) auto

interpretation replication_codec:
  codec encode_replication_message decode_replication_message valid_replication_message
proof
  fix m
  assume "valid_replication_message m"
  then show "decode_replication_message (encode_replication_message m) = Inr m"
    using decode_encode_xlog decode_encode_keepalive
    by (cases m)
      (auto simp: valid_replication_message_def encode_replication_message_def
        decode_replication_message_def encode_xlog_data_def encode_primary_keepalive_def)
qed


section \<open>What the decoder accepts\<close>

definition xlog_shape :: "bytes \<Rightarrow> bool" where
  "xlog_shape p = (slice p 0 1 = blit ''w'' \<and> 25 \<le> length p)"

definition keepalive_shape :: "bytes \<Rightarrow> bool" where
  "keepalive_shape p = (slice p 0 1 = blit ''k'' \<and> length p = 18)"

lemma be_bytes_slice: "i + k \<le> length p \<Longrightarrow> be_bytes k (int_from_bytes (slice p i (i + k))) = slice p i (i + k)"
  using be_bytes_int_from_bytes [of "slice p i (i + k)"] by (simp add: slice_def)

lemma u64_slice [simp]: "u64 (int_from_bytes (slice p i (i + 8)))"
proof -
  let ?n = "int_from_bytes (slice p i (i + 8))"
  have "?n < 256 ^ length (slice p i (i + 8))" by (simp add: int_from_bytes_bounds)
  also have "(256 :: int) ^ length (slice p i (i + 8)) \<le> 256 ^ 8"
    using length_slice [of p i "i + 8"] by (intro power_increasing) auto
  finally show ?thesis by (simp add: u64_def)
qed

lemmas u64_fields [simp] =
  u64_slice [of _ 1, simplified] u64_slice [of _ 9, simplified] u64_slice [of _ 17, simplified]

lemma slices_join: "i \<le> j \<Longrightarrow> j \<le> k \<Longrightarrow> slice p i j @ slice p j k = slice p i k"
proof -
  assume "i \<le> j" "j \<le> k"
  then obtain a b where "j = i + a" "k = i + a + b"
    by (metis add.assoc le_Suc_ex)
  then show ?thesis by (simp add: slice_def take_add add.commute)
qed

lemma decode_xlog_inv:
  assumes "decode_xlog_data p = Inr m"
  shows "xlog_shape p \<and> valid_xlog m \<and> encode_xlog_data m = p"
proof -
  have len: "25 \<le> length p" and w: "slice p 0 1 = blit ''w''"
    and m: "m = \<lparr>wal_start = int_from_bytes (slice p 1 9), wal_end = int_from_bytes (slice p 9 17),
      send_time = int_from_bytes (slice p 17 25), xlog_payload = drop 25 p\<rparr>"
    using assms by (auto simp: decode_xlog_data_def XLOG_DATA_HEADER_LEN_def split: if_splits)
  have "blit ''w'' @ slice p 1 9 @ slice p 9 17 @ slice p 17 25 @ drop 25 p = p"
    using slices_join [of 9 17 25 p] slices_join [of 1 9 25 p] slices_join [of 0 1 25 p] w
    by (simp del: slice_from_start append_assoc add: append_assoc [symmetric])
      (simp add: slice_def)
  then have "encode_xlog_data m = p"
    using be_bytes_slice [of 1 8 p] be_bytes_slice [of 9 8 p] be_bytes_slice [of 17 8 p] len m
    by (simp add: encode_xlog_data_def)
  then show ?thesis using len w m by (simp add: xlog_shape_def valid_xlog_def)
qed

lemma decode_keepalive_inv:
  assumes "decode_primary_keepalive p = Inr m"
  shows "keepalive_shape p \<and> valid_keepalive m"
  using assms
  by (auto simp: decode_primary_keepalive_def PRIMARY_KEEPALIVE_LEN_def keepalive_shape_def
      valid_keepalive_def rbind_eq_Inr split: if_splits)

lemma decode_accepts:
  "xlog_shape p \<Longrightarrow> \<exists>x. decode_replication_message p = Inr (XLogData x)"
  "keepalive_shape p \<Longrightarrow> \<exists>k. decode_replication_message p = Inr (PrimaryKeepalive k)"
  by (auto simp: decode_replication_message_def xlog_shape_def keepalive_shape_def decode_xlog_data_def
      XLOG_DATA_HEADER_LEN_def decode_primary_keepalive_def PRIMARY_KEEPALIVE_LEN_def byte_at_def)

lemma decode_replication_error:
  "decode_replication_message p = Inl e \<Longrightarrow> is_protocol_error e \<and> \<not> xlog_shape p \<and> \<not> keepalive_shape p"
  using decode_accepts [of p]
  by (auto simp: decode_replication_message_def decode_xlog_data_def decode_primary_keepalive_def
      PRIMARY_KEEPALIVE_LEN_def byte_at_def Let_def split: if_splits)

lemma decode_status_encode:
  assumes "sendable u"
  shows "\<exists>bs. encode_standby_status_update u = Inr bs \<and> length bs = 34
            \<and> decode_standby_status_update bs = u"
  using assms
  by (simp add: sendable_def encode_standby_status_update_def int_to_bytes_u64
      decode_standby_status_update_def fixed_fields)

lemma encode_status_overflow:
  "\<not> sendable u \<Longrightarrow> encode_standby_status_update u = Inl OverflowError"
  by (auto simp: sendable_def encode_standby_status_update_def int_to_bytes_u64)


section \<open>The clock\<close>

lemma pg_now_micros_near:
  assumes "0 \<le> elapsed" and "elapsed < 2 ^ 52"
  shows "pg_now_micros elapsed \<in> {elapsed - 1, elapsed} \<and> u64 (pg_now_micros elapsed)"
proof -
  define s :: rat where "s = of_int elapsed / 1000000"
  define t where "t = fl s * 1000000"
  have e: "0 \<le> (of_int elapsed :: rat)" "(of_int elapsed :: rat) < 4503599627370496"
    using assms by simp_all
  then have "\<bar>s\<bar> < 2 powi (- 20 + 53)" by (simp add: powi_values s_def)
  from fl_near [OF this] have "\<bar>fl s - s\<bar> \<le> 1 / 2097152" by (simp add: powi_values)
  then have t: "\<bar>t - of_int elapsed\<bar> \<le> 1000000 / 2097152"
    by (simp add: t_def s_def abs_le_iff field_simps)
  then have "\<bar>t\<bar> < 2 powi (0 + 53)"
    using e by (simp only: powi_values abs_le_iff abs_less_iff) linarith
  from fl_near [OF this] have near: "\<bar>fl t - of_int elapsed\<bar> < 1"
    using t by (simp only: powi_values abs_le_iff abs_less_iff) linarith
  have r: "pg_now_micros elapsed = trunc (fl t)"
    by (simp add: pg_now_micros_def fmul_def t_def s_def Let_def)
  have "elapsed = 0 \<or> 1 \<le> elapsed" using assms by linarith
  then show ?thesis
  proof
    assume "elapsed = 0"
    then show ?thesis by (simp add: pg_now_micros_def fmul_def trunc_def u64_def)
  next
    assume "1 \<le> elapsed"
    with near have "0 < fl t" by (simp only: abs_less_iff) linarith
    with near have "trunc (fl t) \<in> {elapsed - 1, elapsed}"
      by (simp add: trunc_def abs_less_iff) linarith
    then show ?thesis using r assms \<open>1 \<le> elapsed\<close> by (auto simp: u64_def)
  qed
qed

lemma pg_now_micros_exact:
  assumes "2 ^ 49 < elapsed" and "elapsed < 2 ^ 30 * 1000000"
  shows "pg_now_micros elapsed = elapsed"
proof -
  define s :: rat where "s = of_int elapsed / 1000000"
  define t where "t = fl s * 1000000"
  have "(of_int (562949953421312 + 1) :: rat) \<le> of_int elapsed"
    using assms by (simp only: of_int_le_iff) simp
  then have e: "562949953421313 \<le> (of_int elapsed :: rat)" "(of_int elapsed :: rat) < 1073741824000000"
    using assms by simp_all
  then have "\<bar>s\<bar> < 2 powi (- 23 + 53)" by (simp add: powi_values s_def)
  from fl_near [OF this] have "\<bar>fl s - s\<bar> \<le> 1 / 16777216" by (simp add: powi_values)
  then have t: "\<bar>t - of_int elapsed\<bar> \<le> 1000000 / 16777216"
    by (simp add: t_def s_def abs_le_iff field_simps)
  have "fl t = of_int (8 * elapsed) * 2 powi - 3"
  proof (rule fl_absorbs)
    show "2 powi (- 3 + 52) \<le> t" "t < 2 powi (- 3 + 53)"
      using t e by (simp_all only: powi_values abs_le_iff) linarith+
    show "\<bar>t - of_int (8 * elapsed) * 2 powi - 3\<bar> < 2 powi - 3 / 2"
      using t by (simp add: powi_values abs_less_iff abs_le_iff)
  qed
  then have "fl t = of_int elapsed" by (simp add: powi_values)
  then show ?thesis using assms by (simp add: pg_now_micros_def fmul_def t_def s_def Let_def trunc_def)
qed


section \<open>Properties\<close>

text \<open>The decoder decides by shape alone.\<close>

lemma decode_replication_message_total:
  "case decode_replication_message p of
     Inr (XLogData x) \<Rightarrow> xlog_shape p \<and> valid_xlog x \<and> encode_xlog_data x = p
   | Inr (PrimaryKeepalive k) \<Rightarrow> keepalive_shape p \<and> valid_keepalive k
   | Inl e \<Rightarrow> is_protocol_error e \<and> \<not> xlog_shape p \<and> \<not> keepalive_shape p"
proof (cases "decode_replication_message p")
  case (Inl e)
  then show ?thesis using decode_replication_error by simp
next
  case (Inr m)
  then have "case m of XLogData x \<Rightarrow> decode_xlog_data p = Inr x
                     | PrimaryKeepalive k \<Rightarrow> decode_primary_keepalive p = Inr k"
    by (auto simp: decode_replication_message_def rbind_eq_Inr Let_def split: if_splits)
  then show ?thesis
    using Inr decode_xlog_inv decode_keepalive_inv by (cases m) auto
qed

text \<open>C30: the two replication messages. Every \<open>XLogData\<close> or keepalive the server can send, encoded in
  the documented wire format, is decoded to exactly the message that was sent, and two different
  messages never share an encoding. On arbitrary bytes \<open>decode_replication_message\<close> is total: a payload
  that starts with \<open>w\<close> and has its 25-byte header decodes to an \<open>XLogData\<close> whose encoding is the
  payload again (no byte is lost or invented); one that starts with \<open>k\<close> and has exactly 18 bytes decodes
  to a keepalive; every other payload, the empty one included, raises \<open>ProtocolError\<close> and nothing
  else.\<close>

theorem replication_message_roundtrip:
  assumes "valid_replication_message m"
  shows "decode_replication_message (encode_replication_message m) = Inr m
       \<and> (\<forall>n. valid_replication_message n \<and> encode_replication_message n = encode_replication_message m
              \<longrightarrow> n = m)
       \<and> (case decode_replication_message p of
            Inr (XLogData x) \<Rightarrow> xlog_shape p \<and> valid_xlog x \<and> encode_xlog_data x = p
          | Inr (PrimaryKeepalive k) \<Rightarrow> keepalive_shape p \<and> valid_keepalive k
          | Inl e \<Rightarrow> is_protocol_error e \<and> \<not> xlog_shape p \<and> \<not> keepalive_shape p)"
  using assms replication_codec.dec_enc replication_codec.enc_inj decode_replication_message_total [of p] by blast

theorem replication_message_roundtrip_witness:
  "decode_replication_message (encode_replication_message
     (XLogData \<lparr>wal_start = 100, wal_end = 200, send_time = 7, xlog_payload = [66, 1]\<rparr>))
   = Inr (XLogData \<lparr>wal_start = 100, wal_end = 200, send_time = 7, xlog_payload = [66, 1]\<rparr>)"
  using replication_message_roundtrip
    [of "XLogData \<lparr>wal_start = 100, wal_end = 200, send_time = 7, xlog_payload = [66, 1]\<rparr>"]
  by (simp add: valid_replication_message_def valid_xlog_def u64_def)


text \<open>A reading in March 2034 that loses a microsecond: the two roundings fall short and \<open>int\<close>
  cuts off.\<close>

lemma pg_now_micros_loses_one: "pg_now_micros 1080000000000002 = 1080000000000001"
  by code_simp

text \<open>C33: for every clock reading from 2000 to 2142 the timestamp sent to the server is the exact
  number of microseconds or one less, and fits its 64-bit field; from November 2017 to January 2034 it
  is exact; and there are readings, one in March 2034, for which it is one less.\<close>

theorem pg_now_micros_close:
  assumes "0 \<le> elapsed" and "elapsed < 2 ^ 52"
  shows "pg_now_micros elapsed \<in> {elapsed - 1, elapsed} \<and> u64 (pg_now_micros elapsed)
       \<and> (2 ^ 49 < elapsed \<and> elapsed < 2 ^ 30 * 1000000 \<longrightarrow> pg_now_micros elapsed = elapsed)
       \<and> pg_now_micros 1080000000000002 = 1080000000000001"
  using pg_now_micros_near [OF assms] pg_now_micros_exact pg_now_micros_loses_one by blast

theorem pg_now_micros_close_witness: "pg_now_micros 840000000000007 = 840000000000007"
  using pg_now_micros_close [of 840000000000007] by simp

end
