(* ===== verification/Pgoutput.thy ===== *)
theory Pgoutput
  imports Protocol
begin

unbundle bit_operations_syntax

text \<open>
  \<open>walbox/pgoutput.py\<close>: the messages of the inner sub-protocol, the relation cache, one
  decoder per message kind, and the stateful \<open>Decoder\<close>. Offsets and read order are the
  source's; a short buffer gives what Python gives (a short slice, \<open>IndexError\<close>,
  \<open>ValueError\<close> or \<open>UnicodeDecodeError\<close>), not an idealised error. Log calls are left out.
\<close>

section \<open>Messages\<close>

type_synonym row = "(pystr, pystr option) dict"

record column =
  col_name :: pystr
  col_type_oid :: int
  col_type_modifier :: int
  col_is_key :: bool

record relation =
  rel_id :: int
  rel_namespace :: pystr
  rel_name :: pystr
  rel_replica_identity :: pystr
  rel_columns :: "column list"

definition qualified_name :: "relation \<Rightarrow> pystr" where
  "qualified_name r = rel_namespace r @ lit ''.'' @ rel_name r"

record begin_msg =
  begin_final_lsn :: int
  begin_commit_time :: int
  begin_xid :: int

record insert_msg =
  ins_relation_id :: int
  ins_table :: pystr
  ins_new :: row
  ins_subxid :: "int option"

record update_msg =
  upd_relation_id :: int
  upd_table :: pystr
  upd_old :: "row option"
  upd_new :: row
  upd_subxid :: "int option"

record delete_msg =
  del_relation_id :: int
  del_table :: pystr
  del_old :: row
  del_subxid :: "int option"

record commit_msg =
  commit_flags :: int
  commit_commit_lsn :: int
  commit_end_lsn :: int
  commit_commit_time :: int

record truncate_msg =
  trunc_tables :: "pystr list"
  trunc_cascade :: bool
  trunc_restart_identity :: bool
  trunc_subxid :: "int option"

record type_msg =
  type_type_oid :: int
  type_namespace :: pystr
  type_name :: pystr

record origin_msg =
  origin_lsn :: int
  origin_name :: pystr

record logical_msg =
  msg_transactional :: bool
  msg_lsn :: int
  msg_prefix :: pystr
  msg_content :: bytes

record stream_start_msg =
  start_xid :: int
  start_first_segment :: bool

record stream_commit_msg =
  scommit_xid :: int
  scommit_commit_lsn :: int
  scommit_end_lsn :: int
  scommit_commit_time :: int

record stream_abort_msg =
  abort_xid :: int
  abort_subxid :: int

datatype pgoutput_message =
    Relation relation
  | Begin begin_msg
  | Insert insert_msg
  | Update update_msg
  | Delete delete_msg
  | Commit commit_msg
  | Truncate truncate_msg
  | Type type_msg
  | Origin origin_msg
  | Message logical_msg
  | StreamStart stream_start_msg
  | StreamStop
  | StreamCommit stream_commit_msg
  | StreamAbort stream_abort_msg


section \<open>The relation cache\<close>

type_synonym relation_cache = "(int, relation) dict"

definition relation_cache_init :: relation_cache where
  "relation_cache_init = []"

definition relation_cache_add :: "relation \<Rightarrow> relation_cache \<Rightarrow> relation_cache" where
  "relation_cache_add r cache = AList.update (rel_id r) r cache"

definition relation_cache_get :: "relation_cache \<Rightarrow> int \<Rightarrow> exn + relation" where
  "relation_cache_get cache relation_id =
     of_option
       (decode_error_text
          (lit ''no Relation message seen yet for relation '' @ str_int relation_id) (lit ''Insert''))
       (map_of cache relation_id)"


section \<open>Field readers\<close>

definition read_cstring :: "bytes \<Rightarrow> nat \<Rightarrow> exn + (pystr \<times> nat)" where
  "read_cstring buf offset =
     rbind (bytes_index buf 0 offset) (\<lambda>end.
     rbind (bytes_decode (slice buf offset end)) (\<lambda>s.
     Inr (s, end + 1)))"

definition int32_at :: "bytes \<Rightarrow> nat \<Rightarrow> int" where
  "int32_at buf offset = int_from_bytes (slice buf offset (offset + 4))"

definition int16_at :: "bytes \<Rightarrow> nat \<Rightarrow> int" where
  "int16_at buf offset = int_from_bytes (slice buf offset (offset + 2))"

definition int64_at :: "bytes \<Rightarrow> nat \<Rightarrow> int" where
  "int64_at buf offset = int_from_bytes (slice buf offset (offset + 8))"

text \<open>The optional leading \<open>Int32 xid\<close> of a message inside a streaming bracket.\<close>

definition leading_subxid :: "bool \<Rightarrow> bytes \<Rightarrow> int option" where
  "leading_subxid streaming payload = (if streaming then Some (int32_at payload 1) else None)"

definition body_offset :: "bool \<Rightarrow> nat" where
  "body_offset streaming = (if streaming then 5 else 1)"


section \<open>Relation, Begin, Commit\<close>

primrec decode_columns :: "nat \<Rightarrow> bytes \<Rightarrow> nat \<Rightarrow> exn + column list" where
  "decode_columns 0 payload offset = Inr []"
| "decode_columns (Suc n) payload offset =
     rbind (byte_at payload offset) (\<lambda>flags.
     rbind (read_cstring payload (offset + 1)) (\<lambda>(name, offset).
     rbind (decode_columns n payload (offset + 8)) (\<lambda>columns.
     Inr (\<lparr>col_name = name,
           col_type_oid = int32_at payload offset,
           col_type_modifier = int_from_bytes_signed (slice payload (offset + 4) (offset + 8)),
           col_is_key = (flags AND 1 \<noteq> 0)\<rparr> # columns))))"

definition decode_relation :: "bool \<Rightarrow> bytes \<Rightarrow> exn + relation" where
  "decode_relation streaming payload =
     (if slice payload 0 1 \<noteq> blit ''R''
      then Inl (decode_error ''not a valid Relation message'' ''Relation'')
      else let offset = body_offset streaming; relation_id = int32_at payload offset in
        rbind (read_cstring payload (offset + 4)) (\<lambda>(namespace, offset).
        rbind (read_cstring payload offset) (\<lambda>(name, offset).
        rbind (byte_at payload offset) (\<lambda>identity.
        let n_columns = nat (int16_at payload (offset + 1)) in
        rbind (decode_columns n_columns payload (offset + 3)) (\<lambda>columns.
        Inr \<lparr>rel_id = relation_id, rel_namespace = namespace, rel_name = name,
             rel_replica_identity = [unat identity], rel_columns = columns\<rparr>)))))"

definition decode_begin :: "bytes \<Rightarrow> exn + begin_msg" where
  "decode_begin payload =
     (if length payload \<noteq> 21 \<or> slice payload 0 1 \<noteq> blit ''B''
      then Inl (decode_error ''not a valid Begin message'' ''Begin'')
      else Inr \<lparr>begin_final_lsn = int64_at payload 1,
                begin_commit_time = int64_at payload 9,
                begin_xid = int32_at payload 17\<rparr>)"

definition decode_commit :: "bytes \<Rightarrow> exn + commit_msg" where
  "decode_commit payload =
     (if length payload \<noteq> 26 \<or> slice payload 0 1 \<noteq> blit ''C''
      then Inl (decode_error ''not a valid Commit message'' ''Commit'')
      else rbind (byte_at payload 1) (\<lambda>flags.
           Inr \<lparr>commit_flags = uint flags,
                commit_commit_lsn = int64_at payload 2,
                commit_end_lsn = int64_at payload 10,
                commit_commit_time = int64_at payload 18\<rparr>))"


section \<open>Tuple data\<close>

fun decode_tuple_columns :: "column list \<Rightarrow> bytes \<Rightarrow> nat \<Rightarrow> row \<Rightarrow> exn + (row \<times> nat)" where
  "decode_tuple_columns [] buf offset row = Inr (row, offset)"
| "decode_tuple_columns (column # columns) buf offset row =
     (let marker = slice buf offset (offset + 1); offset = offset + 1 in
      if marker = blit ''n''
      then decode_tuple_columns columns buf offset (AList.update (col_name column) None row)
      else if marker = blit ''u'' then decode_tuple_columns columns buf offset row
      else if marker = blit ''t''
      then let len = nat (int32_at buf offset); offset = offset + 4 in
           rbind (bytes_decode (slice buf offset (offset + len))) (\<lambda>text.
           decode_tuple_columns columns buf (offset + len)
             (AList.update (col_name column) (Some text) row))
      else Inl (decode_error_text
                  (lit ''unknown TupleData column marker '' @ bytes_repr marker) (lit ''Insert'')))"

definition decode_tuple_data :: "bytes \<Rightarrow> nat \<Rightarrow> column list \<Rightarrow> exn + (row \<times> nat)" where
  "decode_tuple_data buf offset columns =
     (let n_columns = int16_at buf offset in
      if n_columns \<noteq> int (length columns)
      then Inl (decode_error_text
             (lit ''TupleData has '' @ str_int n_columns
              @ lit '' columns but the cached relation has '' @ str_int (int (length columns)))
             (lit ''Insert''))
      else decode_tuple_columns columns buf (offset + 2) [])"

fun restrict_loop :: "row \<Rightarrow> column list \<Rightarrow> row \<Rightarrow> exn + row" where
  "restrict_loop row [] acc = Inr acc"
| "restrict_loop row (column # columns) acc =
     (if col_is_key column
      then case map_of row (col_name column) of
             None \<Rightarrow> Inl KeyError
           | Some v \<Rightarrow> restrict_loop row columns (AList.update (col_name column) v acc)
      else restrict_loop row columns acc)"

definition restrict_to_key_columns :: "row \<Rightarrow> column list \<Rightarrow> exn + row" where
  "restrict_to_key_columns row columns = restrict_loop row columns []"


section \<open>Row changes\<close>

text \<open>The message ends in a quote, which a string literal cannot.\<close>

definition missing_new_marker :: "string \<Rightarrow> exn" where
  "missing_new_marker kind =
     decode_error (kind @ '' is missing the new-tuple marker 'N'' @ [CHR 0x27]) kind"

definition decode_insert :: "relation_cache \<Rightarrow> bool \<Rightarrow> bytes \<Rightarrow> exn + insert_msg" where
  "decode_insert relations streaming payload =
     (if slice payload 0 1 \<noteq> blit ''I''
      then Inl (decode_error ''not a valid Insert message'' ''Insert'')
      else let subxid = leading_subxid streaming payload;
               offset = body_offset streaming;
               relation_id = int32_at payload offset;
               offset = offset + 4
           in if slice payload offset (offset + 1) \<noteq> blit ''N''
              then Inl (missing_new_marker ''Insert'')
              else rbind (relation_cache_get relations relation_id) (\<lambda>relation.
                   rbind (decode_tuple_data payload (offset + 1) (rel_columns relation)) (\<lambda>(new, _).
                   Inr \<lparr>ins_relation_id = relation_id, ins_table = qualified_name relation,
                        ins_new = new, ins_subxid = subxid\<rparr>)))"

definition decode_update :: "relation_cache \<Rightarrow> bool \<Rightarrow> bytes \<Rightarrow> exn + update_msg" where
  "decode_update relations streaming payload =
     (if slice payload 0 1 \<noteq> blit ''U''
      then Inl (decode_error ''not a valid Update message'' ''Update'')
      else let subxid = leading_subxid streaming payload;
               offset = body_offset streaming;
               relation_id = int32_at payload offset;
               offset = offset + 4
           in rbind (relation_cache_get relations relation_id) (\<lambda>relation.
              let marker = slice payload offset (offset + 1) in
              rbind (if marker = blit ''K'' \<or> marker = blit ''O''
                     then rbind (decode_tuple_data payload (offset + 1) (rel_columns relation)) (\<lambda>(old, offset).
                          if marker = blit ''K''
                          then rbind (restrict_to_key_columns old (rel_columns relation)) (\<lambda>old.
                               Inr (Some old, offset))
                          else Inr (Some old, offset))
                     else Inr (None, offset)) (\<lambda>(old, offset).
              if slice payload offset (offset + 1) \<noteq> blit ''N''
              then Inl (missing_new_marker ''Update'')
              else rbind (decode_tuple_data payload (offset + 1) (rel_columns relation)) (\<lambda>(new, _).
                   Inr \<lparr>upd_relation_id = relation_id, upd_table = qualified_name relation,
                        upd_old = old, upd_new = new, upd_subxid = subxid\<rparr>))))"

definition decode_delete :: "relation_cache \<Rightarrow> bool \<Rightarrow> bytes \<Rightarrow> exn + delete_msg" where
  "decode_delete relations streaming payload =
     (if slice payload 0 1 \<noteq> blit ''D''
      then Inl (decode_error ''not a valid Delete message'' ''Delete'')
      else let subxid = leading_subxid streaming payload;
               offset = body_offset streaming;
               relation_id = int32_at payload offset;
               offset = offset + 4
           in rbind (relation_cache_get relations relation_id) (\<lambda>relation.
              let marker = slice payload offset (offset + 1); offset = offset + 1 in
              if marker \<noteq> blit ''K'' \<and> marker \<noteq> blit ''O''
              then Inl (decode_error_text
                     (lit ''Delete is missing a key/old-row marker, got '' @ bytes_repr marker)
                     (lit ''Delete''))
              else rbind (decode_tuple_data payload offset (rel_columns relation)) (\<lambda>(old, _).
                   rbind (if marker = blit ''K''
                          then restrict_to_key_columns old (rel_columns relation)
                          else Inr old) (\<lambda>old.
                   Inr \<lparr>del_relation_id = relation_id, del_table = qualified_name relation,
                        del_old = old, del_subxid = subxid\<rparr>))))"

primrec decode_truncate_tables ::
    "nat \<Rightarrow> relation_cache \<Rightarrow> bytes \<Rightarrow> nat \<Rightarrow> exn + pystr list" where
  "decode_truncate_tables 0 relations payload offset = Inr []"
| "decode_truncate_tables (Suc n) relations payload offset =
     rbind (relation_cache_get relations (int32_at payload offset)) (\<lambda>relation.
     rbind (decode_truncate_tables n relations payload (offset + 4)) (\<lambda>tables.
     Inr (qualified_name relation # tables)))"

definition decode_truncate :: "relation_cache \<Rightarrow> bool \<Rightarrow> bytes \<Rightarrow> exn + truncate_msg" where
  "decode_truncate relations streaming payload =
     (if slice payload 0 1 \<noteq> blit ''T''
      then Inl (decode_error ''not a valid Truncate message'' ''Truncate'')
      else let subxid = leading_subxid streaming payload;
               offset = body_offset streaming;
               n_relations = nat (int32_at payload offset);
               offset = offset + 4
           in rbind (byte_at payload offset) (\<lambda>flags.
              rbind (decode_truncate_tables n_relations relations payload (offset + 1)) (\<lambda>tables.
              Inr \<lparr>trunc_tables = tables, trunc_cascade = (flags AND 1 \<noteq> 0),
                   trunc_restart_identity = (flags AND 2 \<noteq> 0), trunc_subxid = subxid\<rparr>)))"


section \<open>Messages that are decoded and dropped\<close>

definition decode_type :: "bool \<Rightarrow> bytes \<Rightarrow> exn + type_msg" where
  "decode_type streaming payload =
     (if slice payload 0 1 \<noteq> blit ''Y''
      then Inl (decode_error ''not a valid Type message'' ''Type'')
      else let offset = body_offset streaming in
        rbind (read_cstring payload (offset + 4)) (\<lambda>(namespace, next).
        rbind (read_cstring payload next) (\<lambda>(name, _).
        Inr \<lparr>type_type_oid = int32_at payload offset, type_namespace = namespace,
             type_name = name\<rparr>)))"

definition decode_origin :: "bytes \<Rightarrow> exn + origin_msg" where
  "decode_origin payload =
     (if slice payload 0 1 \<noteq> blit ''O''
      then Inl (decode_error ''not a valid Origin message'' ''Origin'')
      else rbind (read_cstring payload 9) (\<lambda>(name, _).
           Inr \<lparr>origin_lsn = int64_at payload 1, origin_name = name\<rparr>))"

definition decode_message :: "bool \<Rightarrow> bytes \<Rightarrow> exn + logical_msg" where
  "decode_message streaming payload =
     (if slice payload 0 1 \<noteq> blit ''M''
      then Inl (decode_error ''not a valid Message message'' ''Message'')
      else let offset = body_offset streaming in
        rbind (byte_at payload offset) (\<lambda>transactional.
        rbind (read_cstring payload (offset + 9)) (\<lambda>(prefix, next).
        let len = nat (int32_at payload next) in
        Inr \<lparr>msg_transactional = (transactional \<noteq> 0),
             msg_lsn = int64_at payload (offset + 1),
             msg_prefix = prefix,
             msg_content = slice payload (next + 4) (next + 4 + len)\<rparr>)))"


section \<open>Streaming\<close>

definition decode_stream_start :: "bytes \<Rightarrow> exn + stream_start_msg" where
  "decode_stream_start payload =
     (if length payload \<noteq> 6 \<or> slice payload 0 1 \<noteq> blit ''S''
      then Inl (decode_error ''not a valid StreamStart message'' ''StreamStart'')
      else rbind (byte_at payload 5) (\<lambda>first.
           Inr \<lparr>start_xid = int32_at payload 1, start_first_segment = (first \<noteq> 0)\<rparr>))"

definition decode_stream_stop :: "bytes \<Rightarrow> exn + unit" where
  "decode_stream_stop payload =
     (if length payload \<noteq> 1 \<or> slice payload 0 1 \<noteq> blit ''E''
      then Inl (decode_error ''not a valid StreamStop message'' ''StreamStop'')
      else Inr ())"

definition decode_stream_commit :: "bytes \<Rightarrow> exn + stream_commit_msg" where
  "decode_stream_commit payload =
     (if length payload \<noteq> 30 \<or> slice payload 0 1 \<noteq> blit ''c''
      then Inl (decode_error ''not a valid StreamCommit message'' ''StreamCommit'')
      else Inr \<lparr>scommit_xid = int32_at payload 1,
                scommit_commit_lsn = int64_at payload 6,
                scommit_end_lsn = int64_at payload 14,
                scommit_commit_time = int64_at payload 22\<rparr>)"

definition decode_stream_abort :: "bytes \<Rightarrow> exn + stream_abort_msg" where
  "decode_stream_abort payload =
     (if length payload \<noteq> 9 \<or> slice payload 0 1 \<noteq> blit ''A''
      then Inl (decode_error ''not a valid StreamAbort message'' ''StreamAbort'')
      else Inr \<lparr>abort_xid = int32_at payload 1, abort_subxid = int32_at payload 5\<rparr>)"


section \<open>Dispatch\<close>

definition rmap :: "('a \<Rightarrow> 'b) \<Rightarrow> 'e + 'a \<Rightarrow> 'e + 'b" where
  "rmap f m = rbind m (\<lambda>x. Inr (f x))"

definition STATELESS_DECODERS :: "(bytes, bytes \<Rightarrow> exn + pgoutput_message) dict" where
  "STATELESS_DECODERS =
     [(blit ''B'', \<lambda>p. rmap Begin (decode_begin p)),
      (blit ''C'', \<lambda>p. rmap Commit (decode_commit p)),
      (blit ''c'', \<lambda>p. rmap StreamCommit (decode_stream_commit p)),
      (blit ''A'', \<lambda>p. rmap StreamAbort (decode_stream_abort p)),
      (blit ''O'', \<lambda>p. rmap Origin (decode_origin p))]"

definition STREAMING_AWARE_DECODERS :: "(bytes, bool \<Rightarrow> bytes \<Rightarrow> exn + pgoutput_message) dict" where
  "STREAMING_AWARE_DECODERS =
     [(blit ''Y'', \<lambda>s p. rmap Type (decode_type s p)),
      (blit ''M'', \<lambda>s p. rmap Message (decode_message s p))]"

definition STREAMING_AWARE_RELATION_DECODERS ::
    "(bytes, relation_cache \<Rightarrow> bool \<Rightarrow> bytes \<Rightarrow> exn + pgoutput_message) dict" where
  "STREAMING_AWARE_RELATION_DECODERS =
     [(blit ''I'', \<lambda>r s p. rmap Insert (decode_insert r s p)),
      (blit ''U'', \<lambda>r s p. rmap Update (decode_update r s p)),
      (blit ''D'', \<lambda>r s p. rmap Delete (decode_delete r s p)),
      (blit ''T'', \<lambda>r s p. rmap Truncate (decode_truncate r s p))]"

record decoder =
  dec_relations :: relation_cache
  dec_streaming_active :: bool

definition decoder_init :: decoder where
  "decoder_init = \<lparr>dec_relations = relation_cache_init, dec_streaming_active = False\<rparr>"

definition decode :: "bytes \<Rightarrow> (decoder, exn, pgoutput_message) action" where
  "decode payload d =
     (let kind = slice payload 0 1 in
      if kind = blit ''S''
      then (case decode_stream_start payload of
              Inl e \<Rightarrow> (Inl e, d)
            | Inr m \<Rightarrow> (Inr (StreamStart m), d\<lparr>dec_streaming_active := True\<rparr>))
      else if kind = blit ''E''
      then (rmap (\<lambda>_. StreamStop) (decode_stream_stop payload), d\<lparr>dec_streaming_active := False\<rparr>)
      else if kind = blit ''R''
      then (case decode_relation (dec_streaming_active d) payload of
              Inl e \<Rightarrow> (Inl e, d)
            | Inr r \<Rightarrow> (Inr (Relation r), d\<lparr>dec_relations := relation_cache_add r (dec_relations d)\<rparr>))
      else case map_of STREAMING_AWARE_DECODERS kind of
        Some f \<Rightarrow> (f (dec_streaming_active d) payload, d)
      | None \<Rightarrow>
          (case map_of STREAMING_AWARE_RELATION_DECODERS kind of
             Some f \<Rightarrow> (f (dec_relations d) (dec_streaming_active d) payload, d)
           | None \<Rightarrow>
               (case map_of STATELESS_DECODERS kind of
                  Some f \<Rightarrow> (f payload, d)
                | None \<Rightarrow>
                    (Inl (decode_error_text
                       (lit ''unsupported pgoutput message type '' @ bytes_repr kind)
                       (decode_replace_byte kind)), d))))"

end
