(* ===== verification/Abc.thy ===== *)
theory Abc
  imports Pgoutput Py_Float
begin

text \<open>
  \<open>walbox/abc.py\<close>: the data the rest of the program passes around (\<open>ChangeEvent\<close>,
  \<open>Transaction\<close>, \<open>Metrics\<close>), the validated \<open>WalboxOptions\<close>, and the
  \<open>CheckpointHandle\<close> a handler saves its progress through. The \<open>CheckpointStore\<close>
  protocol of the file is an interface: it is the locale of the theory \<open>Checkpoint\<close>, and an
  argument here.
\<close>

section \<open>Changes and transactions\<close>

datatype change_kind = INSERT | UPDATE | DELETE | TRUNCATE

record change_event =
  chg_kind :: change_kind
  chg_table :: pystr
  chg_new :: "row option"
  chg_old :: "row option"

record transaction =
  tx_xid :: int
  tx_commit_lsn :: int
  tx_commit_time :: int
  tx_changes :: "change_event list"

record metrics =
  m_consumer_name :: pystr
  m_receive_lsn :: int
  m_checkpoint_lsn :: int
  m_replication_lag_bytes :: int
  m_transactions_processed :: int
  m_changes_processed :: int
  m_reconnect_count :: int
  m_last_handler_latency_seconds :: pyfloat
  m_queue_depth :: int
  m_last_keepalive_at :: pyfloat
  m_last_checkpoint_latency_seconds :: pyfloat
  m_transactions_since_checkpoint :: int


section \<open>Options\<close>

text \<open>A metrics callback returns nothing or raises.\<close>

record walbox_options =
  opt_consumer_name :: pystr
  opt_dsn :: pystr
  opt_slot_name :: pystr
  opt_publication_name :: pystr
  opt_max_pending_transactions :: int
  opt_status_interval :: int
  opt_on_metrics :: "(metrics \<Rightarrow> exn option) option"

definition default_options :: "pystr \<Rightarrow> pystr \<Rightarrow> pystr \<Rightarrow> pystr \<Rightarrow> walbox_options" where
  "default_options consumer_name dsn slot_name publication_name =
     \<lparr>opt_consumer_name = consumer_name, opt_dsn = dsn, opt_slot_name = slot_name,
      opt_publication_name = publication_name, opt_max_pending_transactions = 100,
      opt_status_interval = 10, opt_on_metrics = None\<rparr>"

text \<open>\<open>not value or not value.strip()\<close>\<close>

definition blank :: "unicode_db \<Rightarrow> pystr \<Rightarrow> bool" where
  "blank u value = (value = [] \<or> strip u value = [])"

fun check_not_blank :: "unicode_db \<Rightarrow> (pystr \<times> pystr) list \<Rightarrow> exn + unit" where
  "check_not_blank u [] = Inr ()"
| "check_not_blank u ((name, value) # checks) =
     (if blank u value then Inl (ValueError (name @ lit '' must not be blank''))
      else check_not_blank u checks)"

definition options_post_init :: "unicode_db \<Rightarrow> walbox_options \<Rightarrow> exn + walbox_options" where
  "options_post_init u opts =
     rbind (check_not_blank u
              [(lit ''consumer_name'', opt_consumer_name opts), (lit ''dsn'', opt_dsn opts),
               (lit ''slot_name'', opt_slot_name opts),
               (lit ''publication_name'', opt_publication_name opts)]) (\<lambda>_.
     if opt_max_pending_transactions opts \<le> 0
     then Inl (ValueError (lit ''max_pending_transactions must be > 0''))
     else if opt_status_interval opts \<le> 0
     then Inl (ValueError (lit ''status_interval must be > 0''))
     else Inr opts)"


section \<open>The checkpoint handle\<close>

text \<open>
  \<open>CheckpointHandle.save\<close>, over the state the store and the callback share. \<open>store_save\<close>
  is the store's \<open>save(lsn, connection=...)\<close>; \<open>started\<close> and \<open>finished\<close> are the two
  readings of \<open>time.monotonic()\<close>.
\<close>

record ('s, 'c) checkpoint_handle =
  ch_store :: "int \<Rightarrow> 'c option \<Rightarrow> ('s, exn, unit) action"
  ch_on_saved :: "(int \<Rightarrow> pyfloat \<Rightarrow> ('s, exn, unit) action) option"
  ch_max_lsn :: "int option"

definition refuse_save :: "int \<Rightarrow> int \<Rightarrow> exn" where
  "refuse_save lsn max_lsn =
     CheckpointError (walbox_error_init
       (lit ''refusing to save checkpoint lsn='' @ str_int lsn
        @ lit '': greater than the dispatched transaction'' @ [39] @ lit ''s commit_lsn='' @ str_int max_lsn)
       None)"

definition checkpoint_handle_save ::
    "('s, 'c) checkpoint_handle \<Rightarrow> int \<Rightarrow> 'c option \<Rightarrow> pyfloat \<Rightarrow> pyfloat \<Rightarrow> ('s, exn, unit) action" where
  "checkpoint_handle_save h lsn connection started finished =
     abind (case ch_max_lsn h of
              Some m \<Rightarrow> if m < lsn then araise (refuse_save lsn m) else areturn ()
            | None \<Rightarrow> areturn ()) (\<lambda>_.
     abind (ch_store h lsn connection) (\<lambda>_.
     case ch_on_saved h of
       None \<Rightarrow> areturn ()
     | Some on_saved \<Rightarrow> on_saved lsn (fsub finished started)))"


section \<open>Validation\<close>

lemma check_not_blank_ok: "check_not_blank u checks = Inr () \<longleftrightarrow> (\<forall>(n, v) \<in> set checks. \<not> blank u v)"
  by (induction u checks rule: check_not_blank.induct) auto

lemma check_not_blank_Inl:
  "check_not_blank u checks = Inl e \<Longrightarrow> \<exists>m. e = ValueError m"
  by (induction u checks rule: check_not_blank.induct) (auto split: if_splits)

text \<open>What is blank: nothing but space.\<close>

lemma blank_iff: "blank u v \<longleftrightarrow> list_all (is_space u) v"
proof -
  have "(\<forall>c \<in> set (dropWhile (is_space u) v). is_space u c) \<longleftrightarrow> (\<forall>c \<in> set v. is_space u c)"
    by (induction v) auto
  then show ?thesis by (auto simp: blank_def strip_def list_all_iff)
qed

section \<open>Properties\<close>

text \<open>C34: options are accepted, unchanged, exactly when each of the four names holds a character
  that is not white space and both numbers are positive; anything else is a \<open>ValueError\<close>, and
  nothing but a \<open>ValueError\<close>.\<close>

theorem options_accepted_iff_valid:
  "(options_post_init u opts = Inr opts \<longleftrightarrow>
      list_ex (\<lambda>c. \<not> is_space u c) (opt_consumer_name opts)
      \<and> list_ex (\<lambda>c. \<not> is_space u c) (opt_dsn opts)
      \<and> list_ex (\<lambda>c. \<not> is_space u c) (opt_slot_name opts)
      \<and> list_ex (\<lambda>c. \<not> is_space u c) (opt_publication_name opts)
      \<and> 0 < opt_max_pending_transactions opts \<and> 0 < opt_status_interval opts)
   \<and> (\<exists>m. options_post_init u opts \<in> {Inr opts, Inl (ValueError m)})"
proof -
  have blank: "blank u v \<longleftrightarrow> \<not> list_ex (\<lambda>c. \<not> is_space u c) v" for v
    by (auto simp: blank_iff list_all_iff list_ex_iff)
  show ?thesis by (auto simp: options_post_init_def blank)
qed

end
