(* ===== verification/Assembler.thy ===== *)
theory Assembler
  imports Abc
begin

text \<open>
  \<open>walbox/transaction.py\<close>: \<open>TransactionAssembler\<close>, with the pending bucket of every open
  xid, the xid of the ordinary transaction and the xid of the streaming bracket now open. \<open>feed\<close>
  and the methods it calls are actions on that state. Log calls are left out.
\<close>

section \<open>State\<close>

record pending =
  pnd_changes :: "change_event list"
  pnd_final_lsn :: "int option"
  pnd_boundaries :: "(int, nat) dict"

definition pending_init :: "int option \<Rightarrow> pending" where
  "pending_init final_lsn = \<lparr>pnd_changes = [], pnd_final_lsn = final_lsn, pnd_boundaries = []\<rparr>"

record assembler =
  asm_pending :: "(int, pending) dict"
  asm_current_xid :: "int option"
  asm_active_stream_xid :: "int option"

definition assembler_init :: assembler where
  "assembler_init = \<lparr>asm_pending = [], asm_current_xid = None, asm_active_stream_xid = None\<rparr>"

definition xid_error :: "pystr \<Rightarrow> int \<Rightarrow> exn" where
  "xid_error message x = protocol_error message (Some (xid_context x))"


section \<open>Ordinary transactions\<close>

definition assembler_begin :: "begin_msg \<Rightarrow> (assembler, exn, unit) action" where
  "assembler_begin m a =
     (if asm_current_xid a \<noteq> None
      then (Inl (xid_error (lit ''received Begin while a transaction is already open'') (begin_xid m)), a)
      else if map_of (asm_pending a) (begin_xid m) \<noteq> None
      then (Inl (xid_error (lit ''received Begin for xid '' @ str_int (begin_xid m)
                            @ lit '' which already has an open streaming bucket'') (begin_xid m)), a)
      else (Inr (), a\<lparr>asm_current_xid := Some (begin_xid m),
                      asm_pending := AList.update (begin_xid m)
                        (pending_init (Some (begin_final_lsn m))) (asm_pending a)\<rparr>))"

definition active_xid :: "string \<Rightarrow> (assembler, exn, int) action" where
  "active_xid message_kind a =
     (case asm_active_stream_xid a of
        Some x \<Rightarrow> (Inr x, a)
      | None \<Rightarrow>
          (case asm_current_xid a of
             Some x \<Rightarrow> (Inr x, a)
           | None \<Rightarrow>
               (Inl (protocol_error
                  (lit ''received '' @ lit message_kind @ lit '' with no open transaction'') None), a)))"

definition note_subxact :: "int option \<Rightarrow> pending \<Rightarrow> pending" where
  "note_subxact subxid p =
     (case subxid of
        Some s \<Rightarrow> if map_of (pnd_boundaries p) s = None
                  then p\<lparr>pnd_boundaries := AList.update s (length (pnd_changes p)) (pnd_boundaries p)\<rparr>
                  else p
      | None \<Rightarrow> p)"

definition append_change :: "int \<Rightarrow> int option \<Rightarrow> change_event \<Rightarrow> (assembler, exn, unit) action" where
  "append_change x subxid change a =
     (case map_of (asm_pending a) x of
        None \<Rightarrow> (Inl (xid_error (lit ''received a change for xid '' @ str_int x
                                @ lit '' with no open bucket'') x), a)
      | Some p \<Rightarrow>
          let p = note_subxact subxid p;
              p = p\<lparr>pnd_changes := pnd_changes p @ [change]\<rparr>
          in (Inr (), a\<lparr>asm_pending := AList.update x p (asm_pending a)\<rparr>))"

definition append_insert :: "insert_msg \<Rightarrow> (assembler, exn, unit) action" where
  "append_insert m =
     abind (active_xid ''Insert'') (\<lambda>x.
     append_change x (ins_subxid m)
       \<lparr>chg_kind = INSERT, chg_table = ins_table m, chg_new = Some (ins_new m), chg_old = None\<rparr>)"

definition append_update :: "update_msg \<Rightarrow> (assembler, exn, unit) action" where
  "append_update m =
     abind (active_xid ''Update'') (\<lambda>x.
     append_change x (upd_subxid m)
       \<lparr>chg_kind = UPDATE, chg_table = upd_table m, chg_new = Some (upd_new m),
        chg_old = upd_old m\<rparr>)"

definition append_delete :: "delete_msg \<Rightarrow> (assembler, exn, unit) action" where
  "append_delete m =
     abind (active_xid ''Delete'') (\<lambda>x.
     append_change x (del_subxid m)
       \<lparr>chg_kind = DELETE, chg_table = del_table m, chg_new = None, chg_old = Some (del_old m)\<rparr>)"

definition append_truncate :: "truncate_msg \<Rightarrow> (assembler, exn, unit) action" where
  "append_truncate m =
     abind (active_xid ''Truncate'') (\<lambda>x.
     afor (trunc_tables m) (\<lambda>table.
       append_change x (trunc_subxid m)
         \<lparr>chg_kind = TRUNCATE, chg_table = table, chg_new = None, chg_old = None\<rparr>))"

text \<open>
  \<open>_build_transaction\<close>, given the two fields a \<open>Commit\<close> and a \<open>StreamCommit\<close> share.
\<close>

definition build_transaction :: "int \<Rightarrow> change_event list \<Rightarrow> int \<Rightarrow> int \<Rightarrow> transaction" where
  "build_transaction x changes end_lsn commit_time =
     \<lparr>tx_xid = x, tx_commit_lsn = end_lsn - 1, tx_commit_time = commit_time, tx_changes = changes\<rparr>"

definition finish :: "commit_msg \<Rightarrow> (assembler, exn, transaction) action" where
  "finish m a =
     (case asm_current_xid a of
        None \<Rightarrow> (Inl (protocol_error (lit ''received Commit with no open transaction'') None), a)
      | Some x \<Rightarrow>
          (case map_of (asm_pending a) x of
             None \<Rightarrow> (Inl KeyError, a)
           | Some p \<Rightarrow>
               if pnd_final_lsn p \<noteq> Some (commit_commit_lsn m)
               then (Inl (protocol_error (lit ''Begin.final_lsn does not match Commit.commit_lsn'')
                       (Some (no_context\<lparr>ctx_xid := Some x, ctx_lsn := Some (commit_commit_lsn m)\<rparr>))), a)
               else (Inr (build_transaction x (pnd_changes p) (commit_end_lsn m) (commit_commit_time m)),
                     a\<lparr>asm_pending := AList.delete x (asm_pending a), asm_current_xid := None\<rparr>)))"


section \<open>Streamed transactions\<close>

definition stream_start :: "stream_start_msg \<Rightarrow> (assembler, exn, unit) action" where
  "stream_start m a =
     (let x = start_xid m in
      if start_first_segment m
      then if map_of (asm_pending a) x \<noteq> None
           then (Inl (xid_error (lit ''duplicate StreamStart(first_segment=True) for xid '' @ str_int x) x), a)
           else (Inr (), a\<lparr>asm_pending := AList.update x (pending_init None) (asm_pending a),
                           asm_active_stream_xid := Some x\<rparr>)
      else if map_of (asm_pending a) x = None
      then (Inl (xid_error (lit ''StreamStart continuation for unknown xid '' @ str_int x) x), a)
      else (Inr (), a\<lparr>asm_active_stream_xid := Some x\<rparr>))"

definition stream_stop :: "(assembler, exn, unit) action" where
  "stream_stop a = (Inr (), a\<lparr>asm_active_stream_xid := None\<rparr>)"

definition leave_stream :: "int \<Rightarrow> assembler \<Rightarrow> assembler" where
  "leave_stream x a =
     (if asm_active_stream_xid a = Some x then a\<lparr>asm_active_stream_xid := None\<rparr> else a)"

definition stream_commit :: "stream_commit_msg \<Rightarrow> (assembler, exn, transaction) action" where
  "stream_commit m a =
     (let x = scommit_xid m in
      case map_of (asm_pending a) x of
        None \<Rightarrow> (Inl (xid_error (lit ''received StreamCommit for unknown xid '' @ str_int x) x), a)
      | Some p \<Rightarrow>
          (Inr (build_transaction x (pnd_changes p) (scommit_end_lsn m) (scommit_commit_time m)),
           leave_stream x (a\<lparr>asm_pending := AList.delete x (asm_pending a)\<rparr>)))"

text \<open>The part of \<open>stream_abort\<close> that cuts a bucket back to where a subtransaction began.\<close>

definition discard_subxact :: "int \<Rightarrow> pending \<Rightarrow> pending" where
  "discard_subxact s p =
     (case map_of (pnd_boundaries p) s of
        None \<Rightarrow> p
      | Some boundary \<Rightarrow>
          p\<lparr>pnd_changes := take boundary (pnd_changes p),
            pnd_boundaries :=
              filter (\<lambda>(subxid, index). \<not> boundary \<le> index) (AList.delete s (pnd_boundaries p))\<rparr>)"

definition stream_abort :: "stream_abort_msg \<Rightarrow> (assembler, exn, unit) action" where
  "stream_abort m a =
     (let x = abort_xid m in
      if abort_subxid m = x
      then (Inr (), leave_stream x (a\<lparr>asm_pending := AList.delete x (asm_pending a)\<rparr>))
      else case map_of (asm_pending a) x of
             None \<Rightarrow> (Inr (), a)
           | Some p \<Rightarrow>
               (Inr (), a\<lparr>asm_pending :=
                  AList.update x (discard_subxact (abort_subxid m) p) (asm_pending a)\<rparr>))"


section \<open>Dispatch\<close>

definition no_transaction :: "(assembler, exn, unit) action \<Rightarrow> (assembler, exn, transaction option) action" where
  "no_transaction act = abind act (\<lambda>_. areturn None)"

definition one_transaction :: "(assembler, exn, transaction) action \<Rightarrow> (assembler, exn, transaction option) action" where
  "one_transaction act = abind act (\<lambda>t. areturn (Some t))"

fun feed :: "pgoutput_message \<Rightarrow> (assembler, exn, transaction option) action" where
  "feed (Begin m) = no_transaction (assembler_begin m)"
| "feed (Insert m) = no_transaction (append_insert m)"
| "feed (Update m) = no_transaction (append_update m)"
| "feed (Delete m) = no_transaction (append_delete m)"
| "feed (Truncate m) = no_transaction (append_truncate m)"
| "feed (Commit m) = one_transaction (finish m)"
| "feed (Relation r) = areturn None"
| "feed (StreamStart m) = no_transaction (stream_start m)"
| "feed StreamStop = no_transaction stream_stop"
| "feed (StreamCommit m) = one_transaction (stream_commit m)"
| "feed (StreamAbort m) = no_transaction (stream_abort m)"
| "feed (Type m) = araise AssertionError"
| "feed (Origin m) = araise AssertionError"
| "feed (Message m) = araise AssertionError"

end
