(* ===== verification/Assembler_Spec.thy ===== *)
theory Assembler_Spec
  imports Assembler
begin

text \<open>
  What \<open>TransactionAssembler\<close> promises. A bucket stands for a log of changes, each tagged
  with the subtransaction that made it; aborting a subtransaction cuts the log where its tag first
  appears (\<open>bucket_log\<close>). Above it is the server: per xid a stack of savepoint frames,
  interleaved chunks, savepoint rollbacks, aborts and commits. The assembler simulates that server,
  so that what it hands out is what PostgreSQL committed. The theory also holds the invariant of the
  buckets and what a raising call leaves behind.
\<close>

section \<open>Rows\<close>

fun is_row :: "pgoutput_message \<Rightarrow> bool" where
  "is_row (Insert m) = True"
| "is_row (Update m) = True"
| "is_row (Delete m) = True"
| "is_row (Truncate m) = True"
| "is_row _ = False"

fun row_subxid :: "pgoutput_message \<Rightarrow> int option" where
  "row_subxid (Insert m) = ins_subxid m"
| "row_subxid (Update m) = upd_subxid m"
| "row_subxid (Delete m) = del_subxid m"
| "row_subxid (Truncate m) = trunc_subxid m"
| "row_subxid _ = None"

text \<open>The changes a row message stands for: one per table for a truncate.\<close>

fun row_changes :: "pgoutput_message \<Rightarrow> change_event list" where
  "row_changes (Insert m) =
     [\<lparr>chg_kind = INSERT, chg_table = ins_table m, chg_new = Some (ins_new m), chg_old = None\<rparr>]"
| "row_changes (Update m) =
     [\<lparr>chg_kind = UPDATE, chg_table = upd_table m, chg_new = Some (upd_new m), chg_old = upd_old m\<rparr>]"
| "row_changes (Delete m) =
     [\<lparr>chg_kind = DELETE, chg_table = del_table m, chg_new = None, chg_old = Some (del_old m)\<rparr>]"
| "row_changes (Truncate m) =
     map (\<lambda>t. \<lparr>chg_kind = TRUNCATE, chg_table = t, chg_new = None, chg_old = None\<rparr>) (trunc_tables m)"
| "row_changes _ = []"

definition bucket_append :: "int option \<Rightarrow> change_event list \<Rightarrow> pending \<Rightarrow> pending" where
  "bucket_append subxid cs p =
     (if cs = [] then p
      else let p = note_subxact subxid p in p\<lparr>pnd_changes := pnd_changes p @ cs\<rparr>)"

definition put_bucket :: "int \<Rightarrow> pending \<Rightarrow> assembler \<Rightarrow> assembler" where
  "put_bucket x p a = a\<lparr>asm_pending := AList.update x p (asm_pending a)\<rparr>"

text \<open>The transaction a bare row message belongs to.\<close>

definition open_xid :: "assembler \<Rightarrow> int option" where
  "open_xid a = (case asm_active_stream_xid a of Some x \<Rightarrow> Some x | None \<Rightarrow> asm_current_xid a)"

lemma put_bucket_simps [simp]:
  "map_of (asm_pending (put_bucket x p a)) = (map_of (asm_pending a))(x \<mapsto> p)"
  "asm_current_xid (put_bucket x p a) = asm_current_xid a"
  "asm_active_stream_xid (put_bucket x p a) = asm_active_stream_xid a"
  "open_xid (put_bucket x p a) = open_xid a"
  by (simp_all add: put_bucket_def open_xid_def split: option.split)

lemma put_bucket_same: "map_of (asm_pending a) x = Some p \<Longrightarrow> put_bucket x p a = a"
  by (simp add: put_bucket_def update_triv)

lemma put_bucket_twice [simp]: "put_bucket x p (put_bucket x q a) = put_bucket x p a"
  by (simp add: put_bucket_def update_last)

lemma note_subxact_changes [simp]: "pnd_changes (note_subxact s p) = pnd_changes p"
  by (simp add: note_subxact_def split: option.split)

lemma note_subxact_final [simp]: "pnd_final_lsn (note_subxact s p) = pnd_final_lsn p"
  by (simp add: note_subxact_def split: option.split)

lemma note_subxact_again:
  "note_subxact s (note_subxact s p\<lparr>pnd_changes := cs\<rparr>) = note_subxact s p\<lparr>pnd_changes := cs\<rparr>"
  by (auto simp: note_subxact_def split: option.split)

lemma bucket_append_Nil [simp]: "bucket_append s [] p = p"
  by (simp add: bucket_append_def)

lemma bucket_append_Cons: "bucket_append s (c # cs) p = bucket_append s cs (bucket_append s [c] p)"
  by (simp add: bucket_append_def Let_def note_subxact_again)

lemma bucket_append_changes [simp]: "pnd_changes (bucket_append s cs p) = pnd_changes p @ cs"
  by (simp add: bucket_append_def Let_def)

lemma bucket_append_final [simp]: "pnd_final_lsn (bucket_append s cs p) = pnd_final_lsn p"
  by (simp add: bucket_append_def Let_def)

lemma append_change_bucket:
  "map_of (asm_pending a) x = Some p \<Longrightarrow>
   append_change x s c a = (Inr (), put_bucket x (bucket_append s [c] p) a)"
  by (simp add: append_change_def bucket_append_def Let_def put_bucket_def)

lemma append_change_no_bucket:
  "map_of (asm_pending a) x = None \<Longrightarrow>
   append_change x s c a = (Inl (xid_error (lit ''received a change for xid '' @ str_int x
                                @ lit '' with no open bucket'') x), a)"
  by (simp add: append_change_def)

lemma append_changes_bucket:
  "map_of (asm_pending a) x = Some p \<Longrightarrow>
   afor ts (\<lambda>t. append_change x s (f t)) a = (Inr (), put_bucket x (bucket_append s (map f ts) p) a)"
proof (induction ts arbitrary: a p)
  case Nil
  then show ?case by (simp add: put_bucket_same)
next
  case (Cons t ts)
  then show ?case
    by (simp add: append_change_bucket bucket_append_Cons [of s "f t" "map f ts"])
qed

lemma active_xid_open: "open_xid a = Some x \<Longrightarrow> active_xid kind a = (Inr x, a)"
  by (auto simp: open_xid_def active_xid_def split: option.splits)

lemma active_xid_none:
  "open_xid a = None \<Longrightarrow> active_xid kind a =
     (Inl (protocol_error (lit ''received '' @ lit kind @ lit '' with no open transaction'') None), a)"
  by (auto simp: open_xid_def active_xid_def split: option.splits)

lemmas append_defs = append_insert_def append_update_def append_delete_def append_truncate_def

lemma feed_row:
  assumes "is_row m" and "open_xid a = Some x" and "map_of (asm_pending a) x = Some p"
  shows "feed m a = (Inr None, put_bucket x (bucket_append (row_subxid m) (row_changes m) p) a)"
  using assms
  by (cases m) (simp_all add: no_transaction_def append_defs active_xid_open append_change_bucket
      append_changes_bucket)

lemma feed_row_no_transaction:
  assumes "is_row m" and "open_xid a = None"
  shows "\<exists>e. feed m a = (Inl e, a) \<and> is_protocol_error e"
  using assms by (cases m) (auto simp: no_transaction_def append_defs active_xid_none)

lemma feed_row_no_bucket:
  assumes "is_row m" and "open_xid a = Some x" and "map_of (asm_pending a) x = None"
  shows "case feed m a of
           (Inl e, a') \<Rightarrow> is_protocol_error e \<and> a' = a \<and> row_changes m \<noteq> []
         | (Inr r, a') \<Rightarrow> r = None \<and> a' = a \<and> row_changes m = []"
proof (cases m)
  case (Truncate t)
  then show ?thesis
    using assms by (cases "trunc_tables t")
      (simp_all add: no_transaction_def append_defs active_xid_open append_change_no_bucket xid_error_def)
qed (use assms in \<open>simp_all add: no_transaction_def append_defs active_xid_open
    append_change_no_bucket xid_error_def\<close>)

lemma feed_row_cases:
  assumes "is_row m"
  obtains (appended) x p where "open_xid a = Some x" "map_of (asm_pending a) x = Some p"
      "feed m a = (Inr None, put_bucket x (bucket_append (row_subxid m) (row_changes m) p) a)"
    | (no_rows) "row_changes m = []" "feed m a = (Inr None, a)"
    | (rejected) e where "feed m a = (Inl e, a)" "is_protocol_error e"
proof (cases "open_xid a")
  case None
  then show ?thesis using feed_row_no_transaction [OF assms] rejected by blast
next
  case (Some x)
  show ?thesis
  proof (cases "map_of (asm_pending a) x")
    case None
    note outcome = feed_row_no_bucket [OF assms Some None]
    show ?thesis
    proof (cases "fst (feed m a)")
      case (Inl e)
      with outcome show ?thesis by (intro rejected [of e]) (auto split: prod.splits)
    next
      case (Inr r)
      with outcome show ?thesis by (intro no_rows) (auto split: prod.splits)
    qed
  next
    case (Some p)
    then show ?thesis using feed_row [OF assms \<open>open_xid a = Some x\<close> Some] appended
      \<open>open_xid a = Some x\<close> by blast
  qed
qed


section \<open>The buckets stay well formed\<close>

definition bucket_inv :: "pending \<Rightarrow> bool" where
  "bucket_inv p =
     (dict_ok (pnd_boundaries p)
      \<and> (\<forall>s i. map_of (pnd_boundaries p) s = Some i \<longrightarrow> i < length (pnd_changes p)))"

definition asm_inv :: "assembler \<Rightarrow> bool" where
  "asm_inv a =
     (dict_ok (asm_pending a) \<and> (\<forall>x p. map_of (asm_pending a) x = Some p \<longrightarrow> bucket_inv p))"

lemma bucket_inv_init [simp]: "bucket_inv (pending_init f)"
  by (simp add: bucket_inv_def pending_init_def)

lemma bucket_inv_append: "bucket_inv p \<Longrightarrow> bucket_inv (bucket_append s cs p)"
  by (auto simp: bucket_inv_def bucket_append_def note_subxact_def Let_def trans_less_add1
      simp del: map_of_eq_Some_iff split: option.split)

lemma bucket_inv_discard:
  assumes "bucket_inv p"
  shows "bucket_inv (discard_subxact s p)"
proof (cases "map_of (pnd_boundaries p) s")
  case (Some b)
  let ?bs = "AList.delete s (pnd_boundaries p)"
  have ok: "dict_ok ?bs" using assms by (auto simp: bucket_inv_def)
  have cut: "filter (\<lambda>(subxid, index). \<not> b \<le> index) ?bs = filter (\<lambda>kv. \<not> b \<le> snd kv) ?bs"
    by (rule filter_cong) auto
  have "b < length (pnd_changes p)" using assms Some by (simp add: bucket_inv_def)
  moreover have "dict_ok (filter (\<lambda>kv. \<not> b \<le> snd kv) ?bs)"
    using ok by (simp add: distinct_map_filter)
  moreover have "i < b" if "map_of (filter (\<lambda>kv. \<not> b \<le> snd kv) ?bs) t = Some i" for t i
    using that map_of_filter_val [OF ok, of "\<lambda>i. \<not> b \<le> i"] by (auto split: option.splits if_splits)
  ultimately show ?thesis
    using Some by (auto simp: bucket_inv_def discard_subxact_def cut min_def simp del: map_of_eq_Some_iff)
qed (use assms in \<open>simp add: discard_subxact_def\<close>)

lemma asm_inv_put: "asm_inv a \<Longrightarrow> bucket_inv p \<Longrightarrow> asm_inv (put_bucket x p a)"
  by (auto simp: asm_inv_def put_bucket_def simp del: map_of_eq_Some_iff)

lemma asm_inv_drop:
  "asm_inv a \<Longrightarrow> asm_inv (a\<lparr>asm_pending := AList.delete x (asm_pending a)\<rparr>)"
  by (auto simp: asm_inv_def simp del: map_of_eq_Some_iff)

lemma asm_inv_flags [simp]:
  "asm_inv (a\<lparr>asm_current_xid := c\<rparr>) = asm_inv a"
  "asm_inv (a\<lparr>asm_active_stream_xid := c\<rparr>) = asm_inv a"
  "asm_inv (leave_stream x a) = asm_inv a"
  "asm_inv (a\<lparr>asm_current_xid := c, asm_pending := d\<rparr>) = asm_inv (a\<lparr>asm_pending := d\<rparr>)"
  by (simp_all add: asm_inv_def leave_stream_def)

lemmas feed_other_defs = no_transaction_def one_transaction_def assembler_begin_def finish_def
  stream_start_def stream_stop_def stream_commit_def stream_abort_def

lemma asm_inv_feed: "asm_inv a \<Longrightarrow> asm_inv (snd (feed m a))"
proof (cases "is_row m")
  case True
  assume inv: "asm_inv a"
  show ?thesis
  proof (rule feed_row_cases [OF True, of a])
    fix x p
    assume "map_of (asm_pending a) x = Some p"
      "feed m a = (Inr None, put_bucket x (bucket_append (row_subxid m) (row_changes m) p) a)"
    with inv show ?thesis
      by (simp add: asm_inv_put bucket_inv_append asm_inv_def [of a] del: map_of_eq_Some_iff)
  qed (use inv in simp_all)
next
  case False
  assume inv: "asm_inv a"
  have put: "asm_inv (a\<lparr>asm_pending := AList.update x p (asm_pending a)\<rparr>)"
    if "bucket_inv p" for x p
    using asm_inv_put [OF inv that] by (simp add: put_bucket_def)
  have known: "map_of (asm_pending a) x = Some p \<Longrightarrow> bucket_inv p" for x p
    using inv by (simp add: asm_inv_def)
  show ?thesis
    using False inv put known asm_inv_drop [OF inv]
    by (cases m) (auto simp: feed_other_defs abind_split Let_def bucket_inv_discard split: option.splits)
qed

interpretation assembler_machine: invariant_machine feed assembler_init "\<lambda>_ _. True" asm_inv
proof unfold_locales
  show "asm_inv assembler_init" by (simp add: asm_inv_def assembler_init_def)
qed (rule asm_inv_feed)


section \<open>A raising call\<close>

lemma feed_raises: "fst (feed m a) = Inl e \<Longrightarrow> snd (feed m a) = a"
proof (cases "is_row m")
  case True
  assume "fst (feed m a) = Inl e"
  then show ?thesis by (rule_tac feed_row_cases [OF True, of a]) auto
next
  case False
  assume "fst (feed m a) = Inl e"
  then show ?thesis
    using False by (cases m) (auto simp: feed_other_defs abind_split Let_def split: option.splits if_splits)
qed


section \<open>A bucket is a log of tagged changes\<close>

type_synonym change_log = "(int \<times> change_event) list"

definition before_tag :: "int \<Rightarrow> change_log \<Rightarrow> change_log" where
  "before_tag s cl = takeWhile (\<lambda>c. fst c \<noteq> s) cl"

definition first_index :: "int \<Rightarrow> change_log \<Rightarrow> nat option" where
  "first_index s cl = (if s \<in> fst ` set cl then Some (length (before_tag s cl)) else None)"

definition bucket_log :: "pending \<Rightarrow> change_log \<Rightarrow> bool" where
  "bucket_log p cl =
     (pnd_changes p = map snd cl \<and> dict_ok (pnd_boundaries p)
      \<and> (\<forall>s. map_of (pnd_boundaries p) s = first_index s cl))"

lemma bucket_log_init [simp]: "bucket_log (pending_init f) []"
  by (simp add: bucket_log_def pending_init_def first_index_def)

lemma before_tag_all: "s \<notin> fst ` set cl \<Longrightarrow> before_tag s cl = cl"
  by (auto simp: before_tag_def takeWhile_eq_all_conv)

lemma first_index_append:
  "first_index t (cl @ map (Pair s) cs) =
     (case first_index t cl of
        Some i \<Rightarrow> Some i
      | None \<Rightarrow> if t = s \<and> cs \<noteq> [] then Some (length cl) else None)"
proof (cases "t \<in> fst ` set cl")
  case True
  then have "before_tag t (cl @ map (Pair s) cs) = before_tag t cl"
    by (auto simp: before_tag_def)
  with True show ?thesis by (auto simp: first_index_def)
next
  case False
  then have "before_tag t (cl @ map (Pair s) cs) = cl @ before_tag t (map (Pair s) cs)"
    unfolding before_tag_def by (intro takeWhile_append2) auto
  with False show ?thesis by (cases cs) (auto simp: first_index_def before_tag_def image_iff)
qed

lemma first_index_before_tag:
  "first_index t (before_tag s cl) =
     (if t = s then None
      else case first_index t cl of
             None \<Rightarrow> None
           | Some i \<Rightarrow> if i < length (before_tag s cl) then Some i else None)"
  by (induction cl) (auto simp: first_index_def before_tag_def image_iff split: if_splits)

lemma bucket_log_append:
  assumes "bucket_log p cl"
  shows "bucket_log (bucket_append (Some s) cs p) (cl @ map (Pair s) cs)"
proof (cases "cs = []")
  case False
  have len: "length (pnd_changes p) = length cl" using assms by (simp add: bucket_log_def)
  then show ?thesis
    using assms False
    by (auto simp: bucket_log_def bucket_append_def note_subxact_def Let_def first_index_append comp_def
        split: option.splits)
qed (use assms in simp)

lemma bucket_log_discard:
  assumes "bucket_log p cl"
  shows "bucket_log (discard_subxact s p) (before_tag s cl)"
proof (cases "first_index s cl")
  case None
  then have "before_tag s cl = cl" by (auto simp: first_index_def before_tag_all split: if_splits)
  then show ?thesis using assms None by (simp add: bucket_log_def discard_subxact_def)
next
  case (Some b)
  then have b: "b = length (before_tag s cl)" by (auto simp: first_index_def split: if_splits)
  let ?bs = "AList.delete s (pnd_boundaries p)"
  have ok: "dict_ok ?bs" using assms by (auto simp: bucket_log_def)
  have cut: "filter (\<lambda>(subxid, index). \<not> b \<le> index) ?bs = filter (\<lambda>kv. \<not> b \<le> snd kv) ?bs"
    by (rule filter_cong) auto
  have "map_of (filter (\<lambda>kv. \<not> b \<le> snd kv) ?bs) t = first_index t (before_tag s cl)" for t
    using map_of_filter_val [OF ok, of "\<lambda>i. \<not> b \<le> i" t] assms
    by (auto simp: bucket_log_def first_index_before_tag b not_le split: option.splits)
  moreover have "take b (map snd cl) = map snd (before_tag s cl)"
    by (simp add: b before_tag_def take_map takeWhile_eq_take [symmetric])
  moreover have "dict_ok (filter (\<lambda>kv. \<not> b \<le> snd kv) ?bs)"
    using ok by (simp add: distinct_map_filter)
  ultimately show ?thesis
    using assms Some by (simp add: bucket_log_def discard_subxact_def cut)
qed

text \<open>Aborting several subtransactions, in whatever order, cuts where the first of them appears.\<close>

lemma before_tags: "fold before_tag ss cl = takeWhile (\<lambda>c. fst c \<notin> set ss) cl"
proof (induction ss arbitrary: cl)
  case (Cons s ss)
  have "takeWhile P (takeWhile Q cl) = takeWhile (\<lambda>c. Q c \<and> P c) cl"
    for P Q :: "int \<times> change_event \<Rightarrow> bool"
    by (induction cl) auto
  then show ?case by (simp add: Cons.IH before_tag_def [of s])
qed (simp add: takeWhile_eq_all_conv [THEN iffD2])


section \<open>Properties\<close>

text \<open>The xid whose bucket a message may touch.\<close>

fun addressed :: "pgoutput_message \<Rightarrow> assembler \<Rightarrow> int option" where
  "addressed (Begin m) a = Some (begin_xid m)"
| "addressed (Commit m) a = asm_current_xid a"
| "addressed (StreamStart m) a = Some (start_xid m)"
| "addressed (StreamCommit m) a = Some (scommit_xid m)"
| "addressed (StreamAbort m) a = Some (abort_xid m)"
| "addressed m a = (if is_row m then open_xid a else None)"

text \<open>Which exceptions a message can raise at all.\<close>

fun feed_exn :: "pgoutput_message \<Rightarrow> exn \<Rightarrow> bool" where
  "feed_exn (Commit m) e = (is_protocol_error e \<or> e = KeyError)"
| "feed_exn (Type m) e = (e = AssertionError)"
| "feed_exn (Origin m) e = (e = AssertionError)"
| "feed_exn (Message m) e = (e = AssertionError)"
| "feed_exn (Relation r) e = False"
| "feed_exn StreamStop e = False"
| "feed_exn (StreamAbort m) e = False"
| "feed_exn m e = is_protocol_error e"

lemma xid_error_is [simp]: "is_protocol_error (xid_error m x)"
  by (simp add: xid_error_def)

lemma feed_exn_row: "is_row m \<Longrightarrow> feed_exn m e = is_protocol_error e"
  by (cases m) auto

lemma feed_raises_only: "fst (feed m a) = Inl e \<Longrightarrow> feed_exn m e"
proof (cases "is_row m")
  case True
  assume "fst (feed m a) = Inl e"
  then show ?thesis by (rule_tac feed_row_cases [OF True, of a]) (auto simp: feed_exn_row [OF True])
next
  case False
  assume "fst (feed m a) = Inl e"
  then show ?thesis
    using False by (cases m) (auto simp: feed_other_defs abind_split Let_def split: option.splits if_splits)
qed

text \<open>
  The guard of \<open>_append_change\<close> that the source calls unreachable is reached through \<open>feed\<close>: a full abort
  naming the xid of the open ordinary transaction drops its bucket but leaves \<open>_current_xid\<close> set; the
  next row change is rejected by that guard, and the transaction's own \<open>Commit\<close> is a bare \<open>KeyError\<close>.
\<close>

definition after_lost_bucket :: "pgoutput_message \<Rightarrow> exn + transaction option" where
  "after_lost_bucket m =
     fst (feed m (snd (arun feed
       [Begin \<lparr>begin_final_lsn = 1, begin_commit_time = 2, begin_xid = 5\<rparr>,
        StreamAbort \<lparr>abort_xid = 5, abort_subxid = 5\<rparr>] assembler_init)))"

lemma missing_bucket_guard_is_reachable:
  "after_lost_bucket (Delete \<lparr>del_relation_id = 7, del_table = lit ''t'', del_old = [], del_subxid = None\<rparr>)
   = Inl (xid_error (lit ''received a change for xid 5 with no open bucket'') 5)
   \<and> after_lost_bucket (Commit \<lparr>commit_flags = 0, commit_commit_lsn = 1, commit_end_lsn = 3, commit_commit_time = 2\<rparr>)
   = Inl KeyError"
  by code_simp

text \<open>C4: a message that \<open>feed\<close> rejects leaves the assembler exactly as it was, and the
  exception is a \<open>ProtocolError\<close>, except for a \<open>Commit\<close> whose bucket is gone
  (\<open>KeyError\<close>) and for the three kinds the client is meant to filter out
  (\<open>AssertionError\<close>); a \<open>Relation\<close>, a \<open>StreamStop\<close> and a \<open>StreamAbort\<close> are
  never rejected. Both exceptions that a missing bucket gives do occur: after a full abort that names the
  open ordinary transaction, a row change gets the \<open>ProtocolError\<close> of the guard the source calls
  unreachable, and the \<open>Commit\<close> the \<open>KeyError\<close>.\<close>

theorem feed_rejects_atomically:
  assumes "feed m a = (Inl e, a')"
  shows "a' = a \<and> feed_exn m e
    \<and> after_lost_bucket (Delete \<lparr>del_relation_id = 7, del_table = lit ''t'', del_old = [], del_subxid = None\<rparr>)
      = Inl (xid_error (lit ''received a change for xid 5 with no open bucket'') 5)
    \<and> after_lost_bucket (Commit \<lparr>commit_flags = 0, commit_commit_lsn = 1, commit_end_lsn = 3, commit_commit_time = 2\<rparr>)
      = Inl KeyError"
  using feed_raises [of m a e] feed_raises_only [of m a e] assms missing_bucket_guard_is_reachable by simp

theorem feed_rejects_atomically_witness:
  "\<exists>e. feed (StreamCommit \<lparr>scommit_xid = 5, scommit_commit_lsn = 1, scommit_end_lsn = 2,
                             scommit_commit_time = 3\<rparr>) assembler_init = (Inl e, assembler_init)
     \<and> is_protocol_error e"
proof -
  let ?m = "StreamCommit \<lparr>scommit_xid = 5, scommit_commit_lsn = 1, scommit_end_lsn = 2,
                           scommit_commit_time = 3\<rparr>"
  have "feed ?m assembler_init
      = (Inl (xid_error (lit ''received StreamCommit for unknown xid '' @ str_int 5) 5), assembler_init)"
    by (simp add: one_transaction_def stream_commit_def assembler_init_def abind_def)
  from feed_rejects_atomically [OF this] this show ?thesis by auto
qed

text \<open>C5: a message changes no bucket but that of the transaction it is addressed to (the one it
  names, or, for a bare row change, the open bracket's and else the ordinary transaction's): streamed
  transactions that are interleaved do not mix.\<close>

theorem feed_changes_one_bucket:
  assumes "addressed m a \<noteq> Some x"
  shows "map_of (asm_pending (snd (feed m a))) x = map_of (asm_pending a) x"
proof (cases "is_row m")
  case True
  then have "open_xid a \<noteq> Some x" using assms by (cases m) auto
  then show ?thesis by (rule_tac feed_row_cases [OF True, of a]) auto
next
  case False
  then show ?thesis
    using assms
    by (cases m) (auto simp: feed_other_defs abind_split Let_def leave_stream_def split: option.splits)
qed

theorem feed_changes_one_bucket_witness:
  "map_of (asm_pending (snd (feed (StreamStart \<lparr>start_xid = 5, start_first_segment = True\<rparr>)
      (assembler_init\<lparr>asm_pending := [(4, pending_init None)]\<rparr>)))) 4 = Some (pending_init None)"
  using feed_changes_one_bucket [of "StreamStart \<lparr>start_xid = 5, start_first_segment = True\<rparr>"
    "assembler_init\<lparr>asm_pending := [(4, pending_init None)]\<rparr>" 4]
  by simp

text \<open>C6: whatever messages are fed, accepted or not, every savepoint boundary a bucket records is
  the position of a change the bucket still holds, so that a later abort never cuts past the end and
  always discards at least one change.\<close>

theorem boundaries_stay_inside_buckets:
  assumes "map_of (asm_pending (snd (arun feed ms assembler_init))) x = Some p"
    and "map_of (pnd_boundaries p) s = Some i"
  shows "i < length (pnd_changes p) \<and> pnd_changes (discard_subxact s p) = take i (pnd_changes p)"
proof -
  have "assembler_machine.all_good ms a" for a
    by (induction ms arbitrary: a) (auto split: sum.split)
  then have "asm_inv (snd (arun feed ms assembler_init))"
    using assembler_machine.inv_run assembler_machine.inv_start by blast
  with assms show ?thesis
    by (simp add: asm_inv_def bucket_inv_def discard_subxact_def del: map_of_eq_Some_iff)
qed

definition demo_savepoint :: "pgoutput_message list" where
  "demo_savepoint =
     [StreamStart \<lparr>start_xid = 5, start_first_segment = True\<rparr>,
      Delete \<lparr>del_relation_id = 7, del_table = lit ''t'', del_old = [], del_subxid = Some 5\<rparr>,
      Delete \<lparr>del_relation_id = 7, del_table = lit ''t'', del_old = [], del_subxid = Some 6\<rparr>]"

theorem boundaries_stay_inside_buckets_witness:
  "\<exists>p. map_of (asm_pending (snd (arun feed demo_savepoint assembler_init))) 5 = Some p
      \<and> map_of (pnd_boundaries p) 6 = Some 1
      \<and> 1 < length (pnd_changes p) \<and> length (pnd_changes (discard_subxact 6 p)) = 1"
proof -
  obtain p where p: "map_of (asm_pending (snd (arun feed demo_savepoint assembler_init))) 5 = Some p"
    "map_of (pnd_boundaries p) 6 = Some 1"
    by (simp add: demo_savepoint_def assembler_init_def no_transaction_def stream_start_def
        append_delete_def active_xid_def append_change_def note_subxact_def pending_init_def
        abind_def Let_def)
  from boundaries_stay_inside_buckets [OF p] p show ?thesis by (intro exI [of _ p]) simp
qed

end
