(* ===== verification/Transaction_Server.thy ===== *)
theory Transaction_Server
  imports Assembler_Spec
begin

text \<open>
  The server as the assembler sees it: for each streamed transaction a stack of savepoint frames,
  and a schedule that interleaves chunks of several transactions with savepoint rollbacks, aborts,
  commits and whole ordinary transactions. A frame knows only which changes it holds; rolling back
  drops the frame, releasing merges it into the one below. The assembler, fed the messages of the
  schedule, hands out exactly the transactions this server commits.
\<close>

section \<open>One streamed transaction\<close>

record frame =
  fr_xid :: int
  fr_released :: "int list"
  fr_log :: change_log

definition frame_init :: "int \<Rightarrow> frame" where
  "frame_init x = \<lparr>fr_xid = x, fr_released = [], fr_log = []\<rparr>"

definition frame_xids :: "frame \<Rightarrow> int list" where
  "frame_xids f = fr_xid f # fr_released f"

definition stack_log :: "frame list \<Rightarrow> change_log" where
  "stack_log st = concat (map fr_log (rev st))"

definition stack_xids :: "frame list \<Rightarrow> int set" where
  "stack_xids st = (\<Union>f \<in> set st. set (frame_xids f))"

text \<open>Subtransaction ids are given out once, and a frame's changes carry the ids it owns.\<close>

fun frames_ok :: "frame list \<Rightarrow> bool" where
  "frames_ok [] = True"
| "frames_ok (f # fs) =
     (set (frame_xids f) \<inter> stack_xids fs = {} \<and> fst ` set (fr_log f) \<subseteq> set (frame_xids f) \<and> frames_ok fs)"

definition stack_ok :: "int \<Rightarrow> frame list \<Rightarrow> bool" where
  "stack_ok x st = (st \<noteq> [] \<and> fr_xid (last st) = x \<and> frames_ok st)"

datatype session_op = Row pgoutput_message | Savepoint int | Release

fun op_messages :: "session_op \<Rightarrow> pgoutput_message list" where
  "op_messages (Row m) = [m]"
| "op_messages _ = []"

fun op_ok :: "session_op \<Rightarrow> frame list \<Rightarrow> bool" where
  "op_ok (Row m) st = (is_row m \<and> row_subxid m = Some (fr_xid (hd st)))"
| "op_ok (Savepoint s) st = (s \<notin> stack_xids st)"
| "op_ok Release st = (2 \<le> length st)"

fun op_step :: "session_op \<Rightarrow> frame list \<Rightarrow> frame list" where
  "op_step (Row m) (f # fs) =
     f\<lparr>fr_log := fr_log f @ map (Pair (fr_xid f)) (row_changes m)\<rparr> # fs"
| "op_step (Savepoint s) st = frame_init s # st"
| "op_step Release (f # g # fs) =
     g\<lparr>fr_released := fr_released g @ frame_xids f, fr_log := fr_log g @ fr_log f\<rparr> # fs"
| "op_step _ st = st"

fun ops_ok :: "session_op list \<Rightarrow> frame list \<Rightarrow> bool" where
  "ops_ok [] st = True"
| "ops_ok (c # cs) st = (op_ok c st \<and> ops_ok cs (op_step c st))"

definition run_ops :: "session_op list \<Rightarrow> frame list \<Rightarrow> frame list" where
  "run_ops cs st = fold op_step cs st"


section \<open>The schedule\<close>

datatype schedule_item =
    Chunk int bool "session_op list"
  | RollbackTo int "int list"
  | Abort int
  | CommitStreamed stream_commit_msg
  | Ordinary begin_msg "pgoutput_message list" commit_msg

type_synonym txn_server = "int \<Rightarrow> frame list option"

fun item_messages :: "schedule_item \<Rightarrow> pgoutput_message list" where
  "item_messages (Chunk x first cs) =
     StreamStart \<lparr>start_xid = x, start_first_segment = first\<rparr>
     # concat (map op_messages cs) @ [StreamStop]"
| "item_messages (RollbackTo x order) =
     map (\<lambda>s. StreamAbort \<lparr>abort_xid = x, abort_subxid = s\<rparr>) order"
| "item_messages (Abort x) = [StreamAbort \<lparr>abort_xid = x, abort_subxid = x\<rparr>]"
| "item_messages (CommitStreamed m) = [StreamCommit m]"
| "item_messages (Ordinary b rows c) = Begin b # rows @ [Commit c]"

definition opened :: "txn_server \<Rightarrow> int \<Rightarrow> frame list" where
  "opened srv x = (case srv x of None \<Rightarrow> [frame_init x] | Some st \<Rightarrow> st)"

definition committed :: "int \<Rightarrow> int \<Rightarrow> int \<Rightarrow> change_event list \<Rightarrow> transaction" where
  "committed x end_lsn commit_time cs =
     \<lparr>tx_xid = x, tx_commit_lsn = end_lsn - 1, tx_commit_time = commit_time, tx_changes = cs\<rparr>"

fun server_commits :: "schedule_item \<Rightarrow> txn_server \<Rightarrow> transaction list" where
  "server_commits (CommitStreamed m) srv =
     [committed (scommit_xid m) (scommit_end_lsn m) (scommit_commit_time m)
        (map snd (stack_log (the (srv (scommit_xid m)))))]"
| "server_commits (Ordinary b rows c) srv =
     [committed (begin_xid b) (commit_end_lsn c) (commit_commit_time c)
        (concat (map row_changes rows))]"
| "server_commits _ srv = []"

fun server_after :: "schedule_item \<Rightarrow> txn_server \<Rightarrow> txn_server" where
  "server_after (Chunk x first cs) srv = srv(x \<mapsto> run_ops cs (opened srv x))"
| "server_after (RollbackTo x order) srv = srv(x \<mapsto> tl (the (srv x)))"
| "server_after (Abort x) srv = srv(x := None)"
| "server_after (CommitStreamed m) srv = srv(scommit_xid m := None)"
| "server_after (Ordinary b rows c) srv = srv"

text \<open>
  What a server may do: \<open>first\<close> marks the first chunk of a transaction; a rollback names, in any
  order, only subtransactions of the frame it drops, and at least those that made a change.
\<close>

fun item_ok :: "schedule_item \<Rightarrow> txn_server \<Rightarrow> bool" where
  "item_ok (Chunk x first cs) srv = (first = (srv x = None) \<and> ops_ok cs (opened srv x))"
| "item_ok (RollbackTo x order) srv =
     (case srv x of
        Some (f # g # fs) \<Rightarrow> set order \<subseteq> set (frame_xids f) \<and> fst ` set (fr_log f) \<subseteq> set order
      | _ \<Rightarrow> False)"
| "item_ok (Abort x) srv = (srv x \<noteq> None)"
| "item_ok (CommitStreamed m) srv = (srv (scommit_xid m) \<noteq> None)"
| "item_ok (Ordinary b rows c) srv =
     (srv (begin_xid b) = None \<and> (\<forall>m \<in> set rows. is_row m \<and> row_subxid m = None)
      \<and> commit_commit_lsn c = begin_final_lsn b)"

text \<open>Both sides as actions: the assembler fed an item's messages, and the server.\<close>

definition handed_out :: "exn + transaction option list \<Rightarrow> exn + transaction list" where
  "handed_out r = rmap (List.map_filter id) r"

definition feed_item :: "schedule_item \<Rightarrow> (assembler, exn, transaction list) action" where
  "feed_item item a =
     (let (r, a') = arun feed (item_messages item) a in (handed_out r, a'))"

definition server_item :: "schedule_item \<Rightarrow> (txn_server, exn, transaction list) action" where
  "server_item item srv = (Inr (server_commits item srv), server_after item srv)"

definition bucket_for :: "int \<Rightarrow> pending option \<Rightarrow> frame list option \<Rightarrow> bool" where
  "bucket_for x b st =
     (case st of
        None \<Rightarrow> b = None
      | Some st \<Rightarrow> stack_ok x st \<and> (\<exists>p. b = Some p \<and> bucket_log p (stack_log st)))"

definition asm_sim :: "assembler \<Rightarrow> txn_server \<Rightarrow> bool" where
  "asm_sim a srv =
     (asm_current_xid a = None \<and> asm_active_stream_xid a = None
      \<and> (\<forall>x. bucket_for x (map_of (asm_pending a) x) (srv x)))"


section \<open>Frames\<close>

lemma stack_log_simps [simp]:
  "stack_log [] = []"
  "stack_log (f # fs) = stack_log fs @ fr_log f"
  by (simp_all add: stack_log_def)

lemma stack_xids_simps [simp]:
  "stack_xids [] = {}"
  "stack_xids (f # fs) = set (frame_xids f) \<union> stack_xids fs"
  by (auto simp: stack_xids_def)

lemma frame_init_simps [simp]:
  "fr_xid (frame_init x) = x"
  "frame_xids (frame_init x) = [x]"
  "fr_log (frame_init x) = []"
  "fr_released (frame_init x) = []"
  by (simp_all add: frame_init_def frame_xids_def)

lemma stack_ok_init [simp]: "stack_ok x [frame_init x]"
  by (simp add: stack_ok_def)

lemma op_step_ok: "stack_ok x st \<Longrightarrow> op_ok c st \<Longrightarrow> stack_ok x (op_step c st)"
  by (induction c st rule: op_step.induct) (auto simp: stack_ok_def frame_xids_def)

lemma tags_in_xids: "frames_ok st \<Longrightarrow> fst ` set (stack_log st) \<subseteq> stack_xids st"
  by (induction st) auto

lemma tl_ok: "stack_ok x (f # g # fs) \<Longrightarrow> stack_ok x (g # fs)"
  by (auto simp: stack_ok_def)

text \<open>Dropping the top frame is cutting the log at the first of its subtransactions.\<close>

lemma rollback_log:
  assumes "frames_ok (f # fs)" and "set order \<subseteq> set (frame_xids f)"
    and "fst ` set (fr_log f) \<subseteq> set order"
  shows "fold before_tag order (stack_log (f # fs)) = stack_log fs"
proof -
  have "\<forall>c \<in> set (stack_log fs). fst c \<notin> set order"
    using assms(1,2) tags_in_xids [of fs] by auto
  moreover have "takeWhile (\<lambda>c. fst c \<notin> set order) (fr_log f) = []"
    using assms(3) by (cases "fr_log f") auto
  ultimately show ?thesis by (simp add: before_tags takeWhile_append2)
qed


section \<open>Feeding runs of messages\<close>

definition quiet :: "transaction option list \<Rightarrow> bool" where
  "quiet rs = list_all (\<lambda>r. r = None) rs"

lemma quiet_simps [simp]:
  "quiet []"
  "quiet (r # rs) = (r = None \<and> quiet rs)"
  "quiet (rs @ rs') = (quiet rs \<and> quiet rs')"
  by (simp_all add: quiet_def)

lemma handed_out_quiet [simp]: "quiet rs \<Longrightarrow> handed_out (Inr rs) = Inr []"
  by (induction rs) (auto simp: handed_out_def rmap_def List.map_filter_def)

lemma handed_out_last: "quiet rs \<Longrightarrow> handed_out (Inr (rs @ [Some t])) = Inr [t]"
  by (induction rs) (auto simp: handed_out_def rmap_def List.map_filter_def)

text \<open>The messages of a chunk, the aborts of a rollback and the rows of an ordinary transaction all
  only change one bucket.\<close>

lemma feed_ops:
  "open_xid a = Some x \<Longrightarrow> map_of (asm_pending a) x = Some p \<Longrightarrow> bucket_log p (stack_log st) \<Longrightarrow>
   stack_ok x st \<Longrightarrow> ops_ok cs st \<Longrightarrow>
   \<exists>rs p'. arun feed (concat (map op_messages cs)) a = (Inr rs, put_bucket x p' a) \<and> quiet rs
     \<and> bucket_log p' (stack_log (run_ops cs st)) \<and> stack_ok x (run_ops cs st)"
proof (induction cs arbitrary: a p st)
  case Nil
  then show ?case by (auto simp: run_ops_def put_bucket_same intro!: exI [of _ p])
next
  case (Cons c cs)
  have ok: "op_ok c st" and oks: "ops_ok cs (op_step c st)" using Cons.prems(5) by simp_all
  have st': "stack_ok x (op_step c st)" by (rule op_step_ok [OF Cons.prems(4) ok])
  have run: "run_ops (c # cs) st = run_ops cs (op_step c st)" by (simp add: run_ops_def)
  show ?case
  proof (cases c)
    case (Row m)
    obtain f fs where f: "st = f # fs" using Cons.prems(4) by (cases st) (auto simp: stack_ok_def)
    let ?p = "bucket_append (row_subxid m) (row_changes m) p"
    have "bucket_log ?p (stack_log (op_step c st))"
      using ok Row f bucket_log_append [OF Cons.prems(3), of "fr_xid f" "row_changes m"] by simp
    with Cons.IH [of "put_bucket x ?p a" ?p "op_step c st"] Cons.prems st' oks
    obtain rs p' where
      "arun feed (concat (map op_messages cs)) (put_bucket x ?p a) = (Inr rs, put_bucket x p' a)"
      "quiet rs" "bucket_log p' (stack_log (run_ops cs (op_step c st)))"
      "stack_ok x (run_ops cs (op_step c st))" by auto
    moreover have "feed m a = (Inr None, put_bucket x ?p a)"
      using ok Row Cons.prems feed_row by simp
    ultimately show ?thesis using Row run by (auto intro!: exI [of _ "None # rs"])
  next
    case (Savepoint s)
    then have "stack_log (op_step c st) = stack_log st" by simp
    then show ?thesis using Cons.IH [of a p "op_step c st"] Cons.prems st' oks run Savepoint by simp
  next
    case Release
    then obtain f g fs where "st = f # g # fs"
      using ok by (cases st; cases "tl st") auto
    then have "stack_log (op_step c st) = stack_log st" using Release by simp
    then show ?thesis using Cons.IH [of a p "op_step c st"] Cons.prems st' oks run Release by simp
  qed
qed

lemma feed_aborts:
  "map_of (asm_pending a) x = Some p \<Longrightarrow> bucket_log p cl \<Longrightarrow> x \<notin> set order \<Longrightarrow>
   \<exists>rs p'. arun feed (map (\<lambda>s. StreamAbort \<lparr>abort_xid = x, abort_subxid = s\<rparr>) order) a
           = (Inr rs, put_bucket x p' a)
     \<and> quiet rs \<and> bucket_log p' (fold before_tag order cl)"
proof (induction order arbitrary: a p cl)
  case Nil
  then show ?case by (auto simp: put_bucket_same intro!: exI [of _ p])
next
  case (Cons s order)
  let ?p = "discard_subxact s p"
  have "feed (StreamAbort \<lparr>abort_xid = x, abort_subxid = s\<rparr>) a = (Inr None, put_bucket x ?p a)"
    using Cons.prems by (simp add: no_transaction_def stream_abort_def put_bucket_def abind_split)
  moreover obtain rs p' where
    "arun feed (map (\<lambda>s. StreamAbort \<lparr>abort_xid = x, abort_subxid = s\<rparr>) order) (put_bucket x ?p a)
       = (Inr rs, put_bucket x p' a)"
    "quiet rs" "bucket_log p' (fold before_tag order (before_tag s cl))"
    using Cons.IH [of "put_bucket x ?p a" ?p "before_tag s cl"] Cons.prems bucket_log_discard by auto
  ultimately show ?case by (auto intro!: exI [of _ "None # rs"])
qed

lemma feed_rows:
  "open_xid a = Some x \<Longrightarrow> map_of (asm_pending a) x = Some p \<Longrightarrow>
   \<forall>m \<in> set rows. is_row m \<and> row_subxid m = None \<Longrightarrow>
   \<exists>rs p'. arun feed rows a = (Inr rs, put_bucket x p' a) \<and> quiet rs
     \<and> pnd_changes p' = pnd_changes p @ concat (map row_changes rows)
     \<and> pnd_final_lsn p' = pnd_final_lsn p"
proof (induction rows arbitrary: a p)
  case Nil
  then show ?case by (auto simp: put_bucket_same intro!: exI [of _ p])
next
  case (Cons m rows)
  let ?p = "bucket_append None (row_changes m) p"
  have "feed m a = (Inr None, put_bucket x ?p a)" using Cons.prems feed_row [of m a x p] by simp
  moreover obtain rs p' where
    "arun feed rows (put_bucket x ?p a) = (Inr rs, put_bucket x p' a)" "quiet rs"
    "pnd_changes p' = pnd_changes ?p @ concat (map row_changes rows)"
    "pnd_final_lsn p' = pnd_final_lsn ?p"
    using Cons.IH [of "put_bucket x ?p a" ?p] Cons.prems by auto
  ultimately show ?case by (auto intro!: exI [of _ "None # rs"])
qed


section \<open>The simulation\<close>

lemma bucket_for_simps [simp]:
  "bucket_for x b None \<longleftrightarrow> b = None"
  "bucket_for x None (Some st) = False"
  "bucket_for x (Some p) (Some st) \<longleftrightarrow> stack_ok x st \<and> bucket_log p (stack_log st)"
  by (auto simp: bucket_for_def)

lemma asm_sim_for: "asm_sim a srv \<Longrightarrow> bucket_for x (map_of (asm_pending a) x) (srv x)"
  by (simp add: asm_sim_def)

lemma asm_sim_open:
  "asm_sim a srv \<Longrightarrow> srv x = Some st \<Longrightarrow>
   \<exists>p. map_of (asm_pending a) x = Some p \<and> bucket_log p (stack_log st) \<and> stack_ok x st"
  using asm_sim_for [of a srv x] by (auto simp: bucket_for_def)

lemma asm_sim_closed: "asm_sim a srv \<Longrightarrow> map_of (asm_pending a) x = None \<longleftrightarrow> srv x = None"
  using asm_sim_for [of a srv x] by (cases "srv x") (auto simp: bucket_for_def)

lemma asm_sim_idle:
  "asm_sim a srv \<Longrightarrow> asm_current_xid a = None \<and> asm_active_stream_xid a = None"
  by (simp add: asm_sim_def)

text \<open>The three ways an item leaves the two sides related: one bucket replaced, one gone, none.\<close>

lemma asm_sim_put:
  assumes "asm_sim a srv" and "bucket_log p (stack_log st)" and "stack_ok x st"
    and "map_of (asm_pending a') = (map_of (asm_pending a))(x \<mapsto> p)"
    and "asm_current_xid a' = None" and "asm_active_stream_xid a' = None"
  shows "asm_sim a' (srv(x \<mapsto> st))"
  using assms by (simp add: asm_sim_def)

lemma asm_sim_drop:
  assumes "asm_sim a srv" and "map_of (asm_pending a') = (map_of (asm_pending a))(x := None)"
    and "asm_current_xid a' = None" and "asm_active_stream_xid a' = None"
  shows "asm_sim a' (srv(x := None))"
  using assms by (simp add: asm_sim_def)

lemma feed_chunk:
  assumes sim: "asm_sim a srv" and ok: "item_ok (Chunk x first cs) srv"
  shows "\<exists>a'. feed_item (Chunk x first cs) a = (Inr [], a')
           \<and> asm_sim a' (server_after (Chunk x first cs) srv)"
proof -
  let ?st = "opened srv x"
  have st: "stack_ok x ?st"
    using asm_sim_open [OF sim] by (auto simp: opened_def split: option.split)
  obtain p where start: "feed (StreamStart \<lparr>start_xid = x, start_first_segment = first\<rparr>) a
      = (Inr None, put_bucket x p (a\<lparr>asm_active_stream_xid := Some x\<rparr>))"
    and p: "bucket_log p (stack_log ?st)"
  proof (cases "srv x")
    case None
    then have "first" "map_of (asm_pending a) x = None"
      using ok asm_sim_closed [OF sim] by auto
    then show ?thesis
      using that [of "pending_init None"] None
      by (simp add: no_transaction_def stream_start_def abind_split put_bucket_def opened_def)
  next
    case (Some st)
    then obtain p where "map_of (asm_pending a) x = Some p" "bucket_log p (stack_log st)"
      using asm_sim_open [OF sim] by blast
    then show ?thesis
      using that [of p] Some ok
      by (simp add: no_transaction_def stream_start_def abind_split put_bucket_same opened_def)
  qed
  let ?a = "put_bucket x p (a\<lparr>asm_active_stream_xid := Some x\<rparr>)"
  have "open_xid ?a = Some x" by (simp add: open_xid_def)
  then obtain rs p' where rows: "arun feed (concat (map op_messages cs)) ?a = (Inr rs, put_bucket x p' ?a)"
    "quiet rs" "bucket_log p' (stack_log (run_ops cs ?st))" "stack_ok x (run_ops cs ?st)"
    using feed_ops [of ?a x p ?st cs] p st ok by auto
  let ?a' = "put_bucket x p' ?a\<lparr>asm_active_stream_xid := None\<rparr>"
  have "feed_item (Chunk x first cs) a = (Inr [], ?a')"
    using start rows(1,2)
    by (simp add: feed_item_def arun_append no_transaction_def stream_stop_def abind_split)
  moreover have "asm_sim ?a' (server_after (Chunk x first cs) srv)"
    using asm_sim_put [OF sim rows(3,4), of ?a'] asm_sim_idle [OF sim] by (simp add: put_bucket_def)
  ultimately show ?thesis by blast
qed

lemma feed_rollback:
  assumes sim: "asm_sim a srv" and ok: "item_ok (RollbackTo x order) srv"
  shows "\<exists>a'. feed_item (RollbackTo x order) a = (Inr [], a')
           \<and> asm_sim a' (server_after (RollbackTo x order) srv)"
proof -
  obtain f g fs where st: "srv x = Some (f # g # fs)"
    and order: "set order \<subseteq> set (frame_xids f)" "fst ` set (fr_log f) \<subseteq> set order"
    using ok by (auto split: option.splits list.splits)
  obtain p where p: "map_of (asm_pending a) x = Some p" "bucket_log p (stack_log (f # g # fs))"
    and stack: "stack_ok x (f # g # fs)"
    using asm_sim_open [OF sim st] by blast
  have "x \<in> stack_xids (g # fs)"
    using stack by (auto simp: stack_ok_def stack_xids_def frame_xids_def intro!: bexI [of _ "last (g # fs)"])
  then have "x \<notin> set order" using stack order by (auto simp: stack_ok_def)
  then obtain rs p' where run:
    "arun feed (map (\<lambda>s. StreamAbort \<lparr>abort_xid = x, abort_subxid = s\<rparr>) order) a
       = (Inr rs, put_bucket x p' a)" "quiet rs"
    "bucket_log p' (fold before_tag order (stack_log (f # g # fs)))"
    using feed_aborts [OF p] by blast
  then have "bucket_log p' (stack_log (g # fs))"
    using rollback_log [of f "g # fs"] stack order by (simp add: stack_ok_def)
  then have "asm_sim (put_bucket x p' a) (server_after (RollbackTo x order) srv)"
    using asm_sim_put [OF sim _ tl_ok [OF stack], of p' "put_bucket x p' a"] asm_sim_idle [OF sim] st
    by simp
  then show ?thesis using run by (simp add: feed_item_def)
qed

lemma feed_abort:
  assumes sim: "asm_sim a srv"
  shows "\<exists>a'. feed_item (Abort x) a = (Inr [], a') \<and> asm_sim a' (server_after (Abort x) srv)"
proof -
  let ?a' = "a\<lparr>asm_pending := AList.delete x (asm_pending a)\<rparr>"
  have "feed_item (Abort x) a = (Inr [], ?a')"
    using asm_sim_idle [OF sim]
    by (simp add: feed_item_def no_transaction_def stream_abort_def leave_stream_def abind_split)
  moreover have "asm_sim ?a' (srv(x := None))"
    using asm_sim_idle [OF sim] by (intro asm_sim_drop [OF sim]) auto
  ultimately show ?thesis by auto
qed

lemma feed_commit:
  assumes sim: "asm_sim a srv" and ok: "item_ok (CommitStreamed m) srv"
  shows "\<exists>a'. feed_item (CommitStreamed m) a = (Inr (server_commits (CommitStreamed m) srv), a')
           \<and> asm_sim a' (server_after (CommitStreamed m) srv)"
proof -
  let ?x = "scommit_xid m"
  let ?a' = "a\<lparr>asm_pending := AList.delete ?x (asm_pending a)\<rparr>"
  obtain st where st: "srv ?x = Some st" using ok by auto
  obtain p where p: "map_of (asm_pending a) ?x = Some p" "bucket_log p (stack_log st)"
    using asm_sim_open [OF sim st] by blast
  have "feed_item (CommitStreamed m) a = (Inr (server_commits (CommitStreamed m) srv), ?a')"
    using asm_sim_idle [OF sim] st p handed_out_last [of "[]"]
    by (simp add: feed_item_def one_transaction_def stream_commit_def leave_stream_def abind_split
        build_transaction_def committed_def bucket_log_def Let_def)
  moreover have "asm_sim ?a' (srv(?x := None))"
    using asm_sim_idle [OF sim] by (intro asm_sim_drop [OF sim]) auto
  ultimately show ?thesis by auto
qed

lemma feed_ordinary:
  assumes sim: "asm_sim a srv" and ok: "item_ok (Ordinary b rows c) srv"
  shows "\<exists>a'. feed_item (Ordinary b rows c) a = (Inr (server_commits (Ordinary b rows c) srv), a')
           \<and> asm_sim a' (server_after (Ordinary b rows c) srv)"
proof -
  let ?x = "begin_xid b"
  let ?p = "pending_init (Some (begin_final_lsn b))"
  let ?a = "put_bucket ?x ?p (a\<lparr>asm_current_xid := Some ?x\<rparr>)"
  have closed: "srv ?x = None" "map_of (asm_pending a) ?x = None"
    using ok asm_sim_closed [OF sim] by auto
  have start: "feed (Begin b) a = (Inr None, ?a)"
    using asm_sim_idle [OF sim] closed
    by (simp add: no_transaction_def assembler_begin_def abind_split put_bucket_def)
  have "open_xid ?a = Some ?x" using asm_sim_idle [OF sim] by (simp add: open_xid_def)
  then obtain rs p' where rows: "arun feed rows ?a = (Inr rs, put_bucket ?x p' ?a)" "quiet rs"
    "pnd_changes p' = concat (map row_changes rows)" "pnd_final_lsn p' = Some (begin_final_lsn b)"
    using feed_rows [of ?a ?x ?p rows] ok by (auto simp: pending_init_def)
  let ?a' = "(put_bucket ?x p' ?a)\<lparr>asm_pending := AList.delete ?x (asm_pending (put_bucket ?x p' ?a)),
               asm_current_xid := None\<rparr>"
  have "feed (Commit c) (put_bucket ?x p' ?a)
      = (Inr (Some (build_transaction ?x (pnd_changes p') (commit_end_lsn c) (commit_commit_time c))), ?a')"
    using rows(4) ok by (simp add: one_transaction_def finish_def abind_split)
  then have "feed_item (Ordinary b rows c) a = (Inr (server_commits (Ordinary b rows c) srv), ?a')"
    using start rows(1,2,3) handed_out_last [of "None # rs"]
    by (simp add: feed_item_def arun_append build_transaction_def committed_def)
  moreover have "asm_sim ?a' (srv(?x := None))"
    using asm_sim_idle [OF sim] by (intro asm_sim_drop [OF sim]) auto
  ultimately show ?thesis using closed(1) by (auto simp: fun_upd_idem)
qed

lemma feed_item_sim:
  assumes "asm_sim a srv" and "item_ok item srv"
  shows "fst (feed_item item a) = Inr (server_commits item srv)
       \<and> asm_sim (snd (feed_item item a)) (server_after item srv)"
proof (cases item)
  case (Chunk x first cs)
  then show ?thesis using feed_chunk [of a srv x first cs] assms by auto
next
  case (RollbackTo x order)
  then show ?thesis using feed_rollback [of a srv x order] assms by auto
next
  case (Abort x)
  then show ?thesis using feed_abort [of a srv x] assms by auto
next
  case (CommitStreamed m)
  then show ?thesis using feed_commit [of a srv m] assms by auto
next
  case (Ordinary b rows c)
  then show ?thesis using feed_ordinary [of a srv b rows c] assms by auto
qed

interpretation assembler_sim: simulation feed_item server_item item_ok asm_sim
  by unfold_locales (simp_all add: feed_item_sim server_item_def)

lemma asm_sim_init: "asm_sim assembler_init (\<lambda>_. None)"
  by (simp add: asm_sim_def assembler_init_def)


section \<open>Properties\<close>

fun schedule_ok :: "schedule_item list \<Rightarrow> txn_server \<Rightarrow> bool" where
  "schedule_ok [] srv = True"
| "schedule_ok (i # is) srv = (item_ok i srv \<and> schedule_ok is (server_after i srv))"

lemma schedule_all_ok: "schedule_ok items srv \<Longrightarrow> assembler_sim.all_ok items srv"
  by (induction items arbitrary: srv) (simp_all add: server_item_def)

text \<open>What the server commits over a schedule, and the transactions it leaves open.\<close>

fun server_run :: "schedule_item list \<Rightarrow> txn_server \<Rightarrow> transaction list list \<times> txn_server" where
  "server_run [] srv = ([], srv)"
| "server_run (i # is) srv =
     (let (ts, srv') = server_run is (server_after i srv) in (server_commits i srv # ts, srv'))"

lemma server_run_arun:
  "arun server_item items srv = (Inr (fst (server_run items srv)), snd (server_run items srv))"
  by (induction items arbitrary: srv) (auto simp: server_item_def split: prod.splits)

text \<open>C2: over any schedule a server may send, with the chunks of several streamed transactions
  interleaved with each other and with whole ordinary transactions, savepoints taken, released and
  rolled back, the aborts of one rollback in any order, the assembler never raises and hands out, at
  each commit, exactly the transaction the server committed: its xid, \<open>end_lsn - 1\<close> as the commit
  LSN, its time, and the changes that were not rolled back, in the order they were made. Afterwards a
  bucket is left for exactly the streamed transactions that are still open.\<close>

theorem assembler_delivers_committed_transactions:
  assumes "schedule_ok items (\<lambda>_. None)"
  shows "fst (arun feed_item items assembler_init) = Inr (fst (server_run items (\<lambda>_. None)))
       \<and> (\<forall>x. map_of (asm_pending (snd (arun feed_item items assembler_init))) x = None
            \<longleftrightarrow> snd (server_run items (\<lambda>_. None)) x = None)"
  using assembler_sim.sim_run [OF asm_sim_init schedule_all_ok [OF assms]] asm_sim_closed
  by (simp add: server_run_arun)

definition demo_insert :: "int option \<Rightarrow> nat \<Rightarrow> pgoutput_message" where
  "demo_insert subxid n =
     Insert \<lparr>ins_relation_id = 7, ins_table = lit ''t'', ins_new = [(lit ''id'', Some [n])],
             ins_subxid = subxid\<rparr>"

definition demo_schedule :: "schedule_item list" where
  "demo_schedule =
     [Chunk 9 True [Row (demo_insert (Some 9) 1), Savepoint 10, Row (demo_insert (Some 10) 2),
                    Savepoint 11, Row (demo_insert (Some 11) 3), Release],
      Ordinary \<lparr>begin_final_lsn = 50, begin_commit_time = 0, begin_xid = 12\<rparr>
        [demo_insert None 4]
        \<lparr>commit_flags = 0, commit_commit_lsn = 50, commit_end_lsn = 60, commit_commit_time = 0\<rparr>,
      Chunk 13 True [Row (demo_insert (Some 13) 5)],
      RollbackTo 9 [11, 10],
      Chunk 9 False [Row (demo_insert (Some 9) 6)],
      CommitStreamed \<lparr>scommit_xid = 9, scommit_commit_lsn = 70, scommit_end_lsn = 80,
                      scommit_commit_time = 0\<rparr>]"

theorem assembler_delivers_committed_transactions_witness:
  "schedule_ok demo_schedule (\<lambda>_. None)
   \<and> fst (arun feed_item demo_schedule assembler_init)
     = Inr [[], [committed 12 60 0 (row_changes (demo_insert None 4))], [], [], [],
            [committed 9 80 0 (row_changes (demo_insert None 1) @ row_changes (demo_insert None 6))]]
   \<and> map_of (asm_pending (snd (arun feed_item demo_schedule assembler_init))) 9 = None"
proof -
  have ok: "schedule_ok demo_schedule (\<lambda>_. None)"
    by (simp add: demo_schedule_def demo_insert_def opened_def run_ops_def frame_xids_def)
  have "fst (server_run demo_schedule (\<lambda>_. None))
      = [[], [committed 12 60 0 (row_changes (demo_insert None 4))], [], [], [],
         [committed 9 80 0 (row_changes (demo_insert None 1) @ row_changes (demo_insert None 6))]]"
    "snd (server_run demo_schedule (\<lambda>_. None)) 9 = None"
    by (simp_all add: demo_schedule_def demo_insert_def opened_def run_ops_def frame_init_def)
  then show ?thesis
    using ok assembler_delivers_committed_transactions [OF ok] by simp
qed

end
