(* ===== verification/Async_Queue.thy ===== *)
theory Async_Queue
  imports Errors
begin

text \<open>
  The part of \<open>asyncio.Queue\<close> the client uses (\<open>put_nowait\<close>, \<open>put\<close>, \<open>get\<close>,
  \<open>qsize\<close>, \<open>shutdown(immediate=True)\<close>) and the contract the client rests on, a bounded
  first-in first-out channel, as a locale. \<open>put\<close> and \<open>get\<close> may have to wait: a waiting call
  is one whose \<open>ready\<close> condition does not hold yet.
\<close>

record 'x async_queue =
  q_maxsize :: int
  q_items :: "'x list"
  q_is_shutdown :: bool

definition queue_init :: "int \<Rightarrow> 'x async_queue" where
  "queue_init maxsize = \<lparr>q_maxsize = maxsize, q_items = [], q_is_shutdown = False\<rparr>"

definition qsize :: "'x async_queue \<Rightarrow> int" where
  "qsize q = int (length (q_items q))"

definition queue_full :: "'x async_queue \<Rightarrow> bool" where
  "queue_full q = (0 < q_maxsize q \<and> q_maxsize q \<le> qsize q)"

definition put_nowait :: "'x \<Rightarrow> ('x async_queue, exn, unit) action" where
  "put_nowait x q =
     (if q_is_shutdown q then (Inl QueueShutDown, q)
      else if queue_full q then (Inl QueueFull, q)
      else (Inr (), q\<lparr>q_items := q_items q @ [x]\<rparr>))"

text \<open>A pending \<open>put\<close> goes on once there is room or the queue is shut down.\<close>

definition put_ready :: "'x async_queue \<Rightarrow> bool" where
  "put_ready q = (q_is_shutdown q \<or> \<not> queue_full q)"

definition get_ready :: "'x async_queue \<Rightarrow> bool" where
  "get_ready q = (q_is_shutdown q \<or> q_items q \<noteq> [])"

definition queue_get :: "('x async_queue, exn, 'x) action" where
  "queue_get q =
     (case q_items q of
        [] \<Rightarrow> (Inl QueueShutDown, q)
      | x # xs \<Rightarrow> (Inr x, q\<lparr>q_items := xs\<rparr>))"

definition shutdown_immediate :: "'x async_queue \<Rightarrow> 'x async_queue" where
  "shutdown_immediate q = q\<lparr>q_items := [], q_is_shutdown := True\<rparr>"


section \<open>The contract\<close>

text \<open>A channel: what a successful put and a successful get do to its contents.\<close>

locale fifo_channel =
  fixes put :: "'x \<Rightarrow> ('q, 'e, unit) action"
    and get :: "('q, 'e, 'x) action"
    and contents :: "'q \<Rightarrow> 'x list"
  assumes put_contents: "put x q = (Inr (), q') \<Longrightarrow> contents q' = contents q @ [x]"
    and put_failed: "put x q = (Inl e, q') \<Longrightarrow> contents q' = contents q"
    and get_contents: "get q = (Inr x, q') \<Longrightarrow> contents q = x # contents q'"
    and get_failed: "get q = (Inl e, q') \<Longrightarrow> contents q' = contents q"
begin

text \<open>A producer and a consumer taking turns: what was put in, and what came out.\<close>

fun traffic :: "'x option list \<Rightarrow> 'q \<Rightarrow> 'x list \<times> 'x list \<times> 'q" where
  "traffic [] q = ([], [], q)"
| "traffic (Some x # turns) q =
     (let (r, q') = put x q; (ins, outs, q'') = traffic turns q'
      in (case r of Inl _ \<Rightarrow> ins | Inr _ \<Rightarrow> x # ins, outs, q''))"
| "traffic (None # turns) q =
     (let (r, q') = get q; (ins, outs, q'') = traffic turns q'
      in (ins, case r of Inl _ \<Rightarrow> outs | Inr x \<Rightarrow> x # outs, q''))"

lemma first_in_first_out:
  "traffic turns q = (ins, outs, q') \<Longrightarrow> contents q @ ins = outs @ contents q'"
proof (induction turns q arbitrary: ins outs q' rule: traffic.induct)
  case (1 q)
  then show ?case by simp
next
  case (2 x turns q)
  obtain r q1 where r: "put x q = (r, q1)" by fastforce
  obtain ins' outs' q2 where t: "traffic turns q1 = (ins', outs', q2)" by (cases "traffic turns q1") auto
  from "2.IH" r t have "contents q1 @ ins' = outs' @ contents q2" by simp
  then show ?case using "2.prems" r t put_contents [of x q q1] put_failed [of x q _ q1]
    by (cases r) auto
next
  case (3 turns q)
  obtain r q1 where r: "get q = (r, q1)" by fastforce
  obtain ins' outs' q2 where t: "traffic turns q1 = (ins', outs', q2)" by (cases "traffic turns q1") auto
  from "3.IH" r t have "contents q1 @ ins' = outs' @ contents q2" by simp
  then show ?case using "3.prems" r t get_contents [of q _ q1] get_failed [of q _ q1]
    by (cases r) auto
qed

end

text \<open>A bounded channel also keeps a bound on its size.\<close>

locale bounded_channel = fifo_channel put get contents
  for put :: "'x \<Rightarrow> ('q, 'e, unit) action" and get :: "('q, 'e, 'x) action"
    and contents :: "'q \<Rightarrow> 'x list" +
  fixes fits :: "'q \<Rightarrow> bool"
  assumes put_fits: "fits q \<Longrightarrow> fits (snd (put x q))"
    and get_fits: "fits q \<Longrightarrow> fits (snd (get q))"
begin

lemma traffic_fits: "fits q \<Longrightarrow> fits (snd (snd (traffic turns q)))"
proof (induction turns q rule: traffic.induct)
  case (2 x turns q)
  have "snd (snd (traffic (Some x # turns) q)) = snd (snd (traffic turns (snd (put x q))))"
    by (simp add: case_prod_beta Let_def)
  then show ?case using "2.IH" [of "put x q" "fst (put x q)" "snd (put x q)"] "2.prems" put_fits by simp
next
  case (3 turns q)
  have "snd (snd (traffic (None # turns) q)) = snd (snd (traffic turns (snd (get q))))"
    by (simp add: case_prod_beta Let_def)
  then show ?case using "3.IH" [of "get q" "fst (get q)" "snd (get q)"] "3.prems" get_fits by simp
qed simp

end

definition queue_fits :: "'x async_queue \<Rightarrow> bool" where
  "queue_fits q = (0 < q_maxsize q \<longrightarrow> qsize q \<le> q_maxsize q)"

interpretation walbox_queue: bounded_channel put_nowait queue_get q_items queue_fits
proof unfold_locales
  show "queue_fits q \<Longrightarrow> queue_fits (snd (put_nowait x q))" for q :: "'x async_queue" and x
    by (auto simp: queue_fits_def put_nowait_def queue_full_def qsize_def)
qed (auto simp: put_nowait_def queue_get_def queue_fits_def qsize_def split: if_splits list.splits)

lemma put_nowait_maxsize [simp]: "q_maxsize (snd (put_nowait x q)) = q_maxsize q"
  by (simp add: put_nowait_def)

lemma queue_get_maxsize [simp]: "q_maxsize (snd (queue_get q)) = q_maxsize q"
  by (simp add: queue_get_def split: list.split)

lemma shutdown_simps [simp]:
  "q_items (shutdown_immediate q) = []"
  "q_is_shutdown (shutdown_immediate q)"
  "q_maxsize (shutdown_immediate q) = q_maxsize q"
  "queue_fits (shutdown_immediate q)"
  by (auto simp: shutdown_immediate_def queue_fits_def qsize_def)

lemma queue_init_simps [simp]:
  "q_items (queue_init n) = []"
  "\<not> q_is_shutdown (queue_init n)"
  "q_maxsize (queue_init n) = n"
  "queue_fits (queue_init n)"
  by (auto simp: queue_init_def queue_fits_def qsize_def)

end
