(* ===== verification/Client.thy ===== *)
theory Client
  imports Assembler Async_Queue
begin

text \<open>
  \<open>walbox/client.py\<close>, operation by operation: the state of a \<open>Client\<close> and what each of its
  methods does to it between two suspension points. Time readings, the answers of the transport and
  the checkpoint store are arguments; how the receiver, the consumer and the application interleave is
  the subject of \<open>Client_System\<close>. Log calls are left out.
\<close>

section \<open>State\<close>

record client =
  cl_options :: walbox_options
  cl_has_transport :: bool
  cl_decoder :: decoder
  cl_assembler :: assembler
  cl_last_written_lsn :: int
  cl_durable_lsn :: int
  cl_next_backoff :: pyfloat
  cl_queue :: "transaction async_queue"
  cl_closing :: bool
  cl_next_status_at :: pyfloat
  cl_receive_lsn :: int
  cl_transactions_processed :: int
  cl_changes_processed :: int
  cl_reconnect_count :: int
  cl_last_handler_latency :: pyfloat
  cl_last_keepalive_wal_end :: int
  cl_last_keepalive_at :: pyfloat
  cl_last_checkpoint_latency :: pyfloat
  cl_transactions_since_checkpoint :: int

definition INITIAL_BACKOFF :: pyfloat where "INITIAL_BACKOFF = 1"
definition MAX_BACKOFF :: pyfloat where "MAX_BACKOFF = 60"

definition client_init :: "walbox_options \<Rightarrow> client" where
  "client_init opts =
     \<lparr>cl_options = opts, cl_has_transport = False, cl_decoder = decoder_init,
      cl_assembler = assembler_init, cl_last_written_lsn = 0, cl_durable_lsn = 0,
      cl_next_backoff = INITIAL_BACKOFF, cl_queue = queue_init (opt_max_pending_transactions opts),
      cl_closing = False, cl_next_status_at = 0, cl_receive_lsn = 0,
      cl_transactions_processed = 0, cl_changes_processed = 0, cl_reconnect_count = 0,
      cl_last_handler_latency = 0, cl_last_keepalive_wal_end = 0, cl_last_keepalive_at = 0,
      cl_last_checkpoint_latency = 0, cl_transactions_since_checkpoint = 0\<rparr>"


section \<open>Shutdown and back-off\<close>

definition client_close :: "client \<Rightarrow> client" where
  "client_close c = c\<lparr>cl_closing := True, cl_queue := shutdown_immediate (cl_queue c)\<rparr>"

definition next_backoff_value :: "pyfloat \<Rightarrow> pyfloat" where
  "next_backoff_value current = min (fmul current 2) MAX_BACKOFF"

text \<open>\<open>_reconnect_delay\<close> in its two halves, before and after the sleep of \<open>_next_backoff\<close>.\<close>

definition reconnect_sleep :: "client \<Rightarrow> pyfloat \<times> client" where
  "reconnect_sleep c =
     (let c = c\<lparr>cl_reconnect_count := cl_reconnect_count c + 1\<rparr> in (cl_next_backoff c, c))"

definition reconnect_wake :: "client \<Rightarrow> client" where
  "reconnect_wake c = c\<lparr>cl_next_backoff := next_backoff_value (cl_next_backoff c)\<rparr>"


section \<open>The head of a session\<close>

text \<open>\<open>_run_once\<close> up to the connection attempt, given what \<open>checkpoint_store.load()\<close> returned:
  the LSN to start from, and the client.\<close>

definition session_load :: "int option \<Rightarrow> client \<Rightarrow> int \<times> client" where
  "session_load checkpoint_lsn c =
     (case checkpoint_lsn of
        None \<Rightarrow> (0, c\<lparr>cl_durable_lsn := 0, cl_has_transport := True\<rparr>)
      | Some l \<Rightarrow> (l + 1, c\<lparr>cl_durable_lsn := l, cl_has_transport := True\<rparr>))"

definition session_subscribed :: "pyfloat \<Rightarrow> client \<Rightarrow> client" where
  "session_subscribed now c =
     c\<lparr>cl_next_backoff := INITIAL_BACKOFF,
       cl_next_status_at := fadd now (of_int (opt_status_interval (cl_options c)))\<rparr>"

text \<open>
  The exception a task group of failed tasks leaves \<open>_run_once\<close> with: \<open>except*\<close> takes the
  connection errors out and raises the first of them; what is left over is raised beside it.
\<close>

definition unwrap_group :: "exn list \<Rightarrow> exn" where
  "unwrap_group es =
     (case filter is_connection_error es of
        [] \<Rightarrow> ExceptionGroup es
      | e # _ \<Rightarrow>
          (case filter (\<lambda>e. \<not> is_connection_error e) es of
             [] \<Rightarrow> e
           | others \<Rightarrow> ExceptionGroup [e, ExceptionGroup others]))"


section \<open>Feedback and metrics\<close>

definition current_status :: "bool \<Rightarrow> int \<Rightarrow> client \<Rightarrow> standby_status_update" where
  "current_status reply_requested elapsed c =
     \<lparr>written_lsn = cl_last_written_lsn c, flushed_lsn = cl_durable_lsn c,
      applied_lsn = cl_durable_lsn c, client_time = pg_now_micros elapsed,
      status_reply_requested = reply_requested\<rparr>"

text \<open>\<open>_send_status_update\<close>: \<open>write\<close> is the transport's answer to the payload; the result is
  the payload that was sent.\<close>

definition send_status_update :: "bool \<Rightarrow> int \<Rightarrow> (bytes \<Rightarrow> exn + unit) \<Rightarrow> client \<Rightarrow> exn + bytes" where
  "send_status_update reply_requested elapsed write c =
     (if \<not> cl_has_transport c then Inl AssertionError
      else rbind (encode_standby_status_update (current_status reply_requested elapsed c)) (\<lambda>payload.
           rbind (write payload) (\<lambda>_. Inr payload)))"

definition current_metrics :: "client \<Rightarrow> metrics" where
  "current_metrics c =
     \<lparr>m_consumer_name = opt_consumer_name (cl_options c),
      m_receive_lsn = cl_receive_lsn c,
      m_checkpoint_lsn = cl_durable_lsn c,
      m_replication_lag_bytes = cl_last_keepalive_wal_end c - cl_receive_lsn c,
      m_transactions_processed = cl_transactions_processed c,
      m_changes_processed = cl_changes_processed c,
      m_reconnect_count = cl_reconnect_count c,
      m_last_handler_latency_seconds = cl_last_handler_latency c,
      m_queue_depth = qsize (cl_queue c),
      m_last_keepalive_at = cl_last_keepalive_at c,
      m_last_checkpoint_latency_seconds = cl_last_checkpoint_latency c,
      m_transactions_since_checkpoint = cl_transactions_since_checkpoint c\<rparr>"

text \<open>\<open>_maybe_report_metrics\<close>: the result is the callback's exception that was logged, if any.\<close>

definition maybe_report_metrics :: "client \<Rightarrow> exn + exn option" where
  "maybe_report_metrics c =
     (case opt_on_metrics (cl_options c) of
        None \<Rightarrow> Inr None
      | Some callback \<Rightarrow> Inr (callback (current_metrics c)))"

text \<open>One turn of the loop in \<open>_await_with_status_updates\<close> that ends in a timeout.\<close>

definition status_timeout :: "pyfloat \<Rightarrow> client \<Rightarrow> pyfloat" where
  "status_timeout now c = max (fsub (cl_next_status_at c) now) 0"

definition status_turn :: "int \<Rightarrow> (bytes \<Rightarrow> exn + unit) \<Rightarrow> pyfloat \<Rightarrow> (client, exn, bytes) action" where
  "status_turn elapsed write now c =
     (if cl_closing c then (Inl QueueShutDown, c)
      else case send_status_update False elapsed write c of
             Inl e \<Rightarrow> (Inl e, c)
           | Inr payload \<Rightarrow>
               (case maybe_report_metrics c of
                  Inl e \<Rightarrow> (Inl e, c)
                | Inr _ \<Rightarrow>
                    (Inr payload,
                     c\<lparr>cl_next_status_at := fadd now (of_int (opt_status_interval (cl_options c)))\<rparr>)))"


section \<open>The receiver\<close>

text \<open>\<open>_handle_keepalive\<close>; the result is the reply that was sent, if one was asked for.\<close>

definition handle_keepalive ::
    "primary_keepalive \<Rightarrow> pyfloat \<Rightarrow> int \<Rightarrow> (bytes \<Rightarrow> exn + unit) \<Rightarrow> (client, exn, bytes option) action" where
  "handle_keepalive k now elapsed write c =
     (let c = c\<lparr>cl_last_written_lsn := max (cl_last_written_lsn c) (keepalive_wal_end k),
                cl_last_keepalive_wal_end := keepalive_wal_end k,
                cl_last_keepalive_at := now\<rparr>
      in if keepalive_reply_requested k
         then (rbind (send_status_update False elapsed write c) (\<lambda>payload. Inr (Some payload)), c)
         else (Inr None, c))"

definition is_unactionable :: "pgoutput_message \<Rightarrow> bool" where
  "is_unactionable m = (case m of Type _ \<Rightarrow> True | Origin _ \<Rightarrow> True | Message _ \<Rightarrow> True | _ \<Rightarrow> False)"

text \<open>\<open>_handle_xlog_data\<close> up to the call of \<open>_enqueue\<close>: the transaction to enqueue, if one is
  complete.\<close>

definition handle_xlog_data :: "xlog_data \<Rightarrow> (client, exn, transaction option) action" where
  "handle_xlog_data x c =
     (let c = c\<lparr>cl_last_written_lsn := max (cl_last_written_lsn c) (wal_start x),
                cl_receive_lsn := max (cl_receive_lsn c) (wal_start x)\<rparr>;
          (r, d) = decode (xlog_payload x) (cl_decoder c);
          c = c\<lparr>cl_decoder := d\<rparr>
      in case r of
           Inl e \<Rightarrow> (Inl e, c)
         | Inr m \<Rightarrow>
             if is_unactionable m then (Inr None, c)
             else let (t, a) = feed m (cl_assembler c) in (t, c\<lparr>cl_assembler := a\<rparr>))"

text \<open>\<open>_enqueue\<close> up to where it may wait: whether the transaction is in the queue already.\<close>

definition enqueue :: "transaction \<Rightarrow> (client, exn, bool) action" where
  "enqueue t c =
     (case put_nowait t (cl_queue c) of
        (Inr _, q) \<Rightarrow> (Inr True, c\<lparr>cl_queue := q\<rparr>)
      | (Inl e, q) \<Rightarrow> if e = QueueFull then (Inr False, c) else (Inl e, c))"

text \<open>What a frame made the receiver do: nothing more, send a reply, enqueue, or wait to enqueue.\<close>

datatype frame_outcome = Quiet | Replied bytes | Enqueued transaction | Waiting transaction

definition handle_frame ::
    "bytes \<Rightarrow> pyfloat \<Rightarrow> int \<Rightarrow> (bytes \<Rightarrow> exn + unit) \<Rightarrow> (client, exn, frame_outcome) action" where
  "handle_frame payload now elapsed write c =
     (case decode_replication_message payload of
        Inl e \<Rightarrow> (Inl e, c)
      | Inr (XLogData x) \<Rightarrow>
          (case handle_xlog_data x c of
             (Inl e, c) \<Rightarrow> (Inl e, c)
           | (Inr None, c) \<Rightarrow> (Inr Quiet, c)
           | (Inr (Some t), c) \<Rightarrow>
               (case enqueue t c of
                  (Inl e, c) \<Rightarrow> (Inl e, c)
                | (Inr done, c) \<Rightarrow> (Inr (if done then Enqueued t else Waiting t), c)))
      | Inr (PrimaryKeepalive k) \<Rightarrow>
          (case handle_keepalive k now elapsed write c of
             (Inl e, c) \<Rightarrow> (Inl e, c)
           | (Inr None, c) \<Rightarrow> (Inr Quiet, c)
           | (Inr (Some reply), c) \<Rightarrow> (Inr (Replied reply), c)))"


section \<open>The consumer\<close>

definition record_durable_progress :: "int \<Rightarrow> pyfloat \<Rightarrow> client \<Rightarrow> client" where
  "record_durable_progress lsn latency c =
     c\<lparr>cl_transactions_since_checkpoint := 0,
       cl_durable_lsn := max (cl_durable_lsn c) lsn,
       cl_last_checkpoint_latency := latency\<rparr>"

text \<open>\<open>_process\<close>: the handle the handler gets, what happens before the handler is called, and
  what happens once it has returned.\<close>

definition process_handle ::
    "(int \<Rightarrow> 'c option \<Rightarrow> (client \<times> 'k, exn, unit) action) \<Rightarrow> transaction
      \<Rightarrow> (client \<times> 'k, 'c) checkpoint_handle" where
  "process_handle store_save t =
     \<lparr>ch_store = store_save,
      ch_on_saved = Some (\<lambda>lsn latency (c, k). (Inr (), (record_durable_progress lsn latency c, k))),
      ch_max_lsn = Some (tx_commit_lsn t)\<rparr>"

definition process_start :: "transaction \<Rightarrow> client \<Rightarrow> client" where
  "process_start t c =
     c\<lparr>cl_transactions_processed := cl_transactions_processed c + 1,
       cl_transactions_since_checkpoint := cl_transactions_since_checkpoint c + 1,
       cl_changes_processed := cl_changes_processed c + int (length (tx_changes t))\<rparr>"

definition process_end :: "pyfloat \<Rightarrow> pyfloat \<Rightarrow> client \<Rightarrow> client" where
  "process_end handler_started_at now c = c\<lparr>cl_last_handler_latency := fsub now handler_started_at\<rparr>"

definition consume_get :: "(client, exn, transaction) action" where
  "consume_get c =
     (case queue_get (cl_queue c) of
        (Inl e, q) \<Rightarrow> (Inl e, c\<lparr>cl_queue := q\<rparr>)
      | (Inr t, q) \<Rightarrow> (Inr t, c\<lparr>cl_queue := q\<rparr>))"

end
