(* ===== verification/Pgoutput_Wire.thy ===== *)
theory Pgoutput_Wire
  imports Pgoutput
begin

unbundle bit_operations_syntax

text \<open>
  The pgoutput wire format as the server writes it, one reference encoder per message kind, and
  the round trips: each decoder of \<open>Pgoutput\<close> returns the message that was encoded, inside and
  outside a streaming bracket. The encoders model no code of the repository; they state the format
  the decoders are for. A codec interpretation per message kind gives the round trip its name.
\<close>

section \<open>Reference encoders\<close>

text \<open>What the server sends for one column: SQL NULL, an unchanged TOAST value, or text.\<close>

datatype wire_value = WNull | WUnchanged | WText pystr

type_synonym wire_tuple = "wire_value list"

definition encode_cstring :: "pystr \<Rightarrow> bytes" where
  "encode_cstring s = utf8_encode s @ [0]"

definition encode_text :: "pystr \<Rightarrow> bytes" where
  "encode_text s = be_bytes 4 (int (length (utf8_encode s))) @ utf8_encode s"

primrec encode_value :: "wire_value \<Rightarrow> bytes" where
  "encode_value WNull = blit ''n''"
| "encode_value WUnchanged = blit ''u''"
| "encode_value (WText s) = blit ''t'' @ encode_text s"

definition encode_tuple :: "wire_tuple \<Rightarrow> bytes" where
  "encode_tuple vs = be_bytes 2 (int (length vs)) @ concat (map encode_value vs)"

definition xid_prefix :: "int option \<Rightarrow> bytes" where
  "xid_prefix x = (case x of None \<Rightarrow> [] | Some n \<Rightarrow> be_bytes 4 n)"

definition encode_column :: "column \<Rightarrow> bytes" where
  "encode_column c =
     [if col_is_key c then 1 else 0] @ encode_cstring (col_name c) @ be_bytes 4 (col_type_oid c)
     @ be_bytes 4 (col_type_modifier c mod 256 ^ 4)"

definition encode_relation :: "int option \<Rightarrow> relation \<Rightarrow> bytes" where
  "encode_relation x r =
     blit ''R'' @ xid_prefix x @ be_bytes 4 (rel_id r) @ encode_cstring (rel_namespace r)
     @ encode_cstring (rel_name r) @ map of_nat (rel_replica_identity r)
     @ be_bytes 2 (int (length (rel_columns r))) @ concat (map encode_column (rel_columns r))"

definition encode_begin :: "begin_msg \<Rightarrow> bytes" where
  "encode_begin m = blit ''B'' @ be_bytes 8 (begin_final_lsn m) @ be_bytes 8 (begin_commit_time m)
     @ be_bytes 4 (begin_xid m)"

definition encode_commit :: "commit_msg \<Rightarrow> bytes" where
  "encode_commit m = blit ''C'' @ [word_of_int (commit_flags m)] @ be_bytes 8 (commit_commit_lsn m)
     @ be_bytes 8 (commit_end_lsn m) @ be_bytes 8 (commit_commit_time m)"

definition encode_insert :: "int option \<Rightarrow> int \<Rightarrow> wire_tuple \<Rightarrow> bytes" where
  "encode_insert x relid new =
     blit ''I'' @ xid_prefix x @ be_bytes 4 relid @ blit ''N'' @ encode_tuple new"

text \<open>The old tuple of an update or delete: none, key columns, or the whole row.\<close>

datatype old_tuple = NoOld | KeyOld wire_tuple | FullOld wire_tuple

primrec encode_old :: "old_tuple \<Rightarrow> bytes" where
  "encode_old NoOld = []"
| "encode_old (KeyOld vs) = blit ''K'' @ encode_tuple vs"
| "encode_old (FullOld vs) = blit ''O'' @ encode_tuple vs"

definition encode_update :: "int option \<Rightarrow> int \<Rightarrow> old_tuple \<Rightarrow> wire_tuple \<Rightarrow> bytes" where
  "encode_update x relid old new =
     blit ''U'' @ xid_prefix x @ be_bytes 4 relid @ encode_old old @ blit ''N'' @ encode_tuple new"

definition encode_delete :: "int option \<Rightarrow> int \<Rightarrow> old_tuple \<Rightarrow> bytes" where
  "encode_delete x relid old = blit ''D'' @ xid_prefix x @ be_bytes 4 relid @ encode_old old"

definition encode_truncate :: "int option \<Rightarrow> int list \<Rightarrow> bool \<Rightarrow> bool \<Rightarrow> bytes" where
  "encode_truncate x relids cascade restart =
     blit ''T'' @ xid_prefix x @ be_bytes 4 (int (length relids))
     @ [(if cascade then 1 else 0) OR (if restart then 2 else 0)] @ concat (map (be_bytes 4) relids)"

definition encode_type :: "int option \<Rightarrow> type_msg \<Rightarrow> bytes" where
  "encode_type x m = blit ''Y'' @ xid_prefix x @ be_bytes 4 (type_type_oid m)
     @ encode_cstring (type_namespace m) @ encode_cstring (type_name m)"

definition encode_origin :: "origin_msg \<Rightarrow> bytes" where
  "encode_origin m = blit ''O'' @ be_bytes 8 (origin_lsn m) @ encode_cstring (origin_name m)"

definition encode_message :: "int option \<Rightarrow> logical_msg \<Rightarrow> bytes" where
  "encode_message x m = blit ''M'' @ xid_prefix x @ [if msg_transactional m then 1 else 0]
     @ be_bytes 8 (msg_lsn m) @ encode_cstring (msg_prefix m)
     @ be_bytes 4 (int (length (msg_content m))) @ msg_content m"

definition encode_stream_start :: "stream_start_msg \<Rightarrow> bytes" where
  "encode_stream_start m = blit ''S'' @ be_bytes 4 (start_xid m)
     @ [if start_first_segment m then 1 else 0]"

definition encode_stream_commit :: "stream_commit_msg \<Rightarrow> bytes" where
  "encode_stream_commit m = blit ''c'' @ be_bytes 4 (scommit_xid m) @ [0]
     @ be_bytes 8 (scommit_commit_lsn m) @ be_bytes 8 (scommit_end_lsn m)
     @ be_bytes 8 (scommit_commit_time m)"

definition encode_stream_abort :: "stream_abort_msg \<Rightarrow> bytes" where
  "encode_stream_abort m = blit ''A'' @ be_bytes 4 (abort_xid m) @ be_bytes 4 (abort_subxid m)"


section \<open>Which messages the format can carry\<close>

definition valid_name :: "pystr \<Rightarrow> bool" where
  "valid_name s = (list_all is_scalar s \<and> 0 \<notin> set s)"

primrec valid_value :: "wire_value \<Rightarrow> bool" where
  "valid_value WNull = True"
| "valid_value WUnchanged = True"
| "valid_value (WText s) = (list_all is_scalar s \<and> u32 (int (length (utf8_encode s))))"

definition valid_tuple :: "column list \<Rightarrow> wire_tuple \<Rightarrow> bool" where
  "valid_tuple cols vs =
     (length vs = length cols \<and> u16 (int (length vs)) \<and> list_all valid_value vs)"

definition valid_column :: "column \<Rightarrow> bool" where
  "valid_column c =
     (valid_name (col_name c) \<and> u32 (col_type_oid c)
      \<and> - (2 ^ 31) \<le> col_type_modifier c \<and> col_type_modifier c < 2 ^ 31)"

definition valid_relation :: "relation \<Rightarrow> bool" where
  "valid_relation r =
     (u32 (rel_id r) \<and> valid_name (rel_namespace r) \<and> valid_name (rel_name r)
      \<and> (\<exists>c < 256. rel_replica_identity r = [c])
      \<and> u16 (int (length (rel_columns r))) \<and> list_all valid_column (rel_columns r))"

definition valid_xid :: "bool \<Rightarrow> int option \<Rightarrow> bool" where
  "valid_xid streaming x = (case x of None \<Rightarrow> \<not> streaming | Some n \<Rightarrow> streaming \<and> u32 n)"


section \<open>What a tuple means\<close>

text \<open>
  A NULL is a present column with no value, an unchanged TOAST value leaves its column out, and
  text is the column's value. Where a table has two columns of one name the later one wins.
\<close>

fun row_of :: "column list \<Rightarrow> wire_tuple \<Rightarrow> row \<Rightarrow> row" where
  "row_of (c # cs) (v # vs) row =
     row_of cs vs
       (case v of
          WNull \<Rightarrow> AList.update (col_name c) None row
        | WUnchanged \<Rightarrow> row
        | WText s \<Rightarrow> AList.update (col_name c) (Some s) row)"
| "row_of _ _ row = row"


section \<open>Reading known bytes\<close>

declare add_2_eq_Suc [simp del] add_2_eq_Suc' [simp del]

lemma drop_at: "drop off buf = ys \<Longrightarrow> drop (off + k) buf = drop k ys"
  by (metis add.commute drop_drop)

lemma slice_at: "drop off buf = ys \<Longrightarrow> slice buf (off + i) (off + j) = slice ys i j"
  by (auto simp: slice_def add.commute)

lemma slice_at_0: "drop off buf = ys \<Longrightarrow> slice buf off (off + j) = take j ys"
  by (auto simp: slice_def)

lemma byte_at_at: "drop off buf = y # ys \<Longrightarrow> byte_at buf off = Inr y"
  by (simp add: byte_at_def drop_Cons_less nth_known)

lemma int_fields_at:
  "drop off buf = be_bytes 4 n @ ys \<Longrightarrow> u32 n \<Longrightarrow> int32_at buf off = n"
  "drop off buf = be_bytes 2 n @ ys \<Longrightarrow> u16 n \<Longrightarrow> int16_at buf off = n"
  "drop off buf = be_bytes 8 n @ ys \<Longrightarrow> u64 n \<Longrightarrow> int64_at buf off = n"
  by (simp_all add: int32_at_def int16_at_def int64_at_def slice_at_0)

lemma takeWhile_nonzero: "0 \<notin> set xs \<Longrightarrow> takeWhile (\<lambda>x. x \<noteq> 0) (xs @ 0 # ys) = xs"
  for xs :: bytes
  by (subst takeWhile_append2) auto

lemma cstring_at:
  assumes "drop off buf = encode_cstring s @ ys" and "valid_name s"
  shows "read_cstring buf off = Inr (s, off + length (encode_cstring s))"
proof -
  have nz: "0 \<notin> set (utf8_encode s)"
    using assms(2) by (auto simp: valid_name_def dest: utf8_encode_nonzero)
  have d: "drop off buf = utf8_encode s @ 0 # ys"
    using assms(1) by (simp add: encode_cstring_def)
  then have "off + length (utf8_encode s) < length buf"
    using length_drop [of off buf] by simp
  then have "bytes_index buf 0 off = Inr (off + length (utf8_encode s))"
    using d takeWhile_nonzero [OF nz] by (simp add: bytes_index_def)
  then show ?thesis
    using d assms(2) by (simp add: read_cstring_def slice_at_0 valid_name_def encode_cstring_def)
qed

text \<open>The offset after the optional xid, and the xid itself.\<close>

lemma body_at:
  assumes "valid_xid streaming x"
  shows "drop (body_offset streaming) (k # xid_prefix x @ ys) = ys"
    and "leading_subxid streaming (k # xid_prefix x @ ys) = x"
  using assms
  by (auto simp: valid_xid_def body_offset_def xid_prefix_def leading_subxid_def int32_at_def
      split: option.splits)


section \<open>Tuples\<close>

lemma decode_tuple_columns_known:
  assumes "drop off buf = concat (map encode_value vs) @ ys"
    and "length vs = length cols" and "list_all valid_value vs"
  shows "decode_tuple_columns cols buf off row
       = Inr (row_of cols vs row, off + length (concat (map encode_value vs)))"
  using assms
proof (induction cols arbitrary: vs off row)
  case Nil
  then show ?case by simp
next
  case (Cons c cols)
  then obtain v vs' where vs: "vs = v # vs'" by (cases vs) auto
  let ?rest = "concat (map encode_value vs') @ ys"
  have d: "drop off buf = encode_value v @ ?rest" using Cons.prems vs by simp
  have IH: "\<And>off row. drop off buf = ?rest \<Longrightarrow>
      decode_tuple_columns cols buf off row
    = Inr (row_of cols vs' row, off + length (concat (map encode_value vs')))"
    using Cons.IH Cons.prems vs by simp
  show ?case
  proof (cases v)
    case WNull
    then show ?thesis using d vs IH [of "off + 1"] drop_at [OF d, of 1]
      by (simp add: slice_one_known)
  next
    case WUnchanged
    then show ?thesis using d vs IH [of "off + 1"] drop_at [OF d, of 1]
      by (simp add: slice_one_known)
  next
    case (WText s)
    let ?n = "length (utf8_encode s)"
    have s: "list_all is_scalar s" "u32 (int ?n)" using Cons.prems vs WText by simp_all
    have d1: "drop (off + 1) buf = be_bytes 4 (int ?n) @ utf8_encode s @ ?rest"
      using drop_at [OF d, of 1] WText by (simp add: encode_text_def)
    have d5: "drop (off + 1 + 4) buf = utf8_encode s @ ?rest"
      using drop_at [OF d1, of 4] by simp
    have dn: "drop (off + 1 + 4 + ?n) buf = ?rest"
      using drop_at [OF d5, of ?n] by simp
    have marker: "slice buf off (off + 1) = blit ''t''"
      using d WText by (simp add: slice_one_known)
    show ?thesis
      using int_fields_at(1) [OF d1 s(2)] slice_at_0 [OF d5, of ?n] s IH [OF dn] marker vs WText
      by (simp add: encode_text_def)
  qed
qed

lemma decode_tuple_data_known:
  assumes "drop off buf = encode_tuple vs @ ys" and "valid_tuple cols vs"
  shows "decode_tuple_data buf off cols = Inr (row_of cols vs [], off + length (encode_tuple vs))"
proof -
  have d: "drop off buf = be_bytes 2 (int (length vs)) @ concat (map encode_value vs) @ ys"
    using assms(1) by (simp add: encode_tuple_def)
  have "drop (off + 2) buf = concat (map encode_value vs) @ ys"
    using drop_at [OF d, of 2] by simp
  from decode_tuple_columns_known [OF this, of cols "[]"]
  have cols: "decode_tuple_columns cols buf (off + 2) []
      = Inr (row_of cols vs [], off + 2 + length (concat (map encode_value vs)))"
    using assms(2) by (simp add: valid_tuple_def)
  have "u16 (int (length vs))" "length vs = length cols"
    using assms(2) by (auto simp: valid_tuple_def)
  with int_fields_at(2) [OF d] cols show ?thesis by (simp add: decode_tuple_data_def valid_tuple_def encode_tuple_def Let_def)
qed


section \<open>Round trips of the row changes\<close>

lemma decode_insert_known:
  assumes x: "valid_xid streaming x" and rel: "map_of relations relid = Some r"
    and relid: "u32 relid" and new: "valid_tuple (rel_columns r) new"
  shows "decode_insert relations streaming (encode_insert x relid new)
       = Inr \<lparr>ins_relation_id = relid, ins_table = qualified_name r,
              ins_new = row_of (rel_columns r) new [], ins_subxid = x\<rparr>"
proof -
  let ?p = "encode_insert x relid new"
  let ?o = "body_offset streaming"
  have d: "drop ?o ?p = be_bytes 4 relid @ blit ''N'' @ encode_tuple new"
    using body_at(1) [OF x] by (simp add: encode_insert_def)
  have d4: "drop (?o + 4) ?p = blit ''N'' @ encode_tuple new @ []"
    using drop_at [OF d, of 4] by simp
  have d5: "drop (?o + 4 + 1) ?p = encode_tuple new @ []"
    using drop_at [OF d4, of 1] by simp
  have "leading_subxid streaming ?p = x"
    using body_at(2) [OF x] by (simp add: encode_insert_def)
  moreover have "slice ?p 0 1 = blit ''I''" by (simp add: encode_insert_def)
  ultimately show ?thesis
    using int_fields_at(1) [OF d relid] slice_at_0 [OF d4, of 1] decode_tuple_data_known [OF d5 new] rel
    by (simp add: decode_insert_def relation_cache_get_def Let_def)
qed

text \<open>The old tuple as the message keeps it: restricted to the key columns for \<open>K\<close>.\<close>

primrec old_row :: "column list \<Rightarrow> old_tuple \<Rightarrow> exn + row option" where
  "old_row cols NoOld = Inr None"
| "old_row cols (KeyOld vs) = rmap Some (restrict_to_key_columns (row_of cols vs []) cols)"
| "old_row cols (FullOld vs) = Inr (Some (row_of cols vs []))"

primrec valid_old :: "column list \<Rightarrow> old_tuple \<Rightarrow> bool" where
  "valid_old cols NoOld = True"
| "valid_old cols (KeyOld vs) = valid_tuple cols vs"
| "valid_old cols (FullOld vs) = valid_tuple cols vs"

lemma decode_update_known:
  assumes x: "valid_xid streaming x" and rel: "map_of relations relid = Some r"
    and relid: "u32 relid" and old: "valid_old (rel_columns r) old"
    and new: "valid_tuple (rel_columns r) new"
  shows "decode_update relations streaming (encode_update x relid old new)
       = rbind (old_row (rel_columns r) old) (\<lambda>old.
         Inr \<lparr>upd_relation_id = relid, upd_table = qualified_name r, upd_old = old,
              upd_new = row_of (rel_columns r) new [], upd_subxid = x\<rparr>)"
proof -
  let ?p = "encode_update x relid old new"
  let ?o = "body_offset streaming"
  have d: "drop ?o ?p = be_bytes 4 relid @ encode_old old @ blit ''N'' @ encode_tuple new"
    using body_at(1) [OF x] by (simp add: encode_update_def)
  have d4: "drop (?o + 4) ?p = encode_old old @ blit ''N'' @ encode_tuple new"
    using drop_at [OF d, of 4] by simp
  have sub: "leading_subxid streaming ?p = x"
    using body_at(2) [OF x] by (simp add: encode_update_def)
  have kind: "slice ?p 0 1 = blit ''U''" by (simp add: encode_update_def)
  have new_at: "\<And>off. drop off ?p = blit ''N'' @ encode_tuple new \<Longrightarrow>
      slice ?p off (Suc off) = [78] \<and>
      decode_tuple_data ?p (Suc off) (rel_columns r)
    = Inr (row_of (rel_columns r) new [], Suc off + length (encode_tuple new))"
    using decode_tuple_data_known [OF _ new, of "Suc _" ?p "[]"]
    by (auto simp: slice_one_known dest: drop_Suc_known)
  note base = int_fields_at(1) [OF d relid] rel sub kind
  show ?thesis
  proof (cases old)
    case NoOld
    with d4 have "drop (?o + 4) ?p = blit ''N'' @ encode_tuple new" by simp
    from new_at [OF this] base NoOld show ?thesis
      by (simp add: decode_update_def relation_cache_get_def Let_def missing_new_marker_def)
  next
    case (KeyOld vs)
    have d4': "drop (?o + 4) ?p = 75 # encode_tuple vs @ blit ''N'' @ encode_tuple new"
      using d4 KeyOld by simp
    have d5: "drop (Suc (?o + 4)) ?p = encode_tuple vs @ blit ''N'' @ encode_tuple new"
      using drop_Suc_known [OF d4'] .
    have vs: "valid_tuple (rel_columns r) vs" using old KeyOld by simp
    from drop_at [OF d5, of "length (encode_tuple vs)"]
    have "drop (Suc (?o + 4) + length (encode_tuple vs)) ?p = blit ''N'' @ encode_tuple new" by simp
    from new_at [OF this] decode_tuple_data_known [OF d5 vs] slice_one_known [OF d4'] base KeyOld
    show ?thesis
      by (cases "restrict_to_key_columns (row_of (rel_columns r) vs []) (rel_columns r)")
        (simp_all add: decode_update_def relation_cache_get_def Let_def rmap_def)
  next
    case (FullOld vs)
    have d4': "drop (?o + 4) ?p = 79 # encode_tuple vs @ blit ''N'' @ encode_tuple new"
      using d4 FullOld by simp
    have d5: "drop (Suc (?o + 4)) ?p = encode_tuple vs @ blit ''N'' @ encode_tuple new"
      using drop_Suc_known [OF d4'] .
    have vs: "valid_tuple (rel_columns r) vs" using old FullOld by simp
    from drop_at [OF d5, of "length (encode_tuple vs)"]
    have "drop (Suc (?o + 4) + length (encode_tuple vs)) ?p = blit ''N'' @ encode_tuple new" by simp
    from new_at [OF this] decode_tuple_data_known [OF d5 vs] slice_one_known [OF d4'] base FullOld
    show ?thesis
      by (simp add: decode_update_def relation_cache_get_def Let_def)
  qed
qed

lemma decode_delete_known:
  assumes x: "valid_xid streaming x" and rel: "map_of relations relid = Some r"
    and relid: "u32 relid" and old: "valid_old (rel_columns r) old" and "old \<noteq> NoOld"
  shows "decode_delete relations streaming (encode_delete x relid old)
       = rbind (old_row (rel_columns r) old) (\<lambda>old.
         Inr \<lparr>del_relation_id = relid, del_table = qualified_name r, del_old = the old,
              del_subxid = x\<rparr>)"
proof -
  let ?p = "encode_delete x relid old"
  let ?o = "body_offset streaming"
  have d: "drop ?o ?p = be_bytes 4 relid @ encode_old old"
    using body_at(1) [OF x] by (simp add: encode_delete_def)
  have d4: "drop (?o + 4) ?p = encode_old old"
    using drop_at [OF d, of 4] by simp
  have sub: "leading_subxid streaming ?p = x"
    using body_at(2) [OF x] by (simp add: encode_delete_def)
  have kind: "slice ?p 0 1 = blit ''D''" by (simp add: encode_delete_def)
  note base = int_fields_at(1) [OF d relid] rel sub kind
  obtain vs k where vs: "valid_tuple (rel_columns r) vs" and k: "drop (?o + 4) ?p = k # encode_tuple vs"
    and old': "old = KeyOld vs \<and> k = 75 \<or> old = FullOld vs \<and> k = 79"
    using old \<open>old \<noteq> NoOld\<close> d4 by (cases old) auto
  have d5: "drop (Suc (?o + 4)) ?p = encode_tuple vs @ []"
    using drop_Suc_known [OF k] by simp
  from decode_tuple_data_known [OF d5 vs] slice_one_known [OF k] base old'
  show ?thesis
    by (cases "restrict_to_key_columns (row_of (rel_columns r) vs []) (rel_columns r)")
      (auto simp: decode_delete_def relation_cache_get_def Let_def rmap_def)
qed

lemma decode_truncate_tables_known:
  assumes "drop off buf = concat (map (be_bytes 4) relids) @ ys"
    and "list_all (\<lambda>i. u32 i \<and> map_of relations i \<noteq> None) relids"
  shows "decode_truncate_tables (length relids) relations buf off
       = Inr (map (\<lambda>i. qualified_name (the (map_of relations i))) relids)"
  using assms
proof (induction relids arbitrary: off)
  case Nil
  then show ?case by simp
next
  case (Cons i relids)
  have d: "drop off buf = be_bytes 4 i @ concat (map (be_bytes 4) relids) @ ys"
    using Cons.prems by simp
  have "drop (off + 4) buf = concat (map (be_bytes 4) relids) @ ys"
    using drop_at [OF d, of 4] by simp
  with Cons int_fields_at(1) [OF d] show ?case
    by (auto simp: relation_cache_get_def)
qed

lemma flag_bits:
  "((if a then 1 else 0) OR (if b then 2 else 0 :: byte)) AND 1 \<noteq> 0 \<longleftrightarrow> a"
  "((if a then 1 else 0) OR (if b then 2 else 0 :: byte)) AND 2 \<noteq> 0 \<longleftrightarrow> b"
  by (cases a; cases b; simp)+

lemma decode_truncate_known:
  assumes x: "valid_xid streaming x" and n: "u32 (int (length relids))"
    and rels: "list_all (\<lambda>i. u32 i \<and> map_of relations i \<noteq> None) relids"
  shows "decode_truncate relations streaming (encode_truncate x relids cascade restart)
       = Inr \<lparr>trunc_tables = map (\<lambda>i. qualified_name (the (map_of relations i))) relids,
              trunc_cascade = cascade, trunc_restart_identity = restart, trunc_subxid = x\<rparr>"
proof -
  let ?p = "encode_truncate x relids cascade restart"
  let ?o = "body_offset streaming"
  let ?f = "(if cascade then 1 else 0) OR (if restart then 2 else 0) :: byte"
  have d: "drop ?o ?p = be_bytes 4 (int (length relids)) @ ?f # concat (map (be_bytes 4) relids)"
    using body_at(1) [OF x] by (simp add: encode_truncate_def)
  have d4: "drop (?o + 4) ?p = ?f # concat (map (be_bytes 4) relids)"
    using drop_at [OF d, of 4] by simp
  have d5: "drop (?o + 4 + 1) ?p = concat (map (be_bytes 4) relids) @ []"
    using drop_at [OF d4, of 1] by simp
  have "leading_subxid streaming ?p = x"
    using body_at(2) [OF x] by (simp add: encode_truncate_def)
  moreover have "slice ?p 0 1 = blit ''T''" by (simp add: encode_truncate_def)
  ultimately show ?thesis
    using int_fields_at(1) [OF d n] byte_at_at [OF d4] decode_truncate_tables_known [OF d5 rels]
      flag_bits [of cascade restart]
    by (simp add: decode_truncate_def Let_def)
qed


section \<open>Round trips of the other messages\<close>

definition valid_begin :: "begin_msg \<Rightarrow> bool" where
  "valid_begin m = (u64 (begin_final_lsn m) \<and> u64 (begin_commit_time m) \<and> u32 (begin_xid m))"

definition valid_commit :: "commit_msg \<Rightarrow> bool" where
  "valid_commit m = (u8 (commit_flags m) \<and> u64 (commit_commit_lsn m) \<and> u64 (commit_end_lsn m)
     \<and> u64 (commit_commit_time m))"

definition valid_type :: "type_msg \<Rightarrow> bool" where
  "valid_type m = (u32 (type_type_oid m) \<and> valid_name (type_namespace m) \<and> valid_name (type_name m))"

definition valid_origin :: "origin_msg \<Rightarrow> bool" where
  "valid_origin m = (u64 (origin_lsn m) \<and> valid_name (origin_name m))"

definition valid_message :: "logical_msg \<Rightarrow> bool" where
  "valid_message m = (u64 (msg_lsn m) \<and> valid_name (msg_prefix m)
     \<and> u32 (int (length (msg_content m))))"

definition valid_stream_start :: "stream_start_msg \<Rightarrow> bool" where
  "valid_stream_start m = u32 (start_xid m)"

definition valid_stream_commit :: "stream_commit_msg \<Rightarrow> bool" where
  "valid_stream_commit m = (u32 (scommit_xid m) \<and> u64 (scommit_commit_lsn m)
     \<and> u64 (scommit_end_lsn m) \<and> u64 (scommit_commit_time m))"

definition valid_stream_abort :: "stream_abort_msg \<Rightarrow> bool" where
  "valid_stream_abort m = (u32 (abort_xid m) \<and> u32 (abort_subxid m))"

lemmas fixed_width_defs = int64_at_def int32_at_def fixed_fields byte_at_def nth_append nth_Cons'

interpretation begin_codec: codec encode_begin decode_begin valid_begin
  by unfold_locales
    (simp add: encode_begin_def decode_begin_def valid_begin_def fixed_width_defs)

interpretation commit_codec: codec encode_commit decode_commit valid_commit
  by unfold_locales
    (simp add: encode_commit_def decode_commit_def valid_commit_def u8_def fixed_width_defs
      uint_word_of_int)

interpretation stream_start_codec: codec encode_stream_start decode_stream_start valid_stream_start
  by unfold_locales
    (simp add: encode_stream_start_def decode_stream_start_def valid_stream_start_def
      fixed_width_defs)

interpretation stream_commit_codec:
  codec encode_stream_commit decode_stream_commit valid_stream_commit
  by unfold_locales
    (simp add: encode_stream_commit_def decode_stream_commit_def valid_stream_commit_def
      fixed_width_defs)

interpretation stream_abort_codec: codec encode_stream_abort decode_stream_abort valid_stream_abort
  by unfold_locales
    (simp add: encode_stream_abort_def decode_stream_abort_def valid_stream_abort_def
      fixed_width_defs)

lemma cstring_then:
  assumes "drop off buf = encode_cstring s @ ys" and "valid_name s"
  shows "read_cstring buf off = Inr (s, off + length (encode_cstring s))"
    and "drop (off + length (encode_cstring s)) buf = ys"
  using cstring_at [OF assms] drop_at [OF assms(1)] by simp_all

interpretation origin_codec: codec encode_origin decode_origin valid_origin
proof
  fix m
  assume m: "valid_origin m"
  have d1: "drop 1 (encode_origin m) = be_bytes 8 (origin_lsn m) @ encode_cstring (origin_name m)"
    by (simp add: encode_origin_def)
  have d9: "drop 9 (encode_origin m) = encode_cstring (origin_name m) @ []"
    using drop_at [OF d1, of 8] by simp
  from cstring_then(1) [OF d9] int_fields_at(3) [OF d1] m
  show "decode_origin (encode_origin m) = Inr m"
    by (simp add: decode_origin_def valid_origin_def) (simp add: encode_origin_def)
qed

lemma decode_type_known:
  assumes x: "valid_xid streaming x" and m: "valid_type m"
  shows "decode_type streaming (encode_type x m) = Inr m"
proof -
  let ?p = "encode_type x m"
  let ?o = "body_offset streaming"
  have d: "drop ?o ?p = be_bytes 4 (type_type_oid m) @ encode_cstring (type_namespace m)
      @ encode_cstring (type_name m)"
    using body_at(1) [OF x] by (simp add: encode_type_def)
  have d4: "drop (?o + 4) ?p = encode_cstring (type_namespace m) @ encode_cstring (type_name m) @ []"
    using drop_at [OF d, of 4] by simp
  have names: "valid_name (type_namespace m)" "valid_name (type_name m)" "u32 (type_type_oid m)"
    using m by (simp_all add: valid_type_def)
  have "slice ?p 0 1 = blit ''Y''" by (simp add: encode_type_def)
  with cstring_then [OF d4 names(1)] cstring_then(1) [OF _ names(2)] int_fields_at(1) [OF d names(3)]
  show ?thesis by (simp add: decode_type_def Let_def)
qed

lemma decode_message_known:
  assumes x: "valid_xid streaming x" and m: "valid_message m"
  shows "decode_message streaming (encode_message x m) = Inr m"
proof -
  let ?p = "encode_message x m"
  let ?o = "body_offset streaming"
  let ?t = "if msg_transactional m then 1 else 0 :: byte"
  have valid: "valid_name (msg_prefix m)" "u64 (msg_lsn m)" "u32 (int (length (msg_content m)))"
    using m by (simp_all add: valid_message_def)
  have d: "drop ?o ?p = ?t # be_bytes 8 (msg_lsn m) @ encode_cstring (msg_prefix m)
      @ be_bytes 4 (int (length (msg_content m))) @ msg_content m"
    using body_at(1) [OF x] by (simp add: encode_message_def)
  have d1: "drop (?o + 1) ?p = be_bytes 8 (msg_lsn m) @ encode_cstring (msg_prefix m)
      @ be_bytes 4 (int (length (msg_content m))) @ msg_content m"
    using drop_at [OF d, of 1] by simp
  have d9: "drop (?o + 9) ?p = encode_cstring (msg_prefix m)
      @ be_bytes 4 (int (length (msg_content m))) @ msg_content m"
    using drop_at [OF d, of 9] by simp
  note dn = cstring_then [OF d9 valid(1)]
  let ?n = "?o + 9 + length (encode_cstring (msg_prefix m))"
  have dc: "drop (?n + 4) ?p = msg_content m"
    using drop_at [OF dn(2), of 4] by simp
  have "slice ?p 0 1 = blit ''M''" by (simp add: encode_message_def)
  with dn int_fields_at(3) [OF d1 valid(2)] int_fields_at(1) [OF dn(2) valid(3)] byte_at_at [OF d]
    slice_at_0 [OF dc, of "length (msg_content m)"]
  show ?thesis by (simp add: decode_message_def Let_def)
qed

lemma decode_columns_known:
  assumes "drop off buf = concat (map encode_column cols) @ ys" and "list_all valid_column cols"
  shows "decode_columns (length cols) buf off = Inr cols"
  using assms
proof (induction cols arbitrary: off)
  case Nil
  then show ?case by simp
next
  case (Cons c cols)
  let ?rest = "concat (map encode_column cols) @ ys"
  let ?k = "if col_is_key c then 1 else 0 :: byte"
  have c: "valid_name (col_name c)" "u32 (col_type_oid c)"
    "- (2 ^ 31) \<le> col_type_modifier c" "col_type_modifier c < 2 ^ 31"
    using Cons.prems by (simp_all add: valid_column_def)
  have d: "drop off buf = ?k # encode_cstring (col_name c) @ be_bytes 4 (col_type_oid c)
      @ be_bytes 4 (col_type_modifier c mod 256 ^ 4) @ ?rest"
    using Cons.prems by (simp add: encode_column_def [of c])
  have d1: "drop (off + 1) buf = encode_cstring (col_name c) @ be_bytes 4 (col_type_oid c)
      @ be_bytes 4 (col_type_modifier c mod 256 ^ 4) @ ?rest"
    using drop_at [OF d, of 1] by simp
  note dn = cstring_then [OF d1 c(1)]
  let ?n = "off + 1 + length (encode_cstring (col_name c))"
  have d4: "drop (?n + 4) buf = be_bytes 4 (col_type_modifier c mod 256 ^ 4) @ ?rest"
    using drop_at [OF dn(2), of 4] by simp
  have d8: "drop (?n + 8) buf = ?rest"
    using drop_at [OF dn(2), of 8] by simp
  have modifier: "int_from_bytes_signed (slice buf (?n + 4) (?n + 8)) = col_type_modifier c"
  proof -
    have "slice buf (?n + 4) (?n + 4 + 4) = be_bytes 4 (col_type_modifier c mod 256 ^ 4)"
      using slice_at_0 [OF d4, of 4] by simp
    also have "\<dots> = be_bytes 4 (col_type_modifier c)"
      using be_bytes_mod [of 4] by simp
    finally show ?thesis
      using int_from_bytes_signed_be [of 4 "col_type_modifier c"] c by (simp add: add.assoc)
  qed
  have key: "?k AND 1 \<noteq> 0 \<longleftrightarrow> col_is_key c" by simp
  from Cons.IH [OF d8] Cons.prems(2) dn(1) byte_at_at [OF d] modifier key
    int_fields_at(1) [OF dn(2) c(2)]
  show ?case by (simp add: Let_def)
qed

lemma decode_relation_known:
  assumes x: "valid_xid streaming x" and r: "valid_relation r"
  shows "decode_relation streaming (encode_relation x r) = Inr r"
proof -
  let ?p = "encode_relation x r"
  let ?o = "body_offset streaming"
  let ?cols = "concat (map encode_column (rel_columns r))"
  let ?n = "be_bytes 2 (int (length (rel_columns r)))"
  obtain c where c: "c < 256" "rel_replica_identity r = [c]"
    using r by (auto simp: valid_relation_def)
  have valid: "u32 (rel_id r)" "valid_name (rel_namespace r)" "valid_name (rel_name r)"
    "u16 (int (length (rel_columns r)))" "list_all valid_column (rel_columns r)"
    using r by (simp_all add: valid_relation_def)
  have d: "drop ?o ?p = be_bytes 4 (rel_id r) @ encode_cstring (rel_namespace r)
      @ encode_cstring (rel_name r) @ of_nat c # ?n @ ?cols"
    using body_at(1) [OF x] c by (simp add: encode_relation_def)
  have d4: "drop (?o + 4) ?p = encode_cstring (rel_namespace r)
      @ encode_cstring (rel_name r) @ of_nat c # ?n @ ?cols"
    using drop_at [OF d, of 4] by simp
  note ns = cstring_then [OF d4 valid(2)]
  note nm = cstring_then [OF ns(2) valid(3)]
  let ?i = "?o + 4 + length (encode_cstring (rel_namespace r)) + length (encode_cstring (rel_name r))"
  have di: "drop (?i + 1) ?p = ?n @ ?cols"
    using drop_at [OF nm(2), of 1] by simp
  have dc: "drop (?i + 3) ?p = ?cols @ []"
    using drop_at [OF nm(2), of 3] by simp
  have kind: "slice ?p 0 1 = blit ''R''" by (simp add: encode_relation_def)
  from ns(1) nm(1) byte_at_at [OF nm(2)] int_fields_at(2) [OF di valid(4)]
    int_fields_at(1) [OF d valid(1)] decode_columns_known [OF dc valid(5)] c kind
  show ?thesis by (simp add: decode_relation_def Let_def unat_of_nat)
qed

end
