(* ===== verification/Pgoutput_Stream.thy ===== *)
theory Pgoutput_Stream
  imports Pgoutput_Wire
begin

text \<open>
  The \<open>Decoder\<close> of \<open>pgoutput.py\<close> against the server that writes the stream. The server
  is an abstract machine: the relations it has described, and whether a streaming bracket is open,
  which decides whether a message carries an xid. The decoder simulates it: over any stream the
  server may write, the decoder returns message for message what the server meant. The rest of the
  theory is about the rows a decoder returns and the exceptions it can raise.
\<close>

section \<open>The server's stream\<close>

datatype wire_message =
    WRelation int relation
  | WBegin begin_msg
  | WCommit commit_msg
  | WInsert int int wire_tuple
  | WUpdate int int old_tuple wire_tuple
  | WDelete int int old_tuple
  | WTruncate int "int list" bool bool
  | WType int type_msg
  | WOrigin origin_msg
  | WMessage int logical_msg
  | WStreamStart stream_start_msg
  | WStreamStop
  | WStreamCommit stream_commit_msg
  | WStreamAbort stream_abort_msg

record server =
  srv_relations :: "int \<Rightarrow> relation option"
  srv_streaming :: bool

definition server_init :: server where
  "server_init = \<lparr>srv_relations = (\<lambda>_. None), srv_streaming = False\<rparr>"

text \<open>The xid a message carries: its own inside a bracket, none outside.\<close>

definition in_bracket :: "bool \<Rightarrow> int \<Rightarrow> int option" where
  "in_bracket streaming x = (if streaming then Some x else None)"

fun encode_wire :: "bool \<Rightarrow> wire_message \<Rightarrow> bytes" where
  "encode_wire s (WRelation x r) = encode_relation (in_bracket s x) r"
| "encode_wire s (WBegin m) = encode_begin m"
| "encode_wire s (WCommit m) = encode_commit m"
| "encode_wire s (WInsert x i new) = encode_insert (in_bracket s x) i new"
| "encode_wire s (WUpdate x i old new) = encode_update (in_bracket s x) i old new"
| "encode_wire s (WDelete x i old) = encode_delete (in_bracket s x) i old"
| "encode_wire s (WTruncate x is c r) = encode_truncate (in_bracket s x) is c r"
| "encode_wire s (WType x m) = encode_type (in_bracket s x) m"
| "encode_wire s (WOrigin m) = encode_origin m"
| "encode_wire s (WMessage x m) = encode_message (in_bracket s x) m"
| "encode_wire s (WStreamStart m) = encode_stream_start m"
| "encode_wire s WStreamStop = blit ''E''"
| "encode_wire s (WStreamCommit m) = encode_stream_commit m"
| "encode_wire s (WStreamAbort m) = encode_stream_abort m"

definition known :: "server \<Rightarrow> int \<Rightarrow> relation" where
  "known s i = the (srv_relations s i)"

text \<open>What a message means to a client that has read everything before it.\<close>

fun meaning :: "wire_message \<Rightarrow> server \<Rightarrow> exn + pgoutput_message" where
  "meaning (WRelation x r) s = Inr (Relation r)"
| "meaning (WBegin m) s = Inr (Begin m)"
| "meaning (WCommit m) s = Inr (Commit m)"
| "meaning (WInsert x i new) s =
     Inr (Insert \<lparr>ins_relation_id = i, ins_table = qualified_name (known s i),
                  ins_new = row_of (rel_columns (known s i)) new [],
                  ins_subxid = in_bracket (srv_streaming s) x\<rparr>)"
| "meaning (WUpdate x i old new) s =
     rmap (\<lambda>old. Update \<lparr>upd_relation_id = i, upd_table = qualified_name (known s i), upd_old = old,
                  upd_new = row_of (rel_columns (known s i)) new [],
                  upd_subxid = in_bracket (srv_streaming s) x\<rparr>)
       (old_row (rel_columns (known s i)) old)"
| "meaning (WDelete x i old) s =
     rmap (\<lambda>old. Delete \<lparr>del_relation_id = i, del_table = qualified_name (known s i),
                  del_old = the old, del_subxid = in_bracket (srv_streaming s) x\<rparr>)
       (old_row (rel_columns (known s i)) old)"
| "meaning (WTruncate x is c r) s =
     Inr (Truncate \<lparr>trunc_tables = map (\<lambda>i. qualified_name (known s i)) is, trunc_cascade = c,
                    trunc_restart_identity = r, trunc_subxid = in_bracket (srv_streaming s) x\<rparr>)"
| "meaning (WType x m) s = Inr (Type m)"
| "meaning (WOrigin m) s = Inr (Origin m)"
| "meaning (WMessage x m) s = Inr (Message m)"
| "meaning (WStreamStart m) s = Inr (StreamStart m)"
| "meaning WStreamStop s = Inr StreamStop"
| "meaning (WStreamCommit m) s = Inr (StreamCommit m)"
| "meaning (WStreamAbort m) s = Inr (StreamAbort m)"

fun server_step :: "wire_message \<Rightarrow> server \<Rightarrow> server" where
  "server_step (WRelation x r) s = s\<lparr>srv_relations := (srv_relations s)(rel_id r \<mapsto> r)\<rparr>"
| "server_step (WStreamStart m) s = s\<lparr>srv_streaming := True\<rparr>"
| "server_step WStreamStop s = s\<lparr>srv_streaming := False\<rparr>"
| "server_step _ s = s"

definition server_act :: "wire_message \<Rightarrow> (server, exn, pgoutput_message) action" where
  "server_act w s = (meaning w s, server_step w s)"

definition described :: "server \<Rightarrow> int \<Rightarrow> bool" where
  "described s i = (u32 i \<and> srv_relations s i \<noteq> None)"

definition xid_ok :: "server \<Rightarrow> int \<Rightarrow> bool" where
  "xid_ok s x = (srv_streaming s \<longrightarrow> u32 x)"

text \<open>What a server may write in a state: it describes a relation before it uses it.\<close>

fun server_ok :: "wire_message \<Rightarrow> server \<Rightarrow> bool" where
  "server_ok (WRelation x r) s = (xid_ok s x \<and> valid_relation r)"
| "server_ok (WBegin m) s = valid_begin m"
| "server_ok (WCommit m) s = valid_commit m"
| "server_ok (WInsert x i new) s =
     (xid_ok s x \<and> described s i \<and> valid_tuple (rel_columns (known s i)) new)"
| "server_ok (WUpdate x i old new) s =
     (xid_ok s x \<and> described s i \<and> valid_old (rel_columns (known s i)) old
      \<and> valid_tuple (rel_columns (known s i)) new)"
| "server_ok (WDelete x i old) s =
     (xid_ok s x \<and> described s i \<and> valid_old (rel_columns (known s i)) old \<and> old \<noteq> NoOld)"
| "server_ok (WTruncate x is c r) s =
     (xid_ok s x \<and> u32 (int (length is)) \<and> list_all (described s) is)"
| "server_ok (WType x m) s = (xid_ok s x \<and> valid_type m)"
| "server_ok (WOrigin m) s = valid_origin m"
| "server_ok (WMessage x m) s = (xid_ok s x \<and> valid_message m)"
| "server_ok (WStreamStart m) s = valid_stream_start m"
| "server_ok WStreamStop s = True"
| "server_ok (WStreamCommit m) s = valid_stream_commit m"
| "server_ok (WStreamAbort m) s = valid_stream_abort m"

text \<open>The decoder reading the bytes of a message, and how it relates to the server.\<close>

definition read_wire :: "wire_message \<Rightarrow> (decoder, exn, pgoutput_message) action" where
  "read_wire w d = decode (encode_wire (dec_streaming_active d) w) d"

definition in_sync :: "decoder \<Rightarrow> server \<Rightarrow> bool" where
  "in_sync d s = (map_of (dec_relations d) = srv_relations s \<and> dec_streaming_active d = srv_streaming s)"


section \<open>Dispatch\<close>

lemma decode_kinds:
  "decode (82 # p) d =
     (case decode_relation (dec_streaming_active d) (82 # p) of
        Inl e \<Rightarrow> (Inl e, d)
      | Inr r \<Rightarrow> (Inr (Relation r), d\<lparr>dec_relations := relation_cache_add r (dec_relations d)\<rparr>))"
  "decode (83 # p) d =
     (case decode_stream_start (83 # p) of
        Inl e \<Rightarrow> (Inl e, d)
      | Inr m \<Rightarrow> (Inr (StreamStart m), d\<lparr>dec_streaming_active := True\<rparr>))"
  "decode (69 # p) d =
     (rmap (\<lambda>_. StreamStop) (decode_stream_stop (69 # p)), d\<lparr>dec_streaming_active := False\<rparr>)"
  "decode (66 # p) d = (rmap Begin (decode_begin (66 # p)), d)"
  "decode (67 # p) d = (rmap Commit (decode_commit (67 # p)), d)"
  "decode (99 # p) d = (rmap StreamCommit (decode_stream_commit (99 # p)), d)"
  "decode (65 # p) d = (rmap StreamAbort (decode_stream_abort (65 # p)), d)"
  "decode (79 # p) d = (rmap Origin (decode_origin (79 # p)), d)"
  "decode (89 # p) d = (rmap Type (decode_type (dec_streaming_active d) (89 # p)), d)"
  "decode (77 # p) d = (rmap Message (decode_message (dec_streaming_active d) (77 # p)), d)"
  "decode (73 # p) d =
     (rmap Insert (decode_insert (dec_relations d) (dec_streaming_active d) (73 # p)), d)"
  "decode (85 # p) d =
     (rmap Update (decode_update (dec_relations d) (dec_streaming_active d) (85 # p)), d)"
  "decode (68 # p) d =
     (rmap Delete (decode_delete (dec_relations d) (dec_streaming_active d) (68 # p)), d)"
  "decode (84 # p) d =
     (rmap Truncate (decode_truncate (dec_relations d) (dec_streaming_active d) (84 # p)), d)"
  by (simp_all add: decode_def STATELESS_DECODERS_def STREAMING_AWARE_DECODERS_def
      STREAMING_AWARE_RELATION_DECODERS_def)

lemma rmap_simps [simp]:
  "rmap f (Inl e) = Inl e"
  "rmap f (Inr x) = Inr (f x)"
  "rmap f (rbind m g) = rbind m (\<lambda>x. rmap f (g x))"
  "rbind (rmap f m) h = rbind m (\<lambda>x. h (f x))"
  by (auto simp: rmap_def rbind_assoc)

lemma valid_xid_in_bracket: "(s \<longrightarrow> u32 x) \<Longrightarrow> valid_xid s (in_bracket s x)"
  by (simp add: valid_xid_def in_bracket_def)

lemma known_relation: "in_sync d s \<Longrightarrow> described s i \<Longrightarrow> map_of (dec_relations d) i = Some (known s i)"
  by (auto simp: in_sync_def described_def known_def)

text \<open>Each encoding starts with its kind byte; its codec's round trip is what \<open>decode\<close> returns.\<close>

lemmas encode_kind_defs = encode_relation_def encode_begin_def encode_commit_def encode_insert_def
  encode_update_def encode_delete_def encode_truncate_def encode_type_def encode_origin_def
  encode_message_def encode_stream_start_def encode_stream_commit_def encode_stream_abort_def

lemma decode_via:
  "decode (encode_relation x r) d =
     (case decode_relation (dec_streaming_active d) (encode_relation x r) of
        Inl e \<Rightarrow> (Inl e, d)
      | Inr r \<Rightarrow> (Inr (Relation r), d\<lparr>dec_relations := relation_cache_add r (dec_relations d)\<rparr>))"
  "decode (encode_stream_start m1) d =
     (case decode_stream_start (encode_stream_start m1) of
        Inl e \<Rightarrow> (Inl e, d)
      | Inr m \<Rightarrow> (Inr (StreamStart m), d\<lparr>dec_streaming_active := True\<rparr>))"
  "decode (encode_begin m2) d = (rmap Begin (decode_begin (encode_begin m2)), d)"
  "decode (encode_commit m3) d = (rmap Commit (decode_commit (encode_commit m3)), d)"
  "decode (encode_stream_commit m4) d =
     (rmap StreamCommit (decode_stream_commit (encode_stream_commit m4)), d)"
  "decode (encode_stream_abort m5) d =
     (rmap StreamAbort (decode_stream_abort (encode_stream_abort m5)), d)"
  "decode (encode_origin m6) d = (rmap Origin (decode_origin (encode_origin m6)), d)"
  "decode (encode_type x m7) d =
     (rmap Type (decode_type (dec_streaming_active d) (encode_type x m7)), d)"
  "decode (encode_message x m8) d =
     (rmap Message (decode_message (dec_streaming_active d) (encode_message x m8)), d)"
  "decode (encode_insert x i new) d =
     (rmap Insert (decode_insert (dec_relations d) (dec_streaming_active d) (encode_insert x i new)), d)"
  "decode (encode_update x i old new) d =
     (rmap Update
        (decode_update (dec_relations d) (dec_streaming_active d) (encode_update x i old new)), d)"
  "decode (encode_delete x i old) d =
     (rmap Delete (decode_delete (dec_relations d) (dec_streaming_active d) (encode_delete x i old)), d)"
  "decode (encode_truncate x is c1 c2) d =
     (rmap Truncate
        (decode_truncate (dec_relations d) (dec_streaming_active d) (encode_truncate x is c1 c2)), d)"
  by (simp_all add: encode_kind_defs decode_kinds)

lemma in_sync_streaming: "in_sync d s \<Longrightarrow> dec_streaming_active d = srv_streaming s"
  by (simp add: in_sync_def)

lemma read_wire_in_sync:
  assumes sync: "in_sync d s" and ok: "server_ok w s"
  shows "fst (read_wire w d) = meaning w s \<and> in_sync (snd (read_wire w d)) (server_step w s)"
proof -
  note str = in_sync_streaming [OF sync]
  note rel = known_relation [OF sync]
  note xid = valid_xid_in_bracket [of "srv_streaming s"]
  show ?thesis
  proof (cases w)
    case (WRelation x r)
    then show ?thesis
      using ok sync xid [of x] decode_relation_known [of "srv_streaming s" "in_bracket (srv_streaming s) x" r]
      by (auto simp: read_wire_def decode_via str xid_ok_def in_sync_def relation_cache_add_def)
  next
    case (WInsert x i new)
    then show ?thesis
      using ok sync xid [of x] rel [of i]
      by (auto simp: read_wire_def decode_via str xid_ok_def decode_insert_known described_def)
  next
    case (WUpdate x i old new)
    then show ?thesis
      using ok sync xid [of x] rel [of i]
      by (cases "old_row (rel_columns (known s i)) old")
        (auto simp: read_wire_def decode_via str xid_ok_def decode_update_known described_def)
  next
    case (WDelete x i old)
    then show ?thesis
      using ok sync xid [of x] rel [of i]
      by (cases "old_row (rel_columns (known s i)) old")
        (auto simp: read_wire_def decode_via str xid_ok_def decode_delete_known described_def)
  next
    case (WTruncate x "is" c r)
    then have "list_all (\<lambda>i. u32 i \<and> map_of (dec_relations d) i \<noteq> None) is"
      and names: "map (\<lambda>i. qualified_name (the (map_of (dec_relations d) i))) is
        = map (\<lambda>i. qualified_name (known s i)) is"
      using ok rel by (auto simp: list_all_iff described_def)
    then show ?thesis
      using ok sync WTruncate xid [of x] names
      by (auto simp: read_wire_def decode_via str xid_ok_def decode_truncate_known)
  next
    case (WType x m)
    then show ?thesis
      using ok sync xid [of x] by (auto simp: read_wire_def decode_via str xid_ok_def decode_type_known)
  next
    case (WMessage x m)
    then show ?thesis
      using ok sync xid [of x] by (auto simp: read_wire_def decode_via str xid_ok_def decode_message_known)
  next
    case WStreamStop
    then show ?thesis
      using sync by (auto simp: read_wire_def decode_kinds decode_stream_stop_def in_sync_def)
  qed (use ok sync in \<open>auto simp: read_wire_def decode_via in_sync_def begin_codec.dec_enc
      commit_codec.dec_enc origin_codec.dec_enc stream_start_codec.dec_enc
      stream_commit_codec.dec_enc stream_abort_codec.dec_enc\<close>)
qed

interpretation decoder_sim: simulation read_wire server_act server_ok in_sync
  by unfold_locales (simp_all add: read_wire_in_sync server_act_def)


section \<open>A whole stream\<close>

text \<open>The payloads the server writes, each encoded in the state the earlier ones left.\<close>

fun server_payloads :: "wire_message list \<Rightarrow> server \<Rightarrow> bytes list" where
  "server_payloads [] s = []"
| "server_payloads (w # ws) s =
     encode_wire (srv_streaming s) w # server_payloads ws (server_step w s)"

lemma decode_payloads:
  "in_sync d s \<Longrightarrow> decoder_sim.all_ok ws s \<Longrightarrow>
   arun decode (server_payloads ws s) d = arun read_wire ws d"
proof (induction ws arbitrary: d s)
  case Nil
  then show ?case by simp
next
  case (Cons w ws)
  have ok: "server_ok w s" using Cons.prems(2) by simp
  note step = read_wire_in_sync [OF Cons.prems(1) ok]
  have read: "decode (encode_wire (srv_streaming s) w) d = read_wire w d"
    using in_sync_streaming [OF Cons.prems(1)] by (simp add: read_wire_def)
  show ?case
  proof (cases "meaning w s")
    case (Inl e)
    then show ?thesis using step read by (cases "read_wire w d") auto
  next
    case (Inr m)
    have "server_act w s = (Inr m, server_step w s)" using Inr by (simp add: server_act_def)
    then have "decoder_sim.all_ok ws (server_step w s)"
      using Cons.prems(2) by simp
    with Cons.IH step have
      "arun decode (server_payloads ws (server_step w s)) (snd (read_wire w d))
     = arun read_wire ws (snd (read_wire w d))" by blast
    then show ?thesis using read by (cases "read_wire w d") (auto split: prod.splits sum.splits)
  qed
qed

lemma in_sync_init: "in_sync decoder_init server_init"
  by (simp add: in_sync_def decoder_init_def server_init_def relation_cache_init_def)


section \<open>Rows\<close>

primrec value_of :: "wire_value \<Rightarrow> pystr option option" where
  "value_of WNull = Some None"
| "value_of WUnchanged = None"
| "value_of (WText s) = Some (Some s)"

definition sent :: "column list \<Rightarrow> wire_tuple \<Rightarrow> pystr \<Rightarrow> pystr option option" where
  "sent cols vs k = Option.bind (map_of (zip (map col_name cols) vs) k) value_of"

lemma row_of_lookup:
  "distinct (map col_name cols) \<Longrightarrow> length vs = length cols \<Longrightarrow>
   map_of (row_of cols vs row) k = (case sent cols vs k of None \<Rightarrow> map_of row k | Some v \<Rightarrow> Some v)"
proof (induction cols arbitrary: vs row)
  case Nil
  then show ?case by (simp add: sent_def)
next
  case (Cons c cols)
  then obtain v vs' where vs: "vs = v # vs'" by (cases vs) auto
  have "map_of (zip (map col_name cols) vs') (col_name c) = None"
    using Cons.prems by (auto simp: map_of_eq_None_iff set_zip)
  then have tail: "sent cols vs' (col_name c) = None" by (simp add: sent_def)
  have IH: "\<And>row. map_of (row_of cols vs' row) k
      = (case sent cols vs' k of None \<Rightarrow> map_of row k | Some v \<Rightarrow> Some v)"
    using Cons vs by simp
  show ?case
  proof (cases "k = col_name c")
    case True
    then show ?thesis using vs IH tail by (cases v) (simp_all add: sent_def)
  next
    case False
    then show ?thesis using vs IH by (cases v) (auto simp: sent_def split: option.split)
  qed
qed

lemma sent_nth:
  assumes "distinct (map col_name cols)" and "length vs = length cols" and "i < length cols"
  shows "sent cols vs (col_name (cols ! i)) = value_of (vs ! i)"
proof -
  have "map_of (zip (map col_name cols) vs) (map col_name cols ! i) = Some (vs ! i)"
    using assms by (intro map_of_zip_nth) simp_all
  then show ?thesis using assms(3) by (simp add: sent_def)
qed

lemma sent_other: "k \<notin> col_name ` set cols \<Longrightarrow> sent cols vs k = None"
proof -
  assume "k \<notin> col_name ` set cols"
  then have "map_of (zip (map col_name cols) vs) k = None"
    by (auto simp: map_of_eq_None_iff dest: in_set_zipE)
  then show ?thesis by (simp add: sent_def)
qed

lemma restrict_loop_result:
  "restrict_loop row cols acc =
     (if \<forall>c \<in> set cols. col_is_key c \<longrightarrow> map_of row (col_name c) \<noteq> None
      then Inr (fold (\<lambda>c. AList.update (col_name c) (the (map_of row (col_name c))))
                  (filter col_is_key cols) acc)
      else Inl KeyError)"
  by (induction cols arbitrary: acc) (auto split: option.splits)

lemma map_of_fold_update:
  "map_of (fold (\<lambda>c. AList.update (f c) (g (f c))) cs acc) k =
     (if k \<in> f ` set cs then Some (g k) else map_of acc k)"
  by (induction cs arbitrary: acc) auto

lemma restrict_lookup:
  assumes "restrict_to_key_columns row cols = Inr r"
  shows "map_of r k = (if \<exists>c \<in> set cols. col_is_key c \<and> col_name c = k then map_of row k else None)"
proof -
  let ?upd = "\<lambda>c. AList.update (col_name c) (the (map_of row (col_name c)))"
  have present: "\<forall>c \<in> set cols. col_is_key c \<longrightarrow> map_of row (col_name c) \<noteq> None"
    and r: "r = fold ?upd (filter col_is_key cols) []"
    using assms by (simp_all add: restrict_to_key_columns_def restrict_loop_result split: if_splits)
  have "map_of r k = (if k \<in> col_name ` set (filter col_is_key cols) then Some (the (map_of row k))
                      else None)"
    unfolding r by (subst map_of_fold_update [where g = "\<lambda>n. the (map_of row n)"]) simp
  then show ?thesis using present by auto
qed


section \<open>Exceptions\<close>

definition decoding_exn :: "exn \<Rightarrow> bool" where
  "decoding_exn e = (is_decode_error e \<or> e = IndexError \<or> e = KeyError \<or> e = UnicodeDecodeError
                     \<or> (\<exists>t. e = ValueError t))"

definition raises_only :: "(exn \<Rightarrow> bool) \<Rightarrow> exn + 'a \<Rightarrow> bool" where
  "raises_only P m = (case m of Inl e \<Rightarrow> P e | Inr _ \<Rightarrow> True)"

lemma raises_only_simps [simp]:
  "raises_only P (Inl e) = P e"
  "raises_only P (Inr x)"
  "raises_only P (rmap f m) = raises_only P m"
  "raises_only P (of_option e opt) = (opt = None \<longrightarrow> P e)"
  by (cases m; auto simp: raises_only_def of_option_def split: option.split)+

lemma raises_only_rbind:
  "raises_only P m \<Longrightarrow> (\<And>x. m = Inr x \<Longrightarrow> raises_only P (f x)) \<Longrightarrow> raises_only P (rbind m f)"
  by (cases m) simp_all

lemma raises_only_if:
  "(c \<Longrightarrow> raises_only P m) \<Longrightarrow> (\<not> c \<Longrightarrow> raises_only P n) \<Longrightarrow> raises_only P (if c then m else n)"
  by simp

lemma raises_only_prod:
  "(\<And>a b. x = (a, b) \<Longrightarrow> raises_only P (f a b)) \<Longrightarrow> raises_only P (case x of (a, b) \<Rightarrow> f a b)"
  by (cases x) simp

lemmas raises_only_intros = raises_only_rbind raises_only_if raises_only_prod

lemma decoding_exn_simps [simp]:
  "decoding_exn (decode_error m t)"
  "decoding_exn (decode_error_text x y)"
  "decoding_exn (missing_new_marker k)"
  "decoding_exn IndexError" "decoding_exn KeyError" "decoding_exn UnicodeDecodeError"
  "decoding_exn (ValueError x)"
  by (simp_all add: decoding_exn_def missing_new_marker_def)

lemma reader_exns:
  "raises_only decoding_exn (byte_at buf off)"
  "raises_only decoding_exn (read_cstring buf off)"
  "raises_only decoding_exn (relation_cache_get cache i)"
  "raises_only decoding_exn (bytes_decode bs)"
  by (auto simp: byte_at_def read_cstring_def bytes_index_def bytes_decode_def relation_cache_get_def
      Let_def intro!: raises_only_intros)

lemma tuple_exns:
  "raises_only decoding_exn (decode_tuple_columns cols buf off row)"
  by (induction cols buf off row rule: decode_tuple_columns.induct)
    (auto simp: Let_def reader_exns intro!: raises_only_intros)

lemma loop_exns:
  "raises_only decoding_exn (decode_tuple_data buf off cols)"
  "raises_only decoding_exn (restrict_to_key_columns row cols)"
  "raises_only decoding_exn (decode_columns n buf off')"
  "raises_only decoding_exn (decode_truncate_tables n cache buf off'')"
  subgoal by (auto simp: decode_tuple_data_def Let_def tuple_exns intro!: raises_only_intros)
  subgoal by (simp add: restrict_to_key_columns_def restrict_loop_result)
  subgoal by (induction n arbitrary: off') (auto simp: reader_exns intro!: raises_only_intros)
  subgoal by (induction n arbitrary: off'') (auto simp: reader_exns intro!: raises_only_intros)
  done

lemmas decoder_defs = decode_relation_def decode_begin_def decode_commit_def decode_insert_def
  decode_update_def decode_delete_def decode_truncate_def decode_type_def decode_origin_def
  decode_message_def decode_stream_start_def decode_stream_stop_def decode_stream_commit_def
  decode_stream_abort_def

lemma decoder_exns:
  "raises_only decoding_exn (decode_relation s p)"
  "raises_only decoding_exn (decode_begin p)"
  "raises_only decoding_exn (decode_commit p)"
  "raises_only decoding_exn (decode_insert cache s p)"
  "raises_only decoding_exn (decode_update cache s p)"
  "raises_only decoding_exn (decode_delete cache s p)"
  "raises_only decoding_exn (decode_truncate cache s p)"
  "raises_only decoding_exn (decode_type s p)"
  "raises_only decoding_exn (decode_origin p)"
  "raises_only decoding_exn (decode_message s p)"
  "raises_only decoding_exn (decode_stream_start p)"
  "raises_only decoding_exn (decode_stream_stop p)"
  "raises_only decoding_exn (decode_stream_commit p)"
  "raises_only decoding_exn (decode_stream_abort p)"
  by (auto simp: decoder_defs Let_def reader_exns loop_exns intro!: raises_only_intros)


section \<open>What one call leaves behind\<close>

fun decoder_after :: "pgoutput_message \<Rightarrow> decoder \<Rightarrow> decoder" where
  "decoder_after (Relation r) d = d\<lparr>dec_relations := relation_cache_add r (dec_relations d)\<rparr>"
| "decoder_after (StreamStart m) d = d\<lparr>dec_streaming_active := True\<rparr>"
| "decoder_after StreamStop d = d\<lparr>dec_streaming_active := False\<rparr>"
| "decoder_after m d = d"

definition supported_kinds :: "byte list" where
  "supported_kinds = blit ''RBCIUDTYOMSEcA''"

lemma raises_only_Inl: "raises_only P m \<Longrightarrow> m = Inl e \<Longrightarrow> P e"
  by (simp add: raises_only_def)

lemma rmap_eq_Inl: "rmap f m = Inl e \<longleftrightarrow> m = Inl e"
  by (cases m) auto

lemma rmap_eq_Inr: "rmap f m = Inr y \<longleftrightarrow> (\<exists>x. m = Inr x \<and> y = f x)"
  by (cases m) auto

lemma decode_unsupported:
  assumes "\<forall>k \<in> set supported_kinds. slice p 0 1 \<noteq> [k]"
  shows "decode p d = (Inl (decode_error_text
           (lit ''unsupported pgoutput message type '' @ bytes_repr (slice p 0 1))
           (decode_replace_byte (slice p 0 1))), d)"
  using assms
  by (simp add: decode_def STATELESS_DECODERS_def STREAMING_AWARE_DECODERS_def
      STREAMING_AWARE_RELATION_DECODERS_def supported_kinds_def Let_def)

lemma supported_split:
  assumes "\<not> (\<forall>k \<in> set supported_kinds. slice p 0 1 \<noteq> [k])"
  shows "\<exists>k q. p = k # q \<and> k \<in> {82, 66, 67, 73, 85, 68, 84, 89, 79, 77, 83, 69, 99, 65}"
  using assms by (cases p) (auto simp: supported_kinds_def)

lemma decode_result:
  "case decode p d of
     (Inl e, d') \<Rightarrow>
       decoding_exn e
       \<and> d' = (if slice p 0 1 = blit ''E'' then d\<lparr>dec_streaming_active := False\<rparr> else d)
   | (Inr m, d') \<Rightarrow> d' = decoder_after m d"
proof (cases "\<forall>k \<in> set supported_kinds. slice p 0 1 \<noteq> [k]")
  case True
  moreover have "slice p 0 1 \<noteq> blit ''E''" using True by (simp add: supported_kinds_def)
  ultimately show ?thesis by (simp add: decode_unsupported)
next
  case False
  then obtain k q where "p = k # q"
    "k \<in> {82, 66, 67, 73, 85, 68, 84, 89, 79, 77, 83, 69, 99, 65}"
    using supported_split by blast
  then show ?thesis
    using decoder_exns [THEN raises_only_Inl]
    by (elim insertE emptyE)
      (auto simp: decode_kinds rmap_eq_Inl rmap_eq_Inr split: sum.splits prod.splits)
qed


section \<open>Properties\<close>

fun stream_ok :: "wire_message list \<Rightarrow> server \<Rightarrow> bool" where
  "stream_ok [] s = True"
| "stream_ok (w # ws) s = (server_ok w s \<and> stream_ok ws (server_step w s))"

lemma stream_ok_all_ok: "stream_ok ws s \<Longrightarrow> decoder_sim.all_ok ws s"
  by (induction ws arbitrary: s) (auto simp: server_act_def split: sum.splits)

text \<open>C3: over any stream a server may write (relations described before they are used, an xid in
  front of a message exactly while a streaming bracket is open), a fresh \<open>Decoder\<close> returns,
  message for message, what the server meant: every field, the table name of the latest description
  of the relation, the row, and the subtransaction id.\<close>

theorem decoder_refines_server:
  assumes "stream_ok ws server_init"
  shows "fst (arun decode (server_payloads ws server_init) decoder_init)
       = fst (arun server_act ws server_init)"
  using decode_payloads decoder_sim.sim_run in_sync_init stream_ok_all_ok [OF assms]
  by metis

definition demo_relation :: relation where
  "demo_relation =
     \<lparr>rel_id = 7, rel_namespace = lit ''public'', rel_name = lit ''outbox'',
      rel_replica_identity = lit ''d'',
      rel_columns = [\<lparr>col_name = lit ''id'', col_type_oid = 20, col_type_modifier = -1, col_is_key = True\<rparr>,
                     \<lparr>col_name = lit ''v'', col_type_oid = 25, col_type_modifier = -1, col_is_key = False\<rparr>]\<rparr>"

definition demo_stream :: "wire_message list" where
  "demo_stream =
     [WStreamStart \<lparr>start_xid = 9, start_first_segment = True\<rparr>,
      WRelation 9 demo_relation,
      WInsert 10 7 [WText (lit ''1''), WNull],
      WStreamStop,
      WStreamCommit \<lparr>scommit_xid = 9, scommit_commit_lsn = 100, scommit_end_lsn = 150,
                     scommit_commit_time = 5\<rparr>]"

lemmas demo_valid = demo_stream_def demo_relation_def server_init_def valid_stream_start_def
  valid_stream_commit_def valid_relation_def valid_column_def valid_name_def valid_tuple_def
  described_def known_def xid_ok_def u64_def u32_def u16_def is_scalar_def utf8_encode_char_def

theorem decoder_refines_server_witness:
  "stream_ok demo_stream server_init
   \<and> fst (arun decode (server_payloads demo_stream server_init) decoder_init)
     = fst (arun server_act demo_stream server_init)"
proof -
  have "stream_ok demo_stream server_init" by (simp add: demo_valid)
  then show ?thesis using decoder_refines_server by blast
qed

text \<open>C27: the row decoded from a tuple whose columns have distinct names holds, for each column,
  exactly what was sent: a text value, a SQL NULL, or, for an unchanged TOAST value, no entry at all,
  so that the three stay apart; it has no other entry, and the reader stops right after the tuple.\<close>

theorem decoded_row_holds_what_was_sent:
  assumes "drop off buf = encode_tuple vs @ rest" and "valid_tuple cols vs"
    and "distinct (map col_name cols)"
  shows "\<exists>row. decode_tuple_data buf off cols = Inr (row, off + length (encode_tuple vs))
           \<and> (\<forall>i < length cols. map_of row (col_name (cols ! i)) = value_of (vs ! i))
           \<and> (\<forall>k. k \<notin> col_name ` set cols \<longrightarrow> map_of row k = None)"
proof -
  have len: "length vs = length cols" using assms(2) by (simp add: valid_tuple_def)
  show ?thesis
    using decode_tuple_data_known [OF assms(1,2)] row_of_lookup [OF assms(3) len]
      sent_nth [OF assms(3) len] sent_other
    by (auto split: option.splits)
qed

theorem decoded_row_holds_what_was_sent_witness:
  "\<exists>row. decode_tuple_data (encode_tuple [WText [49], WUnchanged]) 0 (rel_columns demo_relation)
           = Inr (row, length (encode_tuple [WText [49], WUnchanged]))
        \<and> map_of row (lit ''id'') = Some (Some [49]) \<and> map_of row (lit ''v'') = None"
proof -
  have "valid_tuple (rel_columns demo_relation) [WText [49], WUnchanged]"
    "distinct (map col_name (rel_columns demo_relation))"
    by (simp_all add: demo_valid)
  from decoded_row_holds_what_was_sent [OF _ this, of 0 "encode_tuple [WText [49], WUnchanged]" "[]"]
  show ?thesis by (force simp: demo_relation_def less_Suc_eq)
qed

text \<open>C29: the old row of a key-only delete (marker \<open>K\<close>) is cut down to the key columns:
  each key column keeps what was sent, the non-key columns, which the wire carries as NULL, are gone.
  If a key column was sent as an unchanged TOAST value the decoder raises \<open>KeyError\<close>, which is
  not a walbox exception.\<close>

theorem key_delete_keeps_key_columns:
  assumes "valid_xid streaming x" and "map_of relations relid = Some r" and "u32 relid"
    and "valid_tuple (rel_columns r) vs" and "distinct (map col_name (rel_columns r))"
  shows "if \<exists>i < length vs. col_is_key (rel_columns r ! i) \<and> vs ! i = WUnchanged
         then decode_delete relations streaming (encode_delete x relid (KeyOld vs)) = Inl KeyError
         else \<exists>m. decode_delete relations streaming (encode_delete x relid (KeyOld vs)) = Inr m
                \<and> del_table m = qualified_name r \<and> del_subxid m = x
                \<and> (\<forall>k. map_of (del_old m) k
                     = (if \<exists>c \<in> set (rel_columns r). col_is_key c \<and> col_name c = k
                        then sent (rel_columns r) vs k else None))"
proof -
  let ?cols = "rel_columns r"
  let ?row = "row_of ?cols vs []"
  have len: "length vs = length ?cols" using assms(4) by (simp add: valid_tuple_def)
  have row: "\<And>k. map_of ?row k = sent ?cols vs k"
    using row_of_lookup [OF assms(5) len] by (simp split: option.splits)
  have nth: "\<And>i. i < length ?cols \<Longrightarrow> map_of ?row (col_name (?cols ! i)) = value_of (vs ! i)"
    using sent_nth [OF assms(5) len] row by simp
  have missing: "value_of v = None \<longleftrightarrow> v = WUnchanged" for v by (cases v) simp_all
  have dec: "decode_delete relations streaming (encode_delete x relid (KeyOld vs))
      = rbind (rmap Some (restrict_to_key_columns ?row ?cols)) (\<lambda>old.
        Inr \<lparr>del_relation_id = relid, del_table = qualified_name r, del_old = the old, del_subxid = x\<rparr>)"
    using decode_delete_known [OF assms(1,2,3), of "KeyOld vs"] assms(4) by simp
  have bad: "(\<exists>i < length vs. col_is_key (?cols ! i) \<and> vs ! i = WUnchanged)
      \<longleftrightarrow> \<not> (\<forall>c \<in> set ?cols. col_is_key c \<longrightarrow> map_of ?row (col_name c) \<noteq> None)"
    using nth missing len by (auto simp: all_set_conv_all_nth)
  show ?thesis
  proof (cases "\<exists>i < length vs. col_is_key (?cols ! i) \<and> vs ! i = WUnchanged")
    case True
    then have "restrict_to_key_columns ?row ?cols = Inl KeyError"
      using bad by (simp only: restrict_to_key_columns_def restrict_loop_result) simp
    then show ?thesis using True dec by simp
  next
    case False
    then obtain kept where kept: "restrict_to_key_columns ?row ?cols = Inr kept"
      using bad by (simp only: restrict_to_key_columns_def restrict_loop_result) auto
    show ?thesis using False dec kept restrict_lookup [OF kept] row by auto
  qed
qed

theorem key_delete_keeps_key_columns_witness:
  "\<exists>m. decode_delete [(7, demo_relation)] False (encode_delete None 7 (KeyOld [WText [49], WNull])) = Inr m
      \<and> map_of (del_old m) (lit ''id'') = Some (Some [49]) \<and> map_of (del_old m) (lit ''v'') = None"
proof -
  have "valid_tuple (rel_columns demo_relation) [WText [49], WNull]"
    "distinct (map col_name (rel_columns demo_relation))" "u32 7" "valid_xid False None"
    by (simp_all add: demo_valid valid_xid_def)
  note applied = key_delete_keeps_key_columns [OF this(4) _ this(3,1,2), of "[(7, demo_relation)]"]
  have no: "\<not> (\<exists>i < length [WText [49], WNull].
        col_is_key (rel_columns demo_relation ! i) \<and> [WText [49], WNull] ! i = WUnchanged)"
    by (auto simp: less_Suc_eq nth_Cons' split: if_splits)
  obtain m where
    "decode_delete [(7, demo_relation)] False (encode_delete None 7 (KeyOld [WText [49], WNull])) = Inr m"
    "\<forall>k. map_of (del_old m) k
      = (if \<exists>c \<in> set (rel_columns demo_relation). col_is_key c \<and> col_name c = k
         then sent (rel_columns demo_relation) [WText [49], WNull] k else None)"
    using applied unfolding if_not_P [OF no] by auto
  then show ?thesis by (intro exI [of _ m]) (simp add: demo_relation_def sent_def)
qed

text \<open>C32: on arbitrary bytes one call of \<open>Decoder.decode\<close> raises nothing but
  \<open>DecodeError\<close> or one of the built-in errors a short or malformed buffer causes
  (\<open>IndexError\<close>, \<open>ValueError\<close>, \<open>UnicodeDecodeError\<close>, \<open>KeyError\<close>); a raising
  call leaves the relation cache as it was and the bracket flag too, unless the kind byte was that of
  \<open>StreamStop\<close>; a returning call changes the decoder exactly as the message says; and a kind
  byte outside the fourteen supported ones always is a \<open>DecodeError\<close>.\<close>

theorem decode_exceptions_and_state:
  "case decode p d of
     (Inl e, d') \<Rightarrow>
       decoding_exn e
       \<and> d' = (if slice p 0 1 = blit ''E'' then d\<lparr>dec_streaming_active := False\<rparr> else d)
       \<and> ((\<forall>k \<in> set supported_kinds. slice p 0 1 \<noteq> [k]) \<longrightarrow> is_decode_error e)
   | (Inr m, d') \<Rightarrow> d' = decoder_after m d"
  using decode_result [of p d] decode_unsupported [of p d] by (auto split: prod.splits sum.splits)

theorem decode_exceptions_and_state_witness:
  "fst (decode [90] decoder_init) \<noteq> Inr StreamStop
   \<and> (case decode [90] decoder_init of (Inl e, d') \<Rightarrow> is_decode_error e \<and> d' = decoder_init
      | (Inr m, d') \<Rightarrow> False)"
  using decode_exceptions_and_state [of "[90]" decoder_init]
    decode_unsupported [of "[90]" decoder_init]
  by (simp add: supported_kinds_def)

text \<open>A row change cut off inside its last text value is not rejected: the decoder returns the
  shorter text as the column's value.\<close>

lemma cut_off_text_is_accepted:
  "decode_insert [(7, demo_relation)] False
     (butlast (encode_insert None 7 [WNull, WText (lit ''abc'')]))
   = Inr \<lparr>ins_relation_id = 7, ins_table = lit ''public.outbox'',
          ins_new = [(lit ''id'', None), (lit ''v'', Some (lit ''ab''))], ins_subxid = None\<rparr>"
  by code_simp

end
