(* ===== verification/Client_System.thy ===== *)
theory Client_System
  imports Client Pgoutput_Stream Assembler_Spec
begin

text \<open>
  \<open>run\<close> of \<open>walbox/client.py\<close> as a state machine. Its two tasks, the receiver and the
  consumer, the application's handler and the environment take turns; one event is what happens
  between two suspension points. \<open>walbox_step\<close> gives the state after an event, or \<open>None\<close>
  where the event is not possible. Beside the program's state the system keeps the committed
  checkpoint, a save joined to a transaction the handler has not committed yet, and a history: what
  was loaded, saved, sent, assembled, handed to the handler and handled.
\<close>

section \<open>State\<close>

datatype receiver = Reading | Putting transaction | ReceiverDone
datatype consumer = Getting | Handling transaction pyfloat | ConsumerDone

datatype phase =
    Connecting
  | SettingUp int
  | Running receiver consumer
  | Sleeping
  | Ended "exn option"

record store =
  st_committed :: "int option"
  st_joined :: "int option"

record history =
  h_loaded :: "int list"
  h_saved :: "int list"
  h_sent :: "standby_status_update list"
  h_starts :: "int list"
  h_delays :: "pyfloat list"
  h_backlog :: "transaction list"
  h_assembled :: "transaction list"
  h_delivered :: "transaction list"
  h_all_delivered :: "transaction list"
  h_handled :: "transaction list"

record system =
  sys_client :: client
  sys_phase :: phase
  sys_store :: store
  sys_history :: history

definition history_init :: history where
  "history_init =
     \<lparr>h_loaded = [], h_saved = [], h_sent = [], h_starts = [], h_delays = [], h_backlog = [],
      h_assembled = [], h_delivered = [], h_all_delivered = [], h_handled = []\<rparr>"

text \<open>\<open>run\<close> starts: the client may have been closed before.\<close>

definition loop_head :: "client \<Rightarrow> phase" where
  "loop_head c = (if cl_closing c then Ended None else Connecting)"

definition run_start :: "client \<Rightarrow> store \<Rightarrow> system" where
  "run_start c st =
     (let c = c\<lparr>cl_next_backoff := INITIAL_BACKOFF\<rparr>
      in \<lparr>sys_client = c, sys_phase = loop_head c, sys_store = st, sys_history = history_init\<rparr>)"


section \<open>Events\<close>

text \<open>
  What the checkpoint store answers to a save: it raises, and then the position may be stored all the
  same (a connection lost while it commits), or it returns.
\<close>

datatype save_answer = Saved | SaveRaises exn bool

text \<open>An \<open>exn option\<close> is the environment's answer: the exception raised, or none. \<open>Frame\<close> and
  \<open>Timeout\<close> carry the clock readings and the answer of a write, if there is one.\<close>

datatype event =
    Close
  | Load "exn option"
  | SetUp "exn option" pyfloat
  | Frame bytes pyfloat int "exn option"
  | ReadFails exn "exn list"
  | Timeout pyfloat int "exn option"
  | PutReady
  | Get pyfloat
  | Save int bool pyfloat pyfloat save_answer
  | JoinedCommit
  | JoinedRollback
  | HandlerReturns pyfloat
  | HandlerRaises exn "exn list"
  | Finish int "exn option" "exn option"
  | Wake

definition answer :: "exn option \<Rightarrow> bytes \<Rightarrow> exn + unit" where
  "answer e payload = (case e of None \<Rightarrow> Inr () | Some e \<Rightarrow> Inl e)"

text \<open>The receiver's loop head: after a frame or a delayed put.\<close>

definition receive_head :: "client \<Rightarrow> receiver" where
  "receive_head c = (if cl_closing c then ReceiverDone else Reading)"

text \<open>What \<open>run\<close> does with an exception that leaves \<open>_run_once\<close>.\<close>

definition run_catches :: "exn \<Rightarrow> system \<Rightarrow> system" where
  "run_catches e s =
     (if is_connection_error e
      then (if cl_closing (sys_client s) then s\<lparr>sys_phase := Ended None\<rparr>
            else let (delay, c) = reconnect_sleep (sys_client s)
                 in s\<lparr>sys_client := c, sys_phase := Sleeping,
                      sys_history := (sys_history s)\<lparr>h_delays := h_delays (sys_history s) @ [delay]\<rparr>\<rparr>)
      else s\<lparr>sys_phase := Ended (Some e)\<rparr>)"

text \<open>A task failed: the task group cancels the other one and waits for it; \<open>es\<close> are the
  exceptions of the failed tasks.\<close>

definition session_fails :: "exn list \<Rightarrow> system \<Rightarrow> system" where
  "session_fails es s = run_catches (unwrap_group es) s"

definition note_sent :: "bytes \<Rightarrow> history \<Rightarrow> history" where
  "note_sent payload h = h\<lparr>h_sent := h_sent h @ [decode_standby_status_update payload]\<rparr>"

definition note_frame :: "frame_outcome \<Rightarrow> history \<Rightarrow> history" where
  "note_frame outcome h =
     (case outcome of
        Quiet \<Rightarrow> h
      | Replied payload \<Rightarrow> note_sent payload h
      | Enqueued t \<Rightarrow> h\<lparr>h_assembled := h_assembled h @ [t]\<rparr>
      | Waiting t \<Rightarrow> h\<lparr>h_assembled := h_assembled h @ [t]\<rparr>)"

definition receiver_after :: "frame_outcome \<Rightarrow> client \<Rightarrow> receiver" where
  "receiver_after outcome c = (case outcome of Waiting t \<Rightarrow> Putting t | _ \<Rightarrow> receive_head c)"

definition store_save :: "save_answer \<Rightarrow> int \<Rightarrow> unit option \<Rightarrow> (client \<times> store, exn, unit) action" where
  "store_save ans lsn connection =
     (\<lambda>(c, st).
        (case ans of
           SaveRaises e landed \<Rightarrow>
             (Inl e, (c, if landed \<and> connection = None then st\<lparr>st_committed := Some lsn\<rparr> else st))
         | Saved \<Rightarrow>
             (Inr (), (c, if connection = None then st\<lparr>st_committed := Some lsn\<rparr>
                          else st\<lparr>st_joined := Some lsn\<rparr>))))"

definition handler_save ::
    "transaction \<Rightarrow> int \<Rightarrow> bool \<Rightarrow> pyfloat \<Rightarrow> pyfloat \<Rightarrow> save_answer
      \<Rightarrow> client \<Rightarrow> store \<Rightarrow> (exn + unit) \<times> client \<times> store" where
  "handler_save t lsn joined started finished ans c st =
     checkpoint_handle_save (process_handle (store_save ans) t) lsn (if joined then Some () else None)
       started finished (c, st)"


section \<open>The step function\<close>

definition deliver :: "transaction \<Rightarrow> history \<Rightarrow> history" where
  "deliver t h =
     h\<lparr>h_delivered := h_delivered h @ [t], h_all_delivered := h_all_delivered h @ [t]\<rparr>"

fun step_setup :: "event \<Rightarrow> system \<Rightarrow> system option" where
  "step_setup (Load (Some e)) s = Some (run_catches e s)"
| "step_setup (Load None) s =
     (let (start, c) = session_load (st_committed (sys_store s)) (sys_client s);
          h = sys_history s
      in Some (s\<lparr>sys_client := c, sys_phase := SettingUp start,
                 sys_history := h\<lparr>h_loaded := h_loaded h @ [cl_durable_lsn c]\<rparr>\<rparr>))"
| "step_setup _ s = None"

fun step_subscribe :: "int \<Rightarrow> event \<Rightarrow> system \<Rightarrow> system option" where
  "step_subscribe start (SetUp (Some e) now) s = Some (run_catches e s)"
| "step_subscribe start (SetUp None now) s =
     (let h = sys_history s
      in Some (s\<lparr>sys_client := session_subscribed now (sys_client s),
                 sys_phase := Running (receive_head (sys_client s)) Getting,
                 sys_history := h\<lparr>h_starts := h_starts h @ [start],
                   h_backlog := q_items (cl_queue (sys_client s)), h_assembled := [], h_delivered := []\<rparr>\<rparr>))"
| "step_subscribe start _ s = None"

fun step_receiver :: "receiver \<Rightarrow> consumer \<Rightarrow> event \<Rightarrow> system \<Rightarrow> system option" where
  "step_receiver Reading k (Frame payload now elapsed e) s =
     (case handle_frame payload now elapsed (answer e) (sys_client s) of
        (Inl x, c) \<Rightarrow>
          if x = QueueShutDown then Some (s\<lparr>sys_client := c, sys_phase := Running ReceiverDone k\<rparr>)
          else Some (session_fails [x] (s\<lparr>sys_client := c\<rparr>))
      | (Inr outcome, c) \<Rightarrow>
          Some (s\<lparr>sys_client := c, sys_phase := Running (receiver_after outcome c) k,
                  sys_history := note_frame outcome (sys_history s)\<rparr>))"
| "step_receiver Reading k (ReadFails x others) s = Some (session_fails (x # others) s)"
| "step_receiver (Putting t) k PutReady s =
     (if \<not> put_ready (cl_queue (sys_client s)) then None
      else case put_nowait t (cl_queue (sys_client s)) of
             (Inl x, q) \<Rightarrow> Some (s\<lparr>sys_phase := Running ReceiverDone k\<rparr>)
           | (Inr _, q) \<Rightarrow>
               let c = (sys_client s)\<lparr>cl_queue := q\<rparr>
               in Some (s\<lparr>sys_client := c, sys_phase := Running (receive_head c) k\<rparr>))"
| "step_receiver ReceiverDone k (Timeout now elapsed e) s = None"
| "step_receiver r k (Timeout now elapsed e) s =
     (case status_turn elapsed (answer e) now (sys_client s) of
        (Inl x, c) \<Rightarrow>
          if x = QueueShutDown then Some (s\<lparr>sys_client := c, sys_phase := Running ReceiverDone k\<rparr>)
          else Some (session_fails [x] (s\<lparr>sys_client := c\<rparr>))
      | (Inr payload, c) \<Rightarrow> Some (s\<lparr>sys_client := c, sys_history := note_sent payload (sys_history s)\<rparr>))"
| "step_receiver r k _ s = None"

fun step_consumer :: "receiver \<Rightarrow> consumer \<Rightarrow> event \<Rightarrow> system \<Rightarrow> system option" where
  "step_consumer r Getting (Get now) s =
     (if \<not> get_ready (cl_queue (sys_client s)) then None
      else case consume_get (sys_client s) of
             (Inl x, c) \<Rightarrow> Some (s\<lparr>sys_client := c, sys_phase := Running r ConsumerDone\<rparr>)
           | (Inr t, c) \<Rightarrow>
               Some (s\<lparr>sys_client := process_start t c, sys_phase := Running r (Handling t now),
                       sys_history := deliver t (sys_history s)\<rparr>))"
| "step_consumer r (Handling t began) (Save lsn joined started finished ans) s =
     (let (res, c, st) = handler_save t lsn joined started finished ans (sys_client s) (sys_store s);
          h = sys_history s
      in Some (s\<lparr>sys_client := c, sys_store := st,
                 sys_history := (case res of Inl _ \<Rightarrow> h | Inr _ \<Rightarrow> h\<lparr>h_saved := h_saved h @ [lsn]\<rparr>)\<rparr>))"
| "step_consumer r (Handling t began) (HandlerReturns now) s =
     (let h = sys_history s
      in Some (s\<lparr>sys_client := process_end began now (sys_client s), sys_phase := Running r Getting,
                 sys_history := h\<lparr>h_handled := h_handled h @ [t]\<rparr>\<rparr>))"
| "step_consumer r (Handling t began) (HandlerRaises x others) s = Some (session_fails (x # others) s)"
| "step_consumer r k _ s = None"

text \<open>Both tasks have returned: the final status update, \<open>end_copy\<close>, and the end of the loop.\<close>

fun step_finish :: "event \<Rightarrow> system \<Rightarrow> system option" where
  "step_finish (Finish elapsed e1 e2) s =
     (case send_status_update False elapsed (answer e1) (sys_client s) of
        Inl x \<Rightarrow> Some (run_catches x s)
      | Inr payload \<Rightarrow>
          let s = s\<lparr>sys_history := note_sent payload (sys_history s)\<rparr>
          in case e2 of
               Some x \<Rightarrow> Some (run_catches x s)
             | None \<Rightarrow> Some (s\<lparr>sys_phase := loop_head (sys_client s)\<rparr>))"
| "step_finish _ s = None"

fun step_store :: "event \<Rightarrow> system \<Rightarrow> system option" where
  "step_store JoinedCommit s =
     (case st_joined (sys_store s) of
        None \<Rightarrow> None
      | Some l \<Rightarrow> Some (s\<lparr>sys_store := \<lparr>st_committed = Some l, st_joined = None\<rparr>\<rparr>))"
| "step_store JoinedRollback s = Some (s\<lparr>sys_store := (sys_store s)\<lparr>st_joined := None\<rparr>\<rparr>)"
| "step_store _ s = None"

definition is_receiver_event :: "event \<Rightarrow> bool" where
  "is_receiver_event ev =
     (case ev of Frame _ _ _ _ \<Rightarrow> True | ReadFails _ _ \<Rightarrow> True | Timeout _ _ _ \<Rightarrow> True | PutReady \<Rightarrow> True
      | _ \<Rightarrow> False)"

definition is_store_event :: "event \<Rightarrow> bool" where
  "is_store_event ev = (case ev of JoinedCommit \<Rightarrow> True | JoinedRollback \<Rightarrow> True | _ \<Rightarrow> False)"

text \<open>The transport never raises the queue's own exception.\<close>

definition possible_event :: "event \<Rightarrow> bool" where
  "possible_event ev =
     (case ev of
        Frame _ _ _ e \<Rightarrow> e \<noteq> Some QueueShutDown
      | ReadFails e _ \<Rightarrow> e \<noteq> QueueShutDown
      | Timeout _ _ e \<Rightarrow> e \<noteq> Some QueueShutDown
      | _ \<Rightarrow> True)"

definition walbox_step :: "event \<Rightarrow> system \<Rightarrow> system option" where
  "walbox_step ev s =
     (if \<not> possible_event ev then None
      else if is_store_event ev then step_store ev s
      else if ev = Close then Some (s\<lparr>sys_client := client_close (sys_client s)\<rparr>)
      else case sys_phase s of
             Connecting \<Rightarrow> step_setup ev s
           | SettingUp start \<Rightarrow> step_subscribe start ev s
           | Sleeping \<Rightarrow>
               if ev = Wake
               then let c = reconnect_wake (sys_client s)
                    in Some (s\<lparr>sys_client := c, sys_phase := loop_head c\<rparr>)
               else None
           | Ended _ \<Rightarrow> None
           | Running r k \<Rightarrow>
               if r = ReceiverDone \<and> k = ConsumerDone then step_finish ev s
               else if is_receiver_event ev then step_receiver r k ev s
               else step_consumer r k ev s)"

fun walbox_run :: "event list \<Rightarrow> system \<Rightarrow> system option" where
  "walbox_run [] s = Some s"
| "walbox_run (ev # evs) s = (case walbox_step ev s of None \<Rightarrow> None | Some s' \<Rightarrow> walbox_run evs s')"

inductive reachable :: "client \<Rightarrow> store \<Rightarrow> system \<Rightarrow> bool" for c :: client and st :: store where
  reachable_start: "reachable c st (run_start c st)"
| reachable_step: "reachable c st s \<Longrightarrow> walbox_step ev s = Some s' \<Longrightarrow> reachable c st s'"


section \<open>What the client's operations keep\<close>

text \<open>The part of the client that only a few operations touch.\<close>

definition core :: "client \<Rightarrow> walbox_options \<times> int \<times> bool \<times> pyfloat \<times> int \<times> int \<times> int" where
  "core c = (cl_options c, cl_durable_lsn c, cl_closing c, cl_next_backoff c, cl_reconnect_count c,
             cl_transactions_processed c, cl_changes_processed c)"

lemma core_eq:
  "core c' = core c \<longleftrightarrow>
     cl_options c' = cl_options c \<and> cl_durable_lsn c' = cl_durable_lsn c
     \<and> cl_closing c' = cl_closing c \<and> cl_next_backoff c' = cl_next_backoff c
     \<and> cl_reconnect_count c' = cl_reconnect_count c
     \<and> cl_transactions_processed c' = cl_transactions_processed c
     \<and> cl_changes_processed c' = cl_changes_processed c"
  by (simp add: core_def)

lemma core_simps [simp]:
  "core (c\<lparr>cl_queue := q\<rparr>) = core c"
  "core (c\<lparr>cl_decoder := d\<rparr>) = core c"
  "core (c\<lparr>cl_assembler := a\<rparr>) = core c"
  "core (c\<lparr>cl_last_written_lsn := l\<rparr>) = core c"
  "core (c\<lparr>cl_receive_lsn := l\<rparr>) = core c"
  "core (c\<lparr>cl_last_keepalive_wal_end := l\<rparr>) = core c"
  "core (c\<lparr>cl_last_keepalive_at := tm\<rparr>) = core c"
  "core (c\<lparr>cl_next_status_at := tm\<rparr>) = core c"
  "core (c\<lparr>cl_last_written_lsn := l, cl_receive_lsn := l'\<rparr>) = core c"
  "core (c\<lparr>cl_last_written_lsn := l, cl_last_keepalive_wal_end := l', cl_last_keepalive_at := tm\<rparr>) = core c"
  by (simp_all add: core_def)

lemma send_status_known:
  assumes "send_status_update reply elapsed write c = Inr payload"
  shows "decode_standby_status_update payload = current_status reply elapsed c"
proof -
  have "encode_standby_status_update (current_status reply elapsed c) = Inr payload"
    using assms by (auto simp: send_status_update_def rbind_eq_Inr split: if_splits)
  then show ?thesis
    using decode_status_encode [of "current_status reply elapsed c"]
      encode_status_overflow [of "current_status reply elapsed c"] by fastforce
qed

lemma handle_keepalive_core:
  assumes "handle_keepalive k now elapsed write c = (r, c')"
  shows "core c' = core c \<and> cl_queue c' = cl_queue c
       \<and> (\<forall>p. r = Inr (Some p) \<longrightarrow> decode_standby_status_update p = current_status False elapsed c')"
proof -
  let ?c = "c\<lparr>cl_last_written_lsn := max (cl_last_written_lsn c) (keepalive_wal_end k),
                cl_last_keepalive_wal_end := keepalive_wal_end k, cl_last_keepalive_at := now\<rparr>"
  obtain c1 where c1: "c1 = ?c" by simp
  have same: "core c1 = core c" "cl_queue c1 = cl_queue c" by (simp_all add: c1)
  have eq: "handle_keepalive k now elapsed write c =
      (if keepalive_reply_requested k
       then (rbind (send_status_update False elapsed write c1) (\<lambda>payload. Inr (Some payload)), c1)
       else (Inr None, c1))"
    unfolding handle_keepalive_def Let_def c1 by (rule refl)
  show ?thesis
  proof (cases "send_status_update False elapsed write c1")
    case (Inl e)
    then show ?thesis using assms eq same by (auto split: if_splits)
  next
    case (Inr p)
    from send_status_known [OF this] show ?thesis
      using assms eq same Inr by (auto split: if_splits)
  qed
qed

text \<open>\<open>handle_xlog_data\<close> with its intermediate clients named.\<close>

lemma handle_xlog_unfold:
  obtains c1 r d c2 where "core c1 = core c" "cl_queue c1 = cl_queue c"
    "decode (xlog_payload x) (cl_decoder c) = (r, d)" "c2 = c1\<lparr>cl_decoder := d\<rparr>"
    "cl_assembler c1 = cl_assembler c"
    "handle_xlog_data x c =
      (case r of
         Inl e \<Rightarrow> (Inl e, c2)
       | Inr m \<Rightarrow>
           if is_unactionable m then (Inr None, c2)
           else (fst (feed m (cl_assembler c)), c2\<lparr>cl_assembler := snd (feed m (cl_assembler c))\<rparr>))"
proof -
  let ?c = "c\<lparr>cl_last_written_lsn := max (cl_last_written_lsn c) (wal_start x),
                cl_receive_lsn := max (cl_receive_lsn c) (wal_start x)\<rparr>"
  obtain r d where d: "decode (xlog_payload x) (cl_decoder c) = (r, d)" by fastforce
  have "handle_xlog_data x c =
      (case r of
         Inl e \<Rightarrow> (Inl e, ?c\<lparr>cl_decoder := d\<rparr>)
       | Inr m \<Rightarrow>
           if is_unactionable m then (Inr None, ?c\<lparr>cl_decoder := d\<rparr>)
           else (fst (feed m (cl_assembler c)),
                 ?c\<lparr>cl_decoder := d\<rparr>\<lparr>cl_assembler := snd (feed m (cl_assembler c))\<rparr>))"
    using d by (simp add: handle_xlog_data_def Let_def case_prod_beta split: sum.split)
  then show ?thesis using that [of ?c r d "?c\<lparr>cl_decoder := d\<rparr>"] d by simp
qed

lemma handle_xlog_core:
  assumes "handle_xlog_data x c = (r, c')"
  shows "core c' = core c \<and> cl_queue c' = cl_queue c"
  by (rule handle_xlog_unfold [of c x]) (use assms in \<open>auto split: sum.splits if_splits\<close>)

lemma put_nowait_failed: "put_nowait t q = (Inl e, q') \<Longrightarrow> q' = q"
  by (simp add: put_nowait_def split: if_splits)

lemma enqueue_core:
  assumes "enqueue t c = (r, c')"
  shows "core c' = core c \<and> cl_queue c' = snd (put_nowait t (cl_queue c))
       \<and> (r = Inr True \<longleftrightarrow> fst (put_nowait t (cl_queue c)) = Inr ())"
proof -
  obtain r1 q where q: "put_nowait t (cl_queue c) = (r1, q)" by fastforce
  show ?thesis
  proof (cases r1)
    case (Inl e)
    then show ?thesis
      using assms q put_nowait_failed [of t "cl_queue c" e q] by (auto simp: enqueue_def split: if_splits)
  next
    case (Inr u)
    then show ?thesis using assms q by (auto simp: enqueue_def)
  qed
qed

text \<open>The queue and the replies after a frame.\<close>

lemma handle_frame_core:
  assumes "handle_frame payload now elapsed write c = (r, c')"
  shows "core c' = core c"
    and "cl_queue c' = (case r of Inr (Enqueued t) \<Rightarrow> snd (put_nowait t (cl_queue c)) | _ \<Rightarrow> cl_queue c)"
    and "r = Inr (Enqueued t) \<Longrightarrow> fst (put_nowait t (cl_queue c)) = Inr ()"
    and "r = Inr (Replied p) \<Longrightarrow> decode_standby_status_update p = current_status False elapsed c'"
proof -
  have "core c' = core c
     \<and> cl_queue c' = (case r of Inr (Enqueued t) \<Rightarrow> snd (put_nowait t (cl_queue c)) | _ \<Rightarrow> cl_queue c)
     \<and> (r = Inr (Enqueued t) \<longrightarrow> fst (put_nowait t (cl_queue c)) = Inr ())
     \<and> (r = Inr (Replied p) \<longrightarrow> decode_standby_status_update p = current_status False elapsed c')"
  proof (cases "decode_replication_message payload")
    case (Inl e)
    then show ?thesis using assms by (auto simp: handle_frame_def)
  next
    case (Inr m)
    show ?thesis
    proof (cases m)
      case (XLogData x)
      obtain r1 c1 where x: "handle_xlog_data x c = (r1, c1)" by fastforce
      note core1 = handle_xlog_core [OF x]
      show ?thesis
      proof (cases "\<exists>t. r1 = Inr (Some t)")
        case True
        then obtain t where t: "r1 = Inr (Some t)" by blast
        obtain r2 c2 where e: "enqueue t c1 = (r2, c2)" by fastforce
        show ?thesis
          using assms Inr XLogData x t e core1 enqueue_core [OF e]
            put_nowait_failed [of t "cl_queue c1"]
          by (cases r2; cases "put_nowait t (cl_queue c)"; cases "fst (put_nowait t (cl_queue c))")
            (auto simp: handle_frame_def split: if_splits)
      next
        case False
        then show ?thesis
          using assms Inr XLogData x core1
          by (auto simp: handle_frame_def split: sum.splits option.splits)
      qed
    next
      case (PrimaryKeepalive k)
      obtain r1 c1 where k: "handle_keepalive k now elapsed write c = (r1, c1)" by fastforce
      show ?thesis
        using assms Inr PrimaryKeepalive k handle_keepalive_core [OF k]
        by (auto simp: handle_frame_def split: sum.splits option.splits)
    qed
  qed
  then show "core c' = core c"
    "cl_queue c' = (case r of Inr (Enqueued t) \<Rightarrow> snd (put_nowait t (cl_queue c)) | _ \<Rightarrow> cl_queue c)"
    "r = Inr (Enqueued t) \<Longrightarrow> fst (put_nowait t (cl_queue c)) = Inr ()"
    "r = Inr (Replied p) \<Longrightarrow> decode_standby_status_update p = current_status False elapsed c'"
    by blast+
qed

lemma status_turn_core:
  assumes "status_turn elapsed write now c = (r, c')"
  shows "core c' = core c" and "cl_queue c' = cl_queue c"
    and "r = Inr p \<Longrightarrow> decode_standby_status_update p = current_status False elapsed c"
  using assms send_status_known
  by (auto simp: status_turn_def core_eq split: if_splits sum.splits)


section \<open>Where the queue's exception comes from\<close>

lemma decode_never_shutdown: "fst (decode p d) \<noteq> Inl QueueShutDown"
  using decode_result [of p d] by (auto simp: decoding_exn_def split: prod.splits sum.splits)

lemma feed_never_shutdown: "fst (feed m a) \<noteq> Inl QueueShutDown"
proof
  assume "fst (feed m a) = Inl QueueShutDown"
  from feed_raises_only [OF this] show False by (cases m) auto
qed

lemma send_status_shutdown:
  "send_status_update reply elapsed (answer e) c = Inl QueueShutDown \<Longrightarrow> e = Some QueueShutDown"
  by (auto simp: send_status_update_def rbind_eq_Inl encode_standby_status_update_def
      int_to_bytes_u64 answer_def split: if_splits option.splits)

lemma enqueue_shutdown: "fst (enqueue t c) = Inl QueueShutDown \<Longrightarrow> q_is_shutdown (cl_queue c)"
  by (cases "put_nowait t (cl_queue c)"; cases "fst (put_nowait t (cl_queue c))")
    (auto simp: enqueue_def put_nowait_def split: if_splits)

lemma handle_xlog_shutdown: "handle_xlog_data x c \<noteq> (Inl QueueShutDown, c')"
proof (rule handle_xlog_unfold [of c x])
  fix c1 r d c2
  assume "decode (xlog_payload x) (cl_decoder c) = (r, d)"
    and eq: "handle_xlog_data x c =
      (case r of
         Inl e \<Rightarrow> (Inl e, c2)
       | Inr m \<Rightarrow>
           if is_unactionable m then (Inr None, c2)
           else (fst (feed m (cl_assembler c)), c2\<lparr>cl_assembler := snd (feed m (cl_assembler c))\<rparr>))"
  then have "r \<noteq> Inl QueueShutDown" using decode_never_shutdown by (metis fst_conv)
  then show ?thesis using eq feed_never_shutdown by (cases r) auto
qed

lemma handle_frame_shutdown:
  assumes "handle_frame payload now elapsed (answer e) c = (Inl QueueShutDown, c')"
    and "e \<noteq> Some QueueShutDown"
  shows "q_is_shutdown (cl_queue c)"
proof (cases "decode_replication_message payload")
  case (Inl x)
  then have "is_protocol_error x" using decode_replication_error by blast
  then show ?thesis using assms Inl by (auto simp: handle_frame_def)
next
  case (Inr m)
  show ?thesis
  proof (cases m)
    case (XLogData x)
    obtain r1 c1 where x: "handle_xlog_data x c = (r1, c1)" by fastforce
    have "r1 \<noteq> Inl QueueShutDown" using x handle_xlog_shutdown by blast
    then obtain t where "r1 = Inr (Some t)" "fst (enqueue t c1) = Inl QueueShutDown"
      using assms Inr XLogData x
      by (auto simp: handle_frame_def split: sum.splits option.splits prod.splits)
    then show ?thesis using enqueue_shutdown handle_xlog_core [OF x] by metis
  next
    case (PrimaryKeepalive k)
    then have "fst (handle_keepalive k now elapsed (answer e) c) = Inl QueueShutDown"
      using assms Inr by (auto simp: handle_frame_def split: sum.splits option.splits prod.splits)
    then show ?thesis
      using assms(2) send_status_shutdown
      by (fastforce simp: handle_keepalive_def Let_def rbind_eq_Inl split: if_splits)
  qed
qed


section \<open>The steps as a relation\<close>

text \<open>
  What one step can do to the system, the client's untouched parts summed up by \<open>core\<close>. Every
  invariant below is checked against this relation.
\<close>

definition touched :: "client \<Rightarrow> client \<Rightarrow> bool" where
  "touched c c' = (core c' = core c \<and> cl_queue c' = cl_queue c)"

inductive effect :: "system \<Rightarrow> system \<Rightarrow> bool" where
  eff_store: "effect s (s\<lparr>sys_store := st\<rparr>)"
| eff_close: "effect s (s\<lparr>sys_client := client_close (sys_client s)\<rparr>)"
| eff_load: "sys_phase s = Connecting \<Longrightarrow>
    session_load (st_committed (sys_store s)) (sys_client s) = (start, c) \<Longrightarrow>
    effect s (s\<lparr>sys_client := c, sys_phase := SettingUp start,
      sys_history := (sys_history s)\<lparr>h_loaded := h_loaded (sys_history s) @ [cl_durable_lsn c]\<rparr>\<rparr>)"
| eff_subscribe: "sys_phase s = SettingUp start \<Longrightarrow>
    effect s (s\<lparr>sys_client := session_subscribed now (sys_client s),
      sys_phase := Running (receive_head (sys_client s)) Getting,
      sys_history := (sys_history s)\<lparr>h_starts := h_starts (sys_history s) @ [start],
        h_backlog := q_items (cl_queue (sys_client s)), h_assembled := [], h_delivered := []\<rparr>\<rparr>)"
| eff_frame: "sys_phase s = Running Reading k \<Longrightarrow>
    handle_frame payload now elapsed write (sys_client s) = (Inr outcome, c) \<Longrightarrow>
    effect s (s\<lparr>sys_client := c, sys_phase := Running (receiver_after outcome c) k,
      sys_history := note_frame outcome (sys_history s)\<rparr>)"
| eff_stop_receiver: "sys_phase s = Running r k \<Longrightarrow> touched (sys_client s) c \<Longrightarrow>
    cl_closing (sys_client s) \<or> q_is_shutdown (cl_queue (sys_client s)) \<Longrightarrow>
    effect s (s\<lparr>sys_client := c, sys_phase := Running ReceiverDone k\<rparr>)"
| eff_put: "sys_phase s = Running (Putting t) k \<Longrightarrow>
    put_nowait t (cl_queue (sys_client s)) = (Inr (), q) \<Longrightarrow>
    effect s (s\<lparr>sys_client := (sys_client s)\<lparr>cl_queue := q\<rparr>,
      sys_phase := Running (receive_head (sys_client s)) k\<rparr>)"
| eff_timeout: "sys_phase s = Running r k \<Longrightarrow> touched (sys_client s) c \<Longrightarrow>
    decode_standby_status_update payload = current_status False elapsed (sys_client s) \<Longrightarrow>
    effect s (s\<lparr>sys_client := c, sys_history := note_sent payload (sys_history s)\<rparr>)"
| eff_get: "sys_phase s = Running r Getting \<Longrightarrow>
    queue_get (cl_queue (sys_client s)) = (Inr t, q) \<Longrightarrow>
    effect s (s\<lparr>sys_client := process_start t ((sys_client s)\<lparr>cl_queue := q\<rparr>),
      sys_phase := Running r (Handling t now), sys_history := deliver t (sys_history s)\<rparr>)"
| eff_stop_consumer: "sys_phase s = Running r Getting \<Longrightarrow> q_is_shutdown (cl_queue (sys_client s)) \<Longrightarrow>
    effect s (s\<lparr>sys_phase := Running r ConsumerDone\<rparr>)"
| eff_save: "sys_phase s = Running r (Handling t began) \<Longrightarrow> lsn \<le> tx_commit_lsn t \<Longrightarrow>
    effect s (s\<lparr>sys_client := record_durable_progress lsn latency (sys_client s), sys_store := st,
      sys_history := (sys_history s)\<lparr>h_saved := h_saved (sys_history s) @ [lsn]\<rparr>\<rparr>)"
| eff_returns: "sys_phase s = Running r (Handling t began) \<Longrightarrow>
    effect s (s\<lparr>sys_client := process_end began now (sys_client s), sys_phase := Running r Getting,
      sys_history := (sys_history s)\<lparr>h_handled := h_handled (sys_history s) @ [t]\<rparr>\<rparr>)"
| eff_caught: "touched (sys_client s) c \<Longrightarrow>
    effect s (run_catches e (s\<lparr>sys_client := c\<rparr>))"
| eff_final: "sys_phase s = Running ReceiverDone ConsumerDone \<Longrightarrow>
    decode_standby_status_update payload = current_status False elapsed (sys_client s) \<Longrightarrow>
    s' = s\<lparr>sys_history := note_sent payload (sys_history s)\<rparr> \<Longrightarrow>
    s'' = run_catches e s' \<or> s'' = s'\<lparr>sys_phase := loop_head (sys_client s)\<rparr> \<Longrightarrow>
    effect s s''"
| eff_wake: "sys_phase s = Sleeping \<Longrightarrow>
    effect s (s\<lparr>sys_client := reconnect_wake (sys_client s), sys_phase := loop_head (sys_client s)\<rparr>)"

lemma touched_refl [simp]: "touched c c"
  by (simp add: touched_def)

lemma step_setup_effect:
  "sys_phase s = Connecting \<Longrightarrow> step_setup ev s = Some s' \<Longrightarrow> effect s s'"
  using eff_caught [of s "sys_client s"]
  by (cases "(ev, s)" rule: step_setup.cases) (auto simp: Let_def split: prod.splits intro: eff_load)

lemma step_subscribe_effect:
  "sys_phase s = SettingUp start \<Longrightarrow> step_subscribe start ev s = Some s' \<Longrightarrow> effect s s'"
  using eff_caught [of s "sys_client s"]
  by (cases "(start, ev, s)" rule: step_subscribe.cases) (auto simp: Let_def intro: eff_subscribe)

lemma step_store_effect: "step_store ev s = Some s' \<Longrightarrow> effect s s'"
  by (cases "(ev, s)" rule: step_store.cases) (auto split: option.splits intro: eff_store)

lemma frame_effect:
  assumes "sys_phase s = Running Reading k" and "e \<noteq> Some QueueShutDown"
    and "step_receiver Reading k (Frame payload now elapsed e) s = Some s'"
  shows "effect s s'"
proof -
  obtain r c where f: "handle_frame payload now elapsed (answer e) (sys_client s) = (r, c)" by fastforce
  show ?thesis
  proof (cases r)
    case (Inl x)
    have same: "touched (sys_client s) c"
      using handle_frame_core(1,2) [OF f] Inl by (simp add: touched_def)
    show ?thesis
    proof (cases "x = QueueShutDown")
      case True
      then have "q_is_shutdown (cl_queue (sys_client s))"
        using handle_frame_shutdown f Inl assms(2) by blast
      then show ?thesis using assms(1,3) f Inl True same by (auto intro: eff_stop_receiver)
    next
      case False
      then show ?thesis using assms(3) f Inl same by (auto simp: session_fails_def intro: eff_caught)
    qed
  next
    case (Inr outcome)
    then show ?thesis using assms(1,3) f by (auto intro: eff_frame)
  qed
qed

lemma timeout_effect:
  assumes "sys_phase s = Running r k" and "e \<noteq> Some QueueShutDown" and "r \<noteq> ReceiverDone"
    and "step_receiver r k (Timeout now elapsed e) s = Some s'"
  shows "effect s s'"
proof -
  obtain res c where f: "status_turn elapsed (answer e) now (sys_client s) = (res, c)" by fastforce
  have step: "step_receiver r k (Timeout now elapsed e) s =
     (case (res, c) of
        (Inl x, c) \<Rightarrow>
          if x = QueueShutDown then Some (s\<lparr>sys_client := c, sys_phase := Running ReceiverDone k\<rparr>)
          else Some (session_fails [x] (s\<lparr>sys_client := c\<rparr>))
      | (Inr payload, c) \<Rightarrow> Some (s\<lparr>sys_client := c, sys_history := note_sent payload (sys_history s)\<rparr>))"
    using assms(3) f by (cases r) simp_all
  have same: "touched (sys_client s) c"
    using status_turn_core(1,2) [OF f] by (simp add: touched_def)
  show ?thesis
  proof (cases res)
    case (Inl x)
    show ?thesis
    proof (cases "x = QueueShutDown")
      case True
      then have "cl_closing (sys_client s)"
        using f Inl assms(2) send_status_shutdown
        by (auto simp: status_turn_def maybe_report_metrics_def split: if_splits sum.splits option.splits)
      then show ?thesis using assms(1,4) step Inl True same by (auto intro: eff_stop_receiver)
    next
      case False
      then show ?thesis using assms(4) step Inl same by (auto simp: session_fails_def intro: eff_caught)
    qed
  next
    case (Inr payload)
    then show ?thesis
      using assms(1,4) step same status_turn_core(3) [OF f] by (auto intro: eff_timeout)
  qed
qed

lemma put_effect:
  assumes "sys_phase s = Running (Putting t) k"
    and "step_receiver (Putting t) k PutReady s = Some s'"
  shows "effect s s'"
proof -
  let ?q = "cl_queue (sys_client s)"
  obtain r q where p: "put_nowait t ?q = (r, q)" by fastforce
  show ?thesis
  proof (cases r)
    case (Inl x)
    then have "q_is_shutdown ?q"
      using p assms(2) by (auto simp: put_ready_def put_nowait_def split: if_splits)
    then show ?thesis
      using assms p Inl eff_stop_receiver [of s "Putting t" k "sys_client s"]
      by (auto split: if_splits)
  next
    case (Inr u)
    then have "put_nowait t ?q = (Inr (), q)" using p by simp
    from eff_put [OF assms(1) this] show ?thesis
      using assms p Inr by (auto simp: Let_def receive_head_def split: if_splits)
  qed
qed

lemma step_receiver_effect:
  assumes "sys_phase s = Running r k" and "possible_event ev" and "step_receiver r k ev s = Some s'"
  shows "effect s s'"
  using assms
  by (cases "(r, k, ev, s)" rule: step_receiver.cases)
    (auto simp: possible_event_def session_fails_def
      intro: frame_effect timeout_effect put_effect eff_caught [of s "sys_client s", simplified])

lemma save_effect:
  assumes "sys_phase s = Running r (Handling t began)"
    and "step_consumer r (Handling t began) (Save lsn joined started finished ans) s = Some s'"
  shows "effect s s'"
proof (cases "lsn \<le> tx_commit_lsn t \<and> ans = Saved")
  case True
  then show ?thesis
    using assms
    by (auto simp: handler_save_def checkpoint_handle_save_def process_handle_def store_save_def
        abind_split Let_def intro!: eff_save)
next
  case False
  then have "s' = s \<or> (\<exists>st. s' = s\<lparr>sys_store := st\<rparr>)"
    using assms
    by (auto simp: handler_save_def checkpoint_handle_save_def process_handle_def store_save_def
        abind_split Let_def split: save_answer.splits if_splits)
  then show ?thesis using eff_store [of s "sys_store s"] eff_store by auto
qed

lemma step_consumer_effect:
  assumes "sys_phase s = Running r k" and "step_consumer r k ev s = Some s'"
  shows "effect s s'"
proof (cases "(r, k, ev, s)" rule: step_consumer.cases)
  case (1 r now s)
  show ?thesis
  proof (cases "q_items (cl_queue (sys_client s))")
    case Nil
    then show ?thesis
      using assms 1 eff_stop_consumer [of s r]
      by (auto simp: get_ready_def consume_get_def queue_get_def split: if_splits)
  next
    case (Cons t ts)
    then show ?thesis
      using assms 1 by (auto simp: get_ready_def consume_get_def queue_get_def intro!: eff_get)
  qed
next
  case (2 r t began lsn joined started finished ans s)
  then show ?thesis using assms save_effect by blast
next
  case (3 r t began now s)
  then show ?thesis using assms by (auto simp: Let_def intro: eff_returns)
next
  case (4 r t began x others s)
  then show ?thesis using assms eff_caught [of s "sys_client s"] by (auto simp: session_fails_def)
qed (use assms in auto)

lemma step_finish_effect:
  assumes "sys_phase s = Running ReceiverDone ConsumerDone" and "step_finish ev s = Some s'"
  shows "effect s s'"
proof (cases "(ev, s)" rule: step_finish.cases)
  case (1 elapsed e1 e2 s)
  show ?thesis
  proof (cases "send_status_update False elapsed (answer e1) (sys_client s)")
    case (Inl x)
    then show ?thesis using assms 1 eff_caught [of s "sys_client s"] by auto
  next
    case (Inr payload)
    then show ?thesis
      using assms 1 eff_final [OF _ send_status_known [OF Inr] refl]
      by (auto simp: Let_def split: option.splits)
  qed
qed (use assms in auto)

lemma walbox_step_effect:
  assumes "walbox_step ev s = Some s'"
  shows "effect s s'"
proof -
  have poss: "possible_event ev" using assms by (simp add: walbox_step_def split: if_splits)
  show ?thesis
  proof (cases "is_store_event ev \<or> ev = Close")
    case True
    then show ?thesis
      using assms poss step_store_effect [of ev s s'] eff_close [of s]
      by (auto simp: walbox_step_def is_store_event_def)
  next
    case False
    then have phase: "(case sys_phase s of
             Connecting \<Rightarrow> step_setup ev s
           | SettingUp start \<Rightarrow> step_subscribe start ev s
           | Sleeping \<Rightarrow>
               if ev = Wake
               then let c = reconnect_wake (sys_client s)
                    in Some (s\<lparr>sys_client := c, sys_phase := loop_head c\<rparr>)
               else None
           | Ended _ \<Rightarrow> None
           | Running r k \<Rightarrow>
               if r = ReceiverDone \<and> k = ConsumerDone then step_finish ev s
               else if is_receiver_event ev then step_receiver r k ev s
               else step_consumer r k ev s) = Some s'"
      using assms poss unfolding walbox_step_def by (simp only: de_Morgan_disj if_False not_True_eq_False)
    show ?thesis
    proof (cases "sys_phase s")
      case Connecting
      then show ?thesis using phase step_setup_effect by simp
    next
      case (SettingUp start)
      then show ?thesis using phase step_subscribe_effect by simp
    next
      case Sleeping
      then show ?thesis
        using phase eff_wake [of s] by (auto simp: Let_def loop_head_def reconnect_wake_def split: if_splits)
    next
      case (Running r k)
      then show ?thesis
        using phase step_finish_effect [of s ev s'] step_receiver_effect [OF Running poss, of s']
          step_consumer_effect [OF Running, of ev s']
        by (auto split: if_splits)
    next
      case (Ended e)
      then show ?thesis using phase by simp
    qed
  qed
qed

end
