(* ===== verification/Client_Invariants.thy ===== *)
theory Client_Invariants
  imports Client_System "HOL-Library.Sublist"
begin

text \<open>
  Invariants of the running client, each checked against the relation \<open>effect\<close>: the queue is
  bounded and is shut down exactly when the client is closing; the handler gets the transactions in
  the order they were put in; feedback is covered by what was loaded or saved; the metrics counters
  count what happened; the back-off delays stay in their range; the loop ends quietly only after
  \<open>close()\<close>.
\<close>

lemma reachable_induct_effect:
  assumes "reachable c st s" and "P (run_start c st)"
    and "\<And>s s'. P s \<Longrightarrow> effect s s' \<Longrightarrow> P s'"
  shows "P s"
  using assms(1)
proof (induction rule: reachable.induct)
  case reachable_start
  show ?case by (rule assms(2))
next
  case (reachable_step s ev s')
  then show ?case using assms(3) walbox_step_effect by blast
qed

lemma reachable_run: "reachable c st s \<Longrightarrow> walbox_run evs s = Some s' \<Longrightarrow> reachable c st s'"
  by (induction evs arbitrary: s) (auto split: option.splits intro: reachable_step)

lemmas op_defs = client_close_def session_subscribed_def reconnect_wake_def process_start_def
  process_end_def record_durable_progress_def

text \<open>The two ways \<open>run\<close> takes an exception.\<close>

lemma run_catches_cases:
  obtains (ended) r where "run_catches e s = s\<lparr>sys_phase := Ended r\<rparr>"
      "r = None \<Longrightarrow> cl_closing (sys_client s)" "r = None \<Longrightarrow> is_connection_error e"
      "r \<noteq> None \<Longrightarrow> r = Some e"
    | (sleeping) "is_connection_error e" "\<not> cl_closing (sys_client s)"
      "run_catches e s = s\<lparr>sys_client := (sys_client s)\<lparr>cl_reconnect_count := cl_reconnect_count (sys_client s) + 1\<rparr>,
         sys_phase := Sleeping,
         sys_history := (sys_history s)\<lparr>h_delays := h_delays (sys_history s) @ [cl_next_backoff (sys_client s)]\<rparr>\<rparr>"
  by (cases "is_connection_error e"; cases "cl_closing (sys_client s)")
    (auto simp: run_catches_def reconnect_sleep_def Let_def)


section \<open>The queue\<close>

definition queue_inv :: "walbox_options \<Rightarrow> client \<Rightarrow> bool" where
  "queue_inv opts c =
     (cl_options c = opts \<and> q_maxsize (cl_queue c) = opt_max_pending_transactions opts
      \<and> queue_fits (cl_queue c) \<and> q_is_shutdown (cl_queue c) = cl_closing c
      \<and> (cl_closing c \<longrightarrow> q_items (cl_queue c) = []))"

lemma queue_inv_touched: "touched c c' \<Longrightarrow> queue_inv opts c \<Longrightarrow> queue_inv opts c'"
  by (simp add: queue_inv_def touched_def core_eq)

lemma queue_inv_put:
  assumes "queue_inv opts c" and "core c' = core c" and "cl_queue c' = snd (put_nowait t (cl_queue c))"
  shows "queue_inv opts c'"
  using assms walbox_queue.put_fits [of "cl_queue c" t]
  by (auto simp: queue_inv_def core_eq put_nowait_def)

lemma queue_inv_get:
  assumes "queue_inv opts c" and "core c' = core c" and "cl_queue c' = snd (queue_get (cl_queue c))"
  shows "queue_inv opts c'"
  using assms walbox_queue.get_fits [of "cl_queue c"]
  by (auto simp: queue_inv_def core_eq queue_get_def split: list.splits)

lemma queue_inv_frame:
  assumes "queue_inv opts c" and "handle_frame payload now elapsed write c = (r, c')"
  shows "queue_inv opts c'"
proof (cases "\<exists>t. r = Inr (Enqueued t)")
  case True
  then show ?thesis
    using handle_frame_core(1,2) [OF assms(2)] queue_inv_put [OF assms(1)] by auto
next
  case False
  then have "touched c c'"
    using handle_frame_core(1,2) [OF assms(2)]
    by (auto simp: touched_def split: sum.splits frame_outcome.splits)
  then show ?thesis using queue_inv_touched assms(1) by blast
qed

text \<open>The operations outside \<open>core\<close> leave the queue alone.\<close>

lemma queue_inv_ops:
  "queue_inv opts c \<Longrightarrow> queue_inv opts (client_close c)"
  "queue_inv opts c \<Longrightarrow> queue_inv opts (session_subscribed now c)"
  "queue_inv opts c \<Longrightarrow> queue_inv opts (reconnect_wake c)"
  "queue_inv opts c \<Longrightarrow> queue_inv opts (process_start t c)"
  "queue_inv opts c \<Longrightarrow> queue_inv opts (process_end began now c)"
  "queue_inv opts c \<Longrightarrow> queue_inv opts (record_durable_progress lsn latency c)"
  "queue_inv opts c \<Longrightarrow> queue_inv opts (c\<lparr>cl_reconnect_count := n\<rparr>)"
  "queue_inv opts c \<Longrightarrow> session_load l c = (start, c') \<Longrightarrow> queue_inv opts c'"
  by (auto simp: queue_inv_def op_defs session_load_def split: option.splits)

lemma run_catches_client:
  "queue_inv opts (sys_client s) \<Longrightarrow> queue_inv opts (sys_client (run_catches e s))"
  by (rule run_catches_cases [of e s]) (auto simp: queue_inv_ops)

lemma queue_inv_effect:
  assumes "effect s s'" and "queue_inv opts (sys_client s)"
  shows "queue_inv opts (sys_client s')"
  using assms
proof (cases rule: effect.cases)
  case (eff_frame k payload now elapsed wr outcome c)
  then show ?thesis using assms(2) queue_inv_frame by simp
next
  case (eff_put t k q)
  then show ?thesis using queue_inv_put [OF assms(2), of "(sys_client s)\<lparr>cl_queue := q\<rparr>" t] by simp
next
  case (eff_get r t q now)
  then have "queue_inv opts ((sys_client s)\<lparr>cl_queue := q\<rparr>)"
    using queue_inv_get [OF assms(2), of "(sys_client s)\<lparr>cl_queue := q\<rparr>"] by simp
  then show ?thesis using eff_get by (simp add: queue_inv_ops)
next
  case (eff_caught c e)
  then show ?thesis using assms(2) queue_inv_touched run_catches_client by simp
next
  case (eff_final payload elapsed s1 e)
  then show ?thesis using assms(2) run_catches_client by auto
qed (use assms(2) in \<open>auto intro: queue_inv_ops queue_inv_touched run_catches_client\<close>)

lemma reachable_queue_inv:
  assumes "reachable (client_init opts) st s"
  shows "queue_inv opts (sys_client s)"
  using assms
proof (rule reachable_induct_effect)
  show "queue_inv opts (sys_client (run_start (client_init opts) st))"
    by (auto simp: queue_inv_def run_start_def client_init_def Let_def)
qed (rule queue_inv_effect)


section \<open>Delivery order\<close>

definition waiting :: "receiver \<Rightarrow> transaction list" where
  "waiting r = (case r of Putting t \<Rightarrow> [t] | _ \<Rightarrow> [])"

definition putting :: "phase \<Rightarrow> transaction list" where
  "putting ph = (case ph of Running r k \<Rightarrow> waiting r | _ \<Rightarrow> [])"

definition is_running :: "phase \<Rightarrow> bool" where
  "is_running ph = (case ph of Running r k \<Rightarrow> True | _ \<Rightarrow> False)"

text \<open>
  What was handed to the handler, then what is queued, then what waits to be queued is, in this order,
  what the session found in the queue and then what it assembled.
\<close>

definition order_inv :: "system \<Rightarrow> bool" where
  "order_inv s =
     (let h = sys_history s; c = sys_client s in
      prefix (h_delivered h) (h_backlog h @ h_assembled h)
      \<and> (is_running (sys_phase s) \<and> \<not> cl_closing c \<longrightarrow>
           h_delivered h @ q_items (cl_queue c) @ putting (sys_phase s) = h_backlog h @ h_assembled h))"

lemma phase_simps [simp]:
  "waiting (Putting t) = [t]"
  "waiting Reading = []"
  "waiting ReceiverDone = []"
  "waiting (receive_head c) = []"
  "putting (Running r k) = waiting r"
  "is_running (Running r k)"
  "\<not> is_running Connecting"
  "\<not> is_running Sleeping"
  "\<not> is_running (SettingUp start)"
  "\<not> is_running (Ended e)"
  "\<not> is_running (loop_head c)"
  by (auto simp: waiting_def putting_def is_running_def receive_head_def loop_head_def)

lemma note_sent_simps [simp]:
  "h_backlog (note_sent p h) = h_backlog h"
  "h_assembled (note_sent p h) = h_assembled h"
  "h_delivered (note_sent p h) = h_delivered h"
  "h_all_delivered (note_sent p h) = h_all_delivered h"
  "h_saved (note_sent p h) = h_saved h"
  "h_loaded (note_sent p h) = h_loaded h"
  "h_delays (note_sent p h) = h_delays h"
  "h_sent (note_sent p h) = h_sent h @ [decode_standby_status_update p]"
  by (simp_all add: note_sent_def)

lemma order_inv_caught:
  "prefix (h_delivered (sys_history s)) (h_backlog (sys_history s) @ h_assembled (sys_history s)) \<Longrightarrow>
   order_inv (run_catches e s)"
  by (rule run_catches_cases [of e s]) (auto simp: order_inv_def)

lemma order_inv_frame:
  assumes inv: "order_inv s" and phase: "sys_phase s = Running Reading k"
    and frame: "handle_frame payload now elapsed wr (sys_client s) = (Inr outcome, c)"
  shows "order_inv (s\<lparr>sys_client := c, sys_phase := Running (receiver_after outcome c) k,
                     sys_history := note_frame outcome (sys_history s)\<rparr>)"
proof -
  have closing: "cl_closing c = cl_closing (sys_client s)"
    using handle_frame_core(1) [OF frame] by (simp add: core_eq)
  note queue = handle_frame_core(2) [OF frame]
  have more: "prefix (h_delivered (sys_history s)) (h_backlog (sys_history s) @ h_assembled (sys_history s) @ ts)" for ts
    using inv prefix_prefix [of "h_delivered (sys_history s)" "h_backlog (sys_history s) @ h_assembled (sys_history s)" ts]
    by (simp add: order_inv_def Let_def)
  show ?thesis
  proof (cases outcome)
    case (Enqueued t)
    then have "put_nowait t (cl_queue (sys_client s)) = (Inr (), cl_queue c)"
      using handle_frame_core(3) [OF frame, of t] queue by (simp add: prod_eq_iff)
    from walbox_queue.put_contents [OF this] show ?thesis
      using inv phase closing Enqueued more
      by (auto simp: order_inv_def Let_def receiver_after_def note_frame_def)
  qed (use inv phase closing queue more in
      \<open>auto simp: order_inv_def Let_def receiver_after_def note_frame_def\<close>)
qed

lemma order_inv_effect:
  assumes "effect s s'" and inv: "order_inv s" and queue: "queue_inv opts (sys_client s)"
  shows "order_inv s'"
  using assms(1)
proof (cases rule: effect.cases)
  case (eff_frame k payload now elapsed wr outcome c)
  then show ?thesis using order_inv_frame [OF inv] by simp
next
  case (eff_put t k q)
  then show ?thesis
    using inv walbox_queue.put_contents [OF eff_put(3)] by (auto simp: order_inv_def Let_def)
next
  case (eff_get r t q now)
  have items: "q_items (cl_queue (sys_client s)) = t # q_items q"
    by (rule walbox_queue.get_contents [OF eff_get(3)])
  then have "\<not> cl_closing (sys_client s)" using queue by (auto simp: queue_inv_def)
  then show ?thesis
    using inv eff_get items by (auto simp: order_inv_def Let_def process_start_def deliver_def prefix_def)
next
  case (eff_stop_receiver r k c)
  then show ?thesis using inv queue by (auto simp: order_inv_def Let_def touched_def core_eq queue_inv_def)
next
  case (eff_stop_consumer r)
  then show ?thesis using inv queue by (auto simp: order_inv_def Let_def queue_inv_def)
next
  case (eff_timeout r k c payload elapsed)
  then show ?thesis using inv by (auto simp: order_inv_def Let_def touched_def core_eq)
next
  case (eff_returns r t began now)
  then show ?thesis using inv eff_returns by (auto simp: order_inv_def Let_def process_end_def)
next
  case (eff_caught c e)
  have "order_inv (run_catches e (s\<lparr>sys_client := c\<rparr>))"
    by (rule order_inv_caught) (use inv in \<open>simp add: order_inv_def Let_def\<close>)
  then show ?thesis using eff_caught by simp
next
  case (eff_final payload elapsed s1 e)
  have "order_inv (run_catches e s1)"
    using inv eff_final by (intro order_inv_caught) (auto simp: order_inv_def Let_def)
  then show ?thesis using inv eff_final by (auto simp: order_inv_def Let_def)
qed (use inv in \<open>auto simp: order_inv_def Let_def op_defs\<close>)

lemma reachable_order_inv:
  assumes "reachable (client_init opts) st s"
  shows "order_inv s"
proof -
  have "queue_inv opts (sys_client s) \<and> order_inv s"
    using assms
  proof (rule reachable_induct_effect)
    show "queue_inv opts (sys_client (run_start (client_init opts) st))
        \<and> order_inv (run_start (client_init opts) st)"
      by (auto simp: queue_inv_def order_inv_def run_start_def client_init_def history_init_def
          loop_head_def Let_def)
  qed (use queue_inv_effect order_inv_effect in blast)
  then show ?thesis by simp
qed


section \<open>Feedback\<close>

text \<open>
  The durable position is one that was loaded or saved (or 0 before the first load), every status
  update flushed exactly such a position, and every saved position is covered by a transaction the
  handler was given.
\<close>

definition covered :: "history \<Rightarrow> int \<Rightarrow> bool" where
  "covered h l = (l = 0 \<or> l \<in> set (h_loaded h) \<or> l \<in> set (h_saved h))"

definition feedback_inv :: "system \<Rightarrow> bool" where
  "feedback_inv s =
     (let h = sys_history s in
      covered h (cl_durable_lsn (sys_client s))
      \<and> (\<forall>u \<in> set (h_sent h). covered h (flushed_lsn u) \<and> applied_lsn u = flushed_lsn u)
      \<and> (\<forall>l \<in> set (h_saved h). \<exists>t \<in> set (h_all_delivered h). l \<le> tx_commit_lsn t)
      \<and> (case sys_phase s of
            Running r (Handling t began) \<Rightarrow> t \<in> set (h_all_delivered h)
          | _ \<Rightarrow> True))"

definition handling :: "phase \<Rightarrow> transaction set" where
  "handling ph = (case ph of Running r (Handling t began) \<Rightarrow> {t} | _ \<Rightarrow> {})"

lemma handling_simps [simp]:
  "handling (Running r (Handling t began)) = {t}"
  "handling (Running r Getting) = {}"
  "handling (Running r ConsumerDone) = {}"
  "handling Connecting = {}"
  "handling Sleeping = {}"
  "handling (SettingUp start) = {}"
  "handling (Ended e) = {}"
  "handling (loop_head c) = {}"
  by (auto simp: handling_def loop_head_def)

lemma handling_same_consumer: "handling (Running r k) = handling (Running r' k)"
  by (simp add: handling_def split: consumer.split)

lemma feedback_inv_alt:
  "feedback_inv s \<longleftrightarrow>
     covered (sys_history s) (cl_durable_lsn (sys_client s))
     \<and> (\<forall>u \<in> set (h_sent (sys_history s)). covered (sys_history s) (flushed_lsn u) \<and> applied_lsn u = flushed_lsn u)
     \<and> (\<forall>l \<in> set (h_saved (sys_history s)). \<exists>t \<in> set (h_all_delivered (sys_history s)). l \<le> tx_commit_lsn t)
     \<and> handling (sys_phase s) \<subseteq> set (h_all_delivered (sys_history s))"
  by (auto simp: feedback_inv_def Let_def handling_def split: phase.split consumer.split)

lemma current_status_simps [simp]:
  "flushed_lsn (current_status reply elapsed c) = cl_durable_lsn c"
  "applied_lsn (current_status reply elapsed c) = cl_durable_lsn c"
  "written_lsn (current_status reply elapsed c) = cl_last_written_lsn c"
  by (simp_all add: current_status_def)

lemma covered_mono:
  "covered h l \<Longrightarrow> set (h_loaded h) \<subseteq> set (h_loaded h') \<Longrightarrow> set (h_saved h) \<subseteq> set (h_saved h') \<Longrightarrow>
   covered h' l"
  by (auto simp: covered_def)

lemma covered_simps [simp]:
  "covered (note_sent p h) l = covered h l"
  "covered (deliver t h) l = covered h l"
  "covered (h\<lparr>h_delays := ds\<rparr>) l = covered h l"
  "covered (h\<lparr>h_handled := ts\<rparr>) l = covered h l"
  "covered (h\<lparr>h_assembled := ts\<rparr>) l = covered h l"
  "covered (h\<lparr>h_delivered := ts, h_all_delivered := ts'\<rparr>) l = covered h l"
  "covered (h\<lparr>h_starts := ls, h_backlog := ts, h_assembled := ts', h_delivered := ts''\<rparr>) l = covered h l"
  by (simp_all add: covered_def deliver_def)

lemma feedback_inv_caught: "feedback_inv s \<Longrightarrow> feedback_inv (run_catches e s)"
  by (rule run_catches_cases [of e s]) (auto simp: feedback_inv_alt)

lemma feedback_inv_sent:
  assumes "feedback_inv s"
    and "decode_standby_status_update payload = current_status reply elapsed c"
    and "cl_durable_lsn c = cl_durable_lsn (sys_client s)"
  shows "feedback_inv (s\<lparr>sys_history := note_sent payload (sys_history s)\<rparr>)"
  using assms by (auto simp: feedback_inv_alt)

lemma feedback_inv_client:
  "feedback_inv s \<Longrightarrow> cl_durable_lsn c = cl_durable_lsn (sys_client s) \<Longrightarrow>
   feedback_inv (s\<lparr>sys_client := c\<rparr>)"
  by (simp add: feedback_inv_alt)

lemma feedback_inv_frame:
  assumes inv: "feedback_inv s" and phase: "sys_phase s = Running Reading k"
    and frame: "handle_frame payload now elapsed wr (sys_client s) = (Inr outcome, c)"
  shows "feedback_inv (s\<lparr>sys_client := c, sys_phase := Running (receiver_after outcome c) k,
                        sys_history := note_frame outcome (sys_history s)\<rparr>)"
proof -
  have durable: "cl_durable_lsn c = cl_durable_lsn (sys_client s)"
    using handle_frame_core(1) [OF frame] by (simp add: core_eq)
  have same: "handling (Running (receiver_after outcome c) k) = handling (sys_phase s)"
    using handling_same_consumer [of "receiver_after outcome c" k Reading] phase by simp
  show ?thesis
  proof (cases outcome)
    case (Replied reply)
    then have "decode_standby_status_update reply = current_status False elapsed c"
      using handle_frame_core(4) [OF frame] by simp
    with inv durable same Replied show ?thesis by (auto simp: feedback_inv_alt note_frame_def)
  qed (use inv durable same in \<open>auto simp: feedback_inv_alt note_frame_def\<close>)
qed

lemma feedback_inv_effect:
  assumes "effect s s'" and inv: "feedback_inv s"
  shows "feedback_inv s'"
  using assms(1)
proof (cases rule: effect.cases)
  case (eff_load start c)
  then have "covered (sys_history s') (cl_durable_lsn c)" by (simp add: covered_def)
  then show ?thesis
    using inv eff_load covered_mono [of "sys_history s" _ "sys_history s'"]
    by (auto simp: feedback_inv_alt)
next
  case (eff_frame k payload now elapsed wr outcome c)
  then show ?thesis using feedback_inv_frame [OF inv] by simp
next
  case (eff_put t k q)
  then show ?thesis
    using inv handling_same_consumer [of "receive_head (sys_client s)" k "Putting t"]
    by (auto simp: feedback_inv_alt)
next
  case (eff_stop_receiver r k c)
  then show ?thesis
    using inv handling_same_consumer [of ReceiverDone k r]
    by (auto simp: feedback_inv_alt touched_def core_eq)
next
  case (eff_timeout r k c payload elapsed)
  then show ?thesis using inv by (auto simp: feedback_inv_alt touched_def core_eq)
next
  case (eff_save r t began lsn latency st)
  have "covered (sys_history s') (max (cl_durable_lsn (sys_client s)) lsn)"
    using inv eff_save by (auto simp: feedback_inv_alt covered_def max_def)
  then show ?thesis
    using inv eff_save covered_mono [of "sys_history s" _ "sys_history s'"]
    by (auto simp: feedback_inv_alt record_durable_progress_def)
next
  case (eff_caught c e)
  then show ?thesis
    using inv by (auto simp: touched_def core_eq intro!: feedback_inv_caught feedback_inv_client)
next
  case (eff_final payload elapsed s1 e)
  have "feedback_inv s1" using feedback_inv_sent [OF inv eff_final(2)] eff_final by simp
  then have "feedback_inv (s1\<lparr>sys_phase := loop_head (sys_client s)\<rparr>)"
    by (simp add: feedback_inv_alt)
  with \<open>feedback_inv s1\<close> show ?thesis using eff_final(4) feedback_inv_caught by auto
qed (use inv in \<open>auto simp: feedback_inv_alt op_defs deliver_def\<close>)

lemma reachable_feedback_inv:
  assumes "reachable (client_init opts) st s"
  shows "feedback_inv s"
  using assms
proof (rule reachable_induct_effect)
  show "feedback_inv (run_start (client_init opts) st)"
    by (auto simp: feedback_inv_alt run_start_def client_init_def history_init_def covered_def
        Let_def)
qed (rule feedback_inv_effect)


section \<open>Counters and back-off\<close>

definition counters_inv :: "system \<Rightarrow> bool" where
  "counters_inv s =
     (cl_transactions_processed (sys_client s) = int (length (h_all_delivered (sys_history s)))
      \<and> cl_changes_processed (sys_client s)
          = int (length (concat (map tx_changes (h_all_delivered (sys_history s)))))
      \<and> cl_reconnect_count (sys_client s) = int (length (h_delays (sys_history s))))"

definition backoff_values :: "pyfloat list" where
  "backoff_values = [1, 2, 4, 8, 16, 32, 60]"

definition backoff_inv :: "system \<Rightarrow> bool" where
  "backoff_inv s =
     (cl_next_backoff (sys_client s) \<in> set backoff_values
      \<and> set (h_delays (sys_history s)) \<subseteq> set backoff_values)"

lemma backoff_doubles:
  "next_backoff_value 1 = 2" "next_backoff_value 2 = 4" "next_backoff_value 4 = 8"
  "next_backoff_value 8 = 16" "next_backoff_value 16 = 32" "next_backoff_value 32 = 60"
  "next_backoff_value 60 = 60"
  using fl_int [of 2] fl_int [of 4] fl_int [of 8] fl_int [of 16] fl_int [of 32] fl_int [of 64] fl_int [of 120]
  by (simp_all add: next_backoff_value_def fmul_def MAX_BACKOFF_def)

lemma backoff_closed: "b \<in> set backoff_values \<Longrightarrow> next_backoff_value b \<in> set backoff_values"
  by (auto simp: backoff_values_def backoff_doubles)

lemma counters_effect:
  assumes "effect s s'" and inv: "counters_inv s"
  shows "counters_inv s'"
  using assms(1)
proof (cases rule: effect.cases)
  case (eff_load start c)
  then show ?thesis using inv by (auto simp: counters_inv_def session_load_def split: option.splits)
next
  case (eff_frame k payload now elapsed wr outcome c)
  then show ?thesis
    using inv handle_frame_core(1) [OF eff_frame(3)]
    by (cases outcome) (auto simp: counters_inv_def core_eq note_frame_def)
next
  case (eff_caught c e)
  then show ?thesis
    using inv by (rule_tac run_catches_cases [of e "s\<lparr>sys_client := c\<rparr>"])
      (auto simp: counters_inv_def touched_def core_eq Let_def)
next
  case (eff_final payload elapsed s1 e)
  then show ?thesis
    using inv by (rule_tac run_catches_cases [of e s1]) (auto simp: counters_inv_def Let_def)
qed (use inv in \<open>auto simp: counters_inv_def Let_def op_defs deliver_def touched_def core_eq\<close>)

lemma backoff_effect:
  assumes "effect s s'" and inv: "backoff_inv s"
  shows "backoff_inv s'"
  using assms(1)
proof (cases rule: effect.cases)
  case (eff_load start c)
  then show ?thesis using inv by (auto simp: backoff_inv_def session_load_def split: option.splits)
next
  case (eff_subscribe start now)
  then show ?thesis
    using inv by (auto simp: backoff_inv_def session_subscribed_def INITIAL_BACKOFF_def backoff_values_def)
next
  case (eff_frame k payload now elapsed wr outcome c)
  then show ?thesis
    using inv handle_frame_core(1) [OF eff_frame(3)]
    by (cases outcome) (auto simp: backoff_inv_def core_eq note_frame_def)
next
  case (eff_caught c e)
  then show ?thesis
    using inv by (rule_tac run_catches_cases [of e "s\<lparr>sys_client := c\<rparr>"])
      (auto simp: backoff_inv_def touched_def core_eq)
next
  case (eff_final payload elapsed s1 e)
  then show ?thesis
    using inv by (rule_tac run_catches_cases [of e s1]) (auto simp: backoff_inv_def)
next
  case eff_wake
  then show ?thesis using inv backoff_closed by (auto simp: backoff_inv_def reconnect_wake_def)
qed (use inv in \<open>auto simp: backoff_inv_def client_close_def process_start_def process_end_def
    record_durable_progress_def deliver_def touched_def core_eq\<close>)

lemma reachable_counters:
  assumes "reachable (client_init opts) st s"
  shows "counters_inv s"
  using assms
proof (rule reachable_induct_effect)
  show "counters_inv (run_start (client_init opts) st)"
    by (simp add: counters_inv_def run_start_def client_init_def history_init_def Let_def)
qed (rule counters_effect)

lemma reachable_backoff:
  assumes "reachable (client_init opts) st s"
  shows "backoff_inv s"
  using assms
proof (rule reachable_induct_effect)
  show "backoff_inv (run_start (client_init opts) st)"
    by (simp add: backoff_inv_def run_start_def client_init_def history_init_def Let_def
        INITIAL_BACKOFF_def backoff_values_def)
qed (rule backoff_effect)


section \<open>The end of the loop\<close>

definition done_inv :: "system \<Rightarrow> bool" where
  "done_inv s =
     (case sys_phase s of
        Running r k \<Rightarrow> (r = ReceiverDone \<or> k = ConsumerDone \<longrightarrow> cl_closing (sys_client s))
      | Ended None \<Rightarrow> cl_closing (sys_client s)
      | _ \<Rightarrow> True)"

lemma done_inv_simps [simp]:
  "done_inv (s\<lparr>sys_phase := loop_head (sys_client s)\<rparr>)"
  "done_inv (run_catches e s)"
proof -
  show "done_inv (run_catches e s)"
    by (rule run_catches_cases [of e s]) (auto simp: done_inv_def split: option.split)
qed (simp add: done_inv_def loop_head_def)

lemma done_effect:
  assumes "effect s s'" and inv: "done_inv s" and queue: "queue_inv opts (sys_client s)"
  shows "done_inv s'"
  using assms(1)
proof (cases rule: effect.cases)
  case (eff_frame k payload now elapsed wr outcome c)
  then show ?thesis
    using inv handle_frame_core(1) [OF eff_frame(3)]
    by (cases outcome) (auto simp: done_inv_def core_eq receiver_after_def receive_head_def)
next
  case (eff_caught c e)
  then show ?thesis by simp
next
  case (eff_final payload elapsed s1 e)
  then show ?thesis using done_inv_simps(1) [of s1] by auto
qed (use inv queue in \<open>auto simp: done_inv_def queue_inv_def op_defs touched_def core_eq receive_head_def
    loop_head_def split: phase.splits option.splits\<close>)

lemma reachable_done:
  assumes "reachable (client_init opts) st s"
  shows "done_inv s"
proof -
  have "queue_inv opts (sys_client s) \<and> done_inv s"
    using assms
  proof (rule reachable_induct_effect)
    show "queue_inv opts (sys_client (run_start (client_init opts) st))
        \<and> done_inv (run_start (client_init opts) st)"
      by (auto simp: queue_inv_def done_inv_def run_start_def client_init_def loop_head_def Let_def)
  qed (use queue_inv_effect done_effect in blast)
  then show ?thesis by simp
qed

end
