(* ===== verification/Client_Properties.thy ===== *)
theory Client_Properties
  imports Client_Invariants
begin

text \<open>
  What the running client guarantees, and three runs on which it does less than its documentation
  says. The runs are evaluated event by event.
\<close>

section \<open>Concrete runs\<close>

definition demo_options :: walbox_options where
  "demo_options = default_options (lit ''consumer'') (lit ''dsn'') (lit ''slot'') (lit ''pub'')"

definition demo_start :: system where
  "demo_start = run_start (client_init demo_options) \<lparr>st_committed = None, st_joined = None\<rparr>"

definition xlog_event :: "int \<Rightarrow> bytes \<Rightarrow> event" where
  "xlog_event lsn payload =
     Frame (encode_xlog_data \<lparr>wal_start = lsn, wal_end = lsn, send_time = 0, xlog_payload = payload\<rparr>) 0 0 None"

definition begin_event :: "int \<Rightarrow> int \<Rightarrow> event" where
  "begin_event x lsn =
     xlog_event lsn (encode_begin \<lparr>begin_final_lsn = lsn, begin_commit_time = 0, begin_xid = x\<rparr>)"

definition commit_event :: "int \<Rightarrow> event" where
  "commit_event lsn =
     xlog_event lsn (encode_commit \<lparr>commit_flags = 0, commit_commit_lsn = lsn,
                       commit_end_lsn = lsn + 10, commit_commit_time = 0\<rparr>)"

definition demo_tx :: "int \<Rightarrow> int \<Rightarrow> transaction" where
  "demo_tx x lsn = \<lparr>tx_xid = x, tx_commit_lsn = lsn + 9, tx_commit_time = 0, tx_changes = []\<rparr>"

definition lost_connection :: event where
  "lost_connection =
     ReadFails (ReplicationConnectionError (walbox_error_init (lit ''replication stream ended'') None)) []"

definition session :: "event list" where
  "session = [Load None, SetUp None 0]"

text \<open>One transaction received, handled, checkpointed and reported.\<close>

definition plain_run :: "event list" where
  "plain_run =
     session @ [begin_event 1 100, commit_event 100, Get 0, Save 109 False 0 0 Saved,
                HandlerReturns 0, Timeout 0 0 None]"

lemma plain_run_result:
  "(case walbox_run plain_run demo_start of
      None \<Rightarrow> False
    | Some s \<Rightarrow>
        h_delivered (sys_history s) = [demo_tx 1 100]
        \<and> h_assembled (sys_history s) = [demo_tx 1 100] \<and> h_backlog (sys_history s) = []
        \<and> map flushed_lsn (h_sent (sys_history s)) = [109]
        \<and> h_saved (sys_history s) = [109] \<and> h_loaded (sys_history s) = [0]
        \<and> sys_phase s = Running Reading Getting \<and> \<not> cl_closing (sys_client s)
        \<and> q_items (cl_queue (sys_client s)) = [])"
  by code_simp

lemma plain_run_state:
  obtains s where "reachable (client_init demo_options) \<lparr>st_committed = None, st_joined = None\<rparr> s"
    "h_delivered (sys_history s) = [demo_tx 1 100]" "h_assembled (sys_history s) = [demo_tx 1 100]"
    "h_backlog (sys_history s) = []" "map flushed_lsn (h_sent (sys_history s)) = [109]"
    "h_saved (sys_history s) = [109]" "h_loaded (sys_history s) = [0]"
    "sys_phase s = Running Reading Getting" "\<not> cl_closing (sys_client s)"
    "q_items (cl_queue (sys_client s)) = []"
proof -
  obtain s where run: "walbox_run plain_run demo_start = Some s"
    using plain_run_result by (cases "walbox_run plain_run demo_start") auto
  have "reachable (client_init demo_options) \<lparr>st_committed = None, st_joined = None\<rparr> s"
    using reachable_run [OF _ run] reachable_start by (simp add: demo_start_def)
  then show ?thesis using that [of s] plain_run_result run by simp
qed


section \<open>Properties\<close>



text \<open>C8: in every session the handler is given, in order and without a gap, first what an earlier
  session had left in the queue and then the transactions this session assembled; while the client
  is not closing, every transaction assembled is either delivered, in the queue, or the one the
  receiver is waiting to put there.\<close>

theorem delivery_keeps_order:
  assumes "reachable (client_init opts) st s"
  shows "prefix (h_delivered (sys_history s)) (h_backlog (sys_history s) @ h_assembled (sys_history s))
       \<and> (is_running (sys_phase s) \<and> \<not> cl_closing (sys_client s) \<longrightarrow>
            h_delivered (sys_history s) @ q_items (cl_queue (sys_client s)) @ putting (sys_phase s)
            = h_backlog (sys_history s) @ h_assembled (sys_history s))"
  using reachable_order_inv [OF assms] by (simp add: order_inv_def Let_def)

theorem delivery_keeps_order_witness:
  "\<exists>s. reachable (client_init demo_options) \<lparr>st_committed = None, st_joined = None\<rparr> s
      \<and> h_delivered (sys_history s) @ q_items (cl_queue (sys_client s)) @ putting (sys_phase s)
        = h_backlog (sys_history s) @ h_assembled (sys_history s)
      \<and> h_delivered (sys_history s) = [demo_tx 1 100]"
proof -
  obtain s where s: "reachable (client_init demo_options) \<lparr>st_committed = None, st_joined = None\<rparr> s"
    "h_delivered (sys_history s) = [demo_tx 1 100]" "sys_phase s = Running Reading Getting"
    "\<not> cl_closing (sys_client s)"
    by (rule plain_run_state)
  then show ?thesis using delivery_keeps_order [OF s(1)] by (intro exI [of _ s]) simp
qed

text \<open>C11: the delivery queue never holds more than \<open>max_pending_transactions\<close> transactions, it is
  empty once the client is closing, and it refuses transactions from then on.\<close>

theorem queue_is_bounded:
  assumes "reachable (client_init opts) st s" and "0 < opt_max_pending_transactions opts"
  shows "qsize (cl_queue (sys_client s)) \<le> opt_max_pending_transactions opts
       \<and> (cl_closing (sys_client s) \<longrightarrow>
            q_items (cl_queue (sys_client s)) = []
            \<and> fst (enqueue t (sys_client s)) = Inl QueueShutDown)"
  using reachable_queue_inv [OF assms(1)] assms(2)
  by (auto simp: queue_inv_def queue_fits_def enqueue_def put_nowait_def)

theorem queue_is_bounded_witness:
  "\<exists>s. reachable (client_init demo_options) \<lparr>st_committed = None, st_joined = None\<rparr> s
      \<and> qsize (cl_queue (sys_client s)) \<le> 100"
proof -
  obtain s where s: "reachable (client_init demo_options) \<lparr>st_committed = None, st_joined = None\<rparr> s"
    by (rule plain_run_state)
  then show ?thesis
    using queue_is_bounded [OF s(1)] by (auto simp: demo_options_def default_options_def)
qed



lemma backoff_after: "(next_backoff_value ^^ n) INITIAL_BACKOFF = min (2 ^ n) MAX_BACKOFF"
proof -
  have small: "(next_backoff_value ^^ n) 1 = (if n < 6 then 2 ^ n else 60)" for n
  proof (induction n)
    case (Suc n)
    have "n < 5 \<or> n = 5 \<or> 5 < n" by linarith
    moreover have "n < 5 \<Longrightarrow> n = 0 \<or> n = 1 \<or> n = 2 \<or> n = 3 \<or> n = 4" by linarith
    ultimately show ?case using Suc by (auto simp: backoff_doubles)
  qed simp
  have "(60 :: rat) \<le> 2 ^ n" if "6 \<le> n"
  proof -
    have "(2 :: rat) ^ 6 \<le> 2 ^ n" using that by (intro power_increasing) auto
    then show ?thesis by simp
  qed
  moreover have "(2 :: rat) ^ n \<le> 60" if "n < 6"
  proof -
    have "(2 :: rat) ^ n \<le> 2 ^ 5" using that by (intro power_increasing) auto
    then show ?thesis by simp
  qed
  ultimately show ?thesis using small by (auto simp: INITIAL_BACKOFF_def MAX_BACKOFF_def min_def)
qed



text \<open>C21: \<open>run()\<close> returns without an exception, and a task of a session finishes without one, only
  once \<open>close()\<close> was called: no malformed frame, full queue or lost connection ends the client
  quietly.\<close>

theorem quiet_end_only_after_close:
  assumes "reachable (client_init opts) st s"
    and "sys_phase s = Ended None \<or> sys_phase s = Running ReceiverDone k \<or> sys_phase s = Running r ConsumerDone"
  shows "cl_closing (sys_client s)"
  using reachable_done [OF assms(1)] assms(2) by (auto simp: done_inv_def)

theorem quiet_end_only_after_close_witness:
  "\<exists>s. reachable (client_init demo_options) \<lparr>st_committed = None, st_joined = None\<rparr> s
      \<and> sys_phase s = Running ReceiverDone Getting \<and> cl_closing (sys_client s)"
proof -
  have result: "(case walbox_run (session @ [Close, Timeout 0 0 None]) demo_start of
      None \<Rightarrow> False | Some s \<Rightarrow> sys_phase s = Running ReceiverDone Getting)"
    by code_simp
  then obtain s where run: "walbox_run (session @ [Close, Timeout 0 0 None]) demo_start = Some s"
    by (cases "walbox_run (session @ [Close, Timeout 0 0 None]) demo_start") auto
  have "reachable (client_init demo_options) \<lparr>st_committed = None, st_joined = None\<rparr> s"
    using reachable_run [OF _ run] reachable_start by (simp add: demo_start_def)
  moreover from this have "cl_closing (sys_client s)"
    using quiet_end_only_after_close [of demo_options _ s Getting] result run by simp
  ultimately show ?thesis using result run by auto
qed

lemma unwrap_group_connection:
  "is_connection_error (unwrap_group es) \<longleftrightarrow> es \<noteq> [] \<and> list_all is_connection_error es"
proof (cases "filter is_connection_error es")
  case Nil
  then show ?thesis by (cases es) (auto simp: unwrap_group_def filter_empty_conv list_all_iff)
next
  case (Cons e rest)
  then have "e \<in> set (filter is_connection_error es)" by simp
  then have e: "e \<in> set es" "is_connection_error e" by auto
  show ?thesis
  proof (cases "filter (\<lambda>e. \<not> is_connection_error e) es")
    case Nil
    then show ?thesis using Cons e by (auto simp: unwrap_group_def filter_empty_conv list_all_iff)
  next
    case (Cons x xs)
    then have "x \<in> set (filter (\<lambda>e. \<not> is_connection_error e) es)" by simp
    then have "x \<in> set es \<and> \<not> is_connection_error x" by simp
    then show ?thesis
      using Cons \<open>filter is_connection_error es = e # rest\<close>
      by (auto simp: unwrap_group_def list_all_iff)
  qed
qed




section \<open>Shutdown\<close>

text \<open>What the application, rather than walbox, does.\<close>

definition is_application_event :: "event \<Rightarrow> bool" where
  "is_application_event ev =
     (case ev of Save _ _ _ _ _ \<Rightarrow> True | JoinedCommit \<Rightarrow> True | JoinedRollback \<Rightarrow> True | Close \<Rightarrow> True | _ \<Rightarrow> False)"

definition receiver_work :: "receiver \<Rightarrow> nat" where
  "receiver_work r = (case r of Reading \<Rightarrow> 2 | Putting _ \<Rightarrow> 1 | ReceiverDone \<Rightarrow> 0)"

definition consumer_work :: "consumer \<Rightarrow> nat" where
  "consumer_work k = (case k of Handling _ _ \<Rightarrow> 2 | Getting \<Rightarrow> 1 | ConsumerDone \<Rightarrow> 0)"

text \<open>How many more turns the client may take once it is closing.\<close>

definition shutdown_work :: "phase \<Rightarrow> nat" where
  "shutdown_work ph =
     (case ph of
        Ended _ \<Rightarrow> 0
      | Running r k \<Rightarrow> 1 + receiver_work r + consumer_work k
      | SettingUp _ \<Rightarrow> 6
      | Connecting \<Rightarrow> 7
      | Sleeping \<Rightarrow> 8)"

lemma work_simps [simp]:
  "shutdown_work (Ended e) = 0"
  "shutdown_work (Running r k) = 1 + receiver_work r + consumer_work k"
  "shutdown_work (SettingUp n) = 6"
  "shutdown_work Connecting = 7"
  "shutdown_work Sleeping = 8"
  "receiver_work Reading = 2" "receiver_work (Putting t) = 1" "receiver_work ReceiverDone = 0"
  "consumer_work (Handling t b) = 2" "consumer_work Getting = 1" "consumer_work ConsumerDone = 0"
  by (simp_all add: shutdown_work_def receiver_work_def consumer_work_def)

lemma closing_heads:
  "cl_closing c \<Longrightarrow> receive_head c = ReceiverDone"
  "cl_closing c \<Longrightarrow> loop_head c = Ended None"
  "cl_closing (sys_client s) \<Longrightarrow> shutdown_work (sys_phase (run_catches e s)) = 0"
  by (simp_all add: receive_head_def loop_head_def run_catches_def)

lemma closing_effect:
  assumes "effect s s'" and "cl_closing (sys_client s)" and queue: "queue_inv opts (sys_client s)"
  shows "cl_closing (sys_client s') \<and> h_all_delivered (sys_history s') = h_all_delivered (sys_history s)"
  using assms(1)
proof (cases rule: effect.cases)
  case (eff_load start c)
  then show ?thesis using assms(2) by (auto simp: session_load_def split: option.splits)
next
  case (eff_frame k payload now elapsed wr outcome c)
  then show ?thesis
    using assms(2) handle_frame_core(1) [OF eff_frame(3)]
    by (cases outcome) (auto simp: core_eq note_frame_def)
next
  case (eff_get r t q now)
  then show ?thesis using assms(2) queue by (auto simp: queue_inv_def queue_get_def)
next
  case (eff_caught c e)
  then show ?thesis
    using assms(2) by (rule_tac run_catches_cases [of e "s\<lparr>sys_client := c\<rparr>"])
      (auto simp: touched_def core_eq)
next
  case (eff_final payload elapsed s1 e)
  then show ?thesis
    using assms(2) by (rule_tac run_catches_cases [of e s1]) auto
qed (use assms(2) in \<open>auto simp: op_defs touched_def core_eq\<close>)

lemma closing_receiver:
  assumes "cl_closing (sys_client s)" and "step_receiver r k ev s = Some s'"
  shows "shutdown_work (sys_phase s') < 1 + receiver_work r + consumer_work k"
proof (cases "(r, k, ev, s)" rule: step_receiver.cases)
  case (1 k payload now elapsed e s)
  obtain res c where f: "handle_frame payload now elapsed (answer e) (sys_client s) = (res, c)" by fastforce
  have "cl_closing c" using handle_frame_core(1) [OF f] assms(1) 1 by (simp add: core_eq)
  then show ?thesis
    using assms(1,2) 1 f closing_heads
    by (auto simp: session_fails_def receiver_after_def split: sum.splits frame_outcome.splits if_splits)
next
  case (2 k x others s)
  then show ?thesis using assms closing_heads(3) [of s] by (auto simp: session_fails_def)
next
  case (3 t k s)
  then show ?thesis
    using assms(1,2) closing_heads(1)
    by (auto simp: Let_def split: if_splits prod.splits sum.splits)
next
  case (4 k now elapsed e s)
  then show ?thesis using assms by simp
qed (use assms closing_heads in \<open>auto simp: status_turn_def\<close>)

lemma closing_consumer:
  assumes "cl_closing (sys_client s)" and "q_items (cl_queue (sys_client s)) = []"
    and "\<not> is_application_event ev" and "step_consumer r k ev s = Some s'"
  shows "shutdown_work (sys_phase s') < 1 + receiver_work r + consumer_work k"
  using assms closing_heads(3) [of s]
  by (cases "(r, k, ev, s)" rule: step_consumer.cases)
    (auto simp: consume_get_def queue_get_def session_fails_def is_application_event_def Let_def
      split: if_splits)

lemma closing_work:
  assumes closing: "cl_closing (sys_client s)" and queue: "queue_inv opts (sys_client s)"
    and ev: "\<not> is_application_event ev" and step: "walbox_step ev s = Some s'"
  shows "shutdown_work (sys_phase s') < shutdown_work (sys_phase s)"
proof -
  have items: "q_items (cl_queue (sys_client s)) = []"
    using queue closing by (simp add: queue_inv_def)
  have "\<not> is_store_event ev" "ev \<noteq> Close"
    using ev by (auto simp: is_store_event_def is_application_event_def split: event.splits)
  then have phase: "(case sys_phase s of
             Connecting \<Rightarrow> step_setup ev s
           | SettingUp start \<Rightarrow> step_subscribe start ev s
           | Sleeping \<Rightarrow>
               if ev = Wake
               then let c = reconnect_wake (sys_client s)
                    in Some (s\<lparr>sys_client := c, sys_phase := loop_head c\<rparr>)
               else None
           | Ended _ \<Rightarrow> None
           | Running r k \<Rightarrow>
               if r = ReceiverDone \<and> k = ConsumerDone then step_finish ev s
               else if is_receiver_event ev then step_receiver r k ev s
               else step_consumer r k ev s) = Some s'"
    using step by (simp add: walbox_step_def split: if_splits)
  show ?thesis
  proof (cases "sys_phase s")
    case Connecting
    then show ?thesis
      using phase closing_heads(3) [OF closing]
      by (cases "(ev, s)" rule: step_setup.cases) (auto simp: Let_def split: prod.splits)
  next
    case (SettingUp start)
    then show ?thesis
      using phase closing closing_heads(1) [OF closing] closing_heads(3) [OF closing]
      by (cases "(start, ev, s)" rule: step_subscribe.cases) (auto simp: Let_def)
  next
    case Sleeping
    then show ?thesis
      using phase closing by (auto simp: Let_def loop_head_def reconnect_wake_def split: if_splits)
  next
    case (Running r k)
    show ?thesis
    proof (cases "r = ReceiverDone \<and> k = ConsumerDone")
      case True
      then show ?thesis
        using phase Running closing closing_heads(2) [OF closing] closing_heads(3)
        by (cases "(ev, s)" rule: step_finish.cases) (auto simp: Let_def split: sum.splits option.splits)
    next
      case False
      then show ?thesis
        using phase Running closing_receiver [OF closing] closing_consumer [OF closing items ev]
        by (auto split: if_splits)
    qed
  next
    case (Ended e)
    then show ?thesis using phase by simp
  qed
qed




section \<open>Runs against the documentation\<close>

definition overtaking_run :: "event list" where
  "overtaking_run =
     session @ [begin_event 1 100, commit_event 100, begin_event 2 200, commit_event 200, Get 0,
                lost_connection, Wake]
     @ session @ [Get 0, Save 209 False 0 0 Saved, HandlerReturns 0, Timeout 0 0 None]"

definition resent_run :: "event list" where
  "resent_run = session @ [begin_event 1 100, lost_connection, Wake] @ session @ [begin_event 1 100]"

definition joined_run :: "event list" where
  "joined_run =
     session @ [begin_event 1 100, commit_event 100, Get 0, Save 109 True 0 0 Saved,
                Timeout 0 0 None, JoinedRollback, HandlerRaises (ApplicationError 1) []]"

lemma queue_survives_reconnect:
  "(case walbox_run overtaking_run demo_start of
      None \<Rightarrow> False
    | Some s \<Rightarrow>
        h_handled (sys_history s) = [demo_tx 2 200]
        \<and> h_all_delivered (sys_history s) = [demo_tx 1 100, demo_tx 2 200]
        \<and> st_committed (sys_store s) = Some 209
        \<and> map flushed_lsn (h_sent (sys_history s)) = [209]
        \<and> tx_commit_lsn (demo_tx 1 100) < 209)"
  by code_simp

lemma resent_transaction_ends_run:
  "(case walbox_run resent_run demo_start of
      None \<Rightarrow> False
    | Some s \<Rightarrow>
        sys_phase s = Ended (Some (ExceptionGroup
          [xid_error (lit ''received Begin while a transaction is already open'') 1])))"
  by code_simp

lemma joined_save_is_reported_before_commit:
  "(case walbox_run joined_run demo_start of
      None \<Rightarrow> False
    | Some s \<Rightarrow>
        map flushed_lsn (h_sent (sys_history s)) = [109]
        \<and> st_committed (sys_store s) = None \<and> h_handled (sys_history s) = []
        \<and> sys_phase s = Ended (Some (ExceptionGroup [ApplicationError 1])))"
  by code_simp


end
