(* ===== verification/Checkpoint.thy ===== *)
theory Checkpoint
  imports Abc Py_Bytes
begin

text \<open>
  \<open>walbox/checkpoint.py\<close>: \<open>PostgresCheckpointStore\<close>, one row per consumer in a PostgreSQL table.
  The database and psycopg are a parameter: the calls the source makes on them, as actions on the
  database's own state. The SQL texts are the three \<open>statement\<close>s; an identifier and a bind parameter
  stay what they are, since psycopg quotes them. What PostgreSQL promises is the locale \<open>postgres\<close>;
  \<open>checkpoint_store\<close> is the contract of \<open>abc.CheckpointStore\<close>, which the store fulfils. The
  readings of the clock only reach the log and are left out.
\<close>

section \<open>The connection\<close>

datatype statement = CreateTable pystr | SelectLsn pystr pystr | Upsert pystr pystr int

text \<open>
  \<open>pg_acquire\<close> enters the context manager \<open>_acquire()\<close> gives (a new connection, or one from the
  pool), \<open>pg_release c raised\<close> leaves it, told whether the block raised; \<open>pg_execute\<close> gives the
  fetched row, if any.
\<close>

record ('d, 'c) pg_client =
  pg_acquire :: "('d, exn, 'c) action"
  pg_release :: "'c \<Rightarrow> bool \<Rightarrow> ('d, exn, unit) action"
  pg_execute :: "'c \<Rightarrow> statement \<Rightarrow> ('d, exn, int option) action"
  pg_commit :: "'c \<Rightarrow> ('d, exn, unit) action"


section \<open>The store\<close>

text \<open>The object's fields; where \<open>_acquire\<close> takes connections from is the \<open>pg_client\<close>.\<close>

record checkpoint_table =
  ct_consumer_name :: pystr
  ct_table :: pystr
  ct_schema_ready :: bool

text \<open>\<open>_configure\<close>, which both \<open>__init__\<close> and \<open>from_pool\<close> end with, and their default table.\<close>

definition configure :: "pystr \<Rightarrow> pystr \<Rightarrow> checkpoint_table" where
  "configure consumer_name table =
     \<lparr>ct_consumer_name = consumer_name, ct_table = table, ct_schema_ready = False\<rparr>"

definition default_table :: pystr where
  "default_table = lit ''walbox_checkpoint''"

text \<open>
  The two ways to make a store: its fields, and what its connections come from. \<open>connections dsn\<close>
  opens a connection for every block and closes it at the end of the block.
\<close>

definition checkpoint_store_init ::
    "(pystr \<Rightarrow> ('d, 'c) pg_client) \<Rightarrow> pystr \<Rightarrow> pystr \<Rightarrow> pystr \<Rightarrow> checkpoint_table \<times> ('d, 'c) pg_client" where
  "checkpoint_store_init connections dsn consumer_name table = (configure consumer_name table, connections dsn)"

definition from_pool ::
    "('d, 'c) pg_client \<Rightarrow> pystr \<Rightarrow> pystr \<Rightarrow> checkpoint_table \<times> ('d, 'c) pg_client" where
  "from_pool pool consumer_name table = (configure consumer_name table, pool)"

text \<open>An action of the database beside the object's fields.\<close>

definition on_db :: "('d, exn, 'a) action \<Rightarrow> (checkpoint_table \<times> 'd, exn, 'a) action" where
  "on_db m = (\<lambda>(s, d). case m d of (r, d') \<Rightarrow> (r, (s, d')))"

text \<open>\<open>async with self._acquire() as conn\<close>\<close>

definition with_connection ::
    "('d, 'c) pg_client \<Rightarrow> ('c \<Rightarrow> (checkpoint_table \<times> 'd, exn, 'a) action) \<Rightarrow> (checkpoint_table \<times> 'd, exn, 'a) action" where
  "with_connection P body =
     abind (on_db (pg_acquire P)) (\<lambda>c st.
       case body c st of
         (Inl e, st') \<Rightarrow> abind (on_db (pg_release P c True)) (\<lambda>_. araise e) st'
       | (Inr x, st') \<Rightarrow> abind (on_db (pg_release P c False)) (\<lambda>_. areturn x) st')"

definition ensure_schema :: "('d, 'c) pg_client \<Rightarrow> 'c \<Rightarrow> (checkpoint_table \<times> 'd, exn, unit) action" where
  "ensure_schema P c = (\<lambda>(s, d).
     if ct_schema_ready s then (Inr (), (s, d))
     else abind (on_db (pg_execute P c (CreateTable (ct_table s)))) (\<lambda>_.
          amodify (\<lambda>(s, d). (s\<lparr>ct_schema_ready := True\<rparr>, d))) (s, d))"

definition upsert :: "('d, 'c) pg_client \<Rightarrow> 'c \<Rightarrow> int \<Rightarrow> (checkpoint_table \<times> 'd, exn, unit) action" where
  "upsert P c lsn = (\<lambda>(s, d).
     abind (on_db (pg_execute P c (Upsert (ct_table s) (ct_consumer_name s) lsn))) (\<lambda>_. areturn ()) (s, d))"

definition fetch_lsn :: "('d, 'c) pg_client \<Rightarrow> 'c \<Rightarrow> (checkpoint_table \<times> 'd, exn, int option) action" where
  "fetch_lsn P c = (\<lambda>(s, d). on_db (pg_execute P c (SelectLsn (ct_table s) (ct_consumer_name s))) (s, d))"

definition negative_checkpoint :: "unicode_db \<Rightarrow> pystr \<Rightarrow> int \<Rightarrow> exn" where
  "negative_checkpoint u consumer_name lsn =
     CheckpointError (walbox_error_init
       (lit ''checkpoint for consumer '' @ str_repr u consumer_name @ lit '' is negative: '' @ str_int lsn) None)"

definition checkpoint_load :: "unicode_db \<Rightarrow> ('d, 'c) pg_client \<Rightarrow> (checkpoint_table \<times> 'd, exn, int option) action" where
  "checkpoint_load u P =
     abind (with_connection P (\<lambda>c.
              abind (ensure_schema P c) (\<lambda>_.
              abind (on_db (pg_commit P c)) (\<lambda>_.
              fetch_lsn P c)))) (\<lambda>lsn (s, d).
       case lsn of
         Some l \<Rightarrow> if l < 0 then (Inl (negative_checkpoint u (ct_consumer_name s) l), (s, d)) else (Inr lsn, (s, d))
       | None \<Rightarrow> (Inr lsn, (s, d)))"

definition checkpoint_save ::
    "('d, 'c) pg_client \<Rightarrow> int \<Rightarrow> 'c option \<Rightarrow> (checkpoint_table \<times> 'd, exn, unit) action" where
  "checkpoint_save P lsn connection =
     (case connection of
        Some c \<Rightarrow> abind (ensure_schema P c) (\<lambda>_. upsert P c lsn)
      | None \<Rightarrow>
          with_connection P (\<lambda>c.
            abind (ensure_schema P c) (\<lambda>_.
            abind (upsert P c lsn) (\<lambda>_.
            on_db (pg_commit P c)))))"


section \<open>What PostgreSQL promises\<close>

type_synonym tables = "pystr \<Rightarrow> (pystr \<Rightarrow> int option) option"

definition position :: "tables \<Rightarrow> pystr \<Rightarrow> pystr \<Rightarrow> int option" where
  "position m table consumer = Option.bind (m table) (\<lambda>rows. rows consumer)"

definition create_table :: "pystr \<Rightarrow> tables \<Rightarrow> tables" where
  "create_table table m = m(table := Some (case m table of None \<Rightarrow> (\<lambda>_. None) | Some rows \<Rightarrow> rows))"

definition set_position :: "pystr \<Rightarrow> pystr \<Rightarrow> int \<Rightarrow> tables \<Rightarrow> tables" where
  "set_position table consumer lsn m =
     m(table := map_option (\<lambda>rows. rows(consumer := Some lsn)) (m table))"

text \<open>
  \<open>durable d\<close> is what is committed, \<open>seen c d\<close> what the connection \<open>c\<close> sees: what is committed
  and its own uncommitted changes. A statement that succeeds changes what its connection sees; a commit
  makes that durable, and one that fails did it or did not; a block left by an exception is rolled
  back, one left normally is committed. \<open>up d\<close>: the database can be reached; it then takes
  every text it can store, which has no NUL, and every position that fits the type of the column,
  \<open>BIGINT\<close>. A table is named by the identifier PostgreSQL makes of the text.
\<close>

definition bindable :: "pystr \<Rightarrow> bool" where
  "bindable s = (\<forall>c \<in> set s. is_scalar c \<and> c \<noteq> 0)"

definition bigint :: "int \<Rightarrow> bool" where
  "bigint l = (- (2 ^ 63) \<le> l \<and> l < 2 ^ 63)"

definition well_named :: "checkpoint_table \<Rightarrow> bool" where
  "well_named s = (bindable (ct_table s) \<and> ct_table s \<noteq> [] \<and> bindable (ct_consumer_name s))"

locale postgres =
  fixes P :: "('d, 'c) pg_client"
    and durable :: "'d \<Rightarrow> tables"
    and seen :: "'c \<Rightarrow> 'd \<Rightarrow> tables"
    and up :: "'d \<Rightarrow> bool"
  assumes acquire: "pg_acquire P d = (Inr c, d') \<Longrightarrow> durable d' = durable d \<and> seen c d' = durable d"
    and acquire_fails: "pg_acquire P d = (Inl e, d') \<Longrightarrow> durable d' = durable d"
    and create: "pg_execute P c (CreateTable t) d = (Inr r, d') \<Longrightarrow>
      seen c d' = create_table t (seen c d) \<and> durable d' = durable d"
    and select: "pg_execute P c (SelectLsn t k) d = (Inr r, d') \<Longrightarrow>
      r = position (seen c d) t k \<and> seen c d' = seen c d \<and> durable d' = durable d"
    and upsert_row: "pg_execute P c (Upsert t k l) d = (Inr r, d') \<Longrightarrow>
      seen c d t \<noteq> None \<and> seen c d' = set_position t k l (seen c d) \<and> durable d' = durable d"
    and execute_fails: "pg_execute P c stmt d = (Inl e, d') \<Longrightarrow> durable d' = durable d"
    and commit: "pg_commit P c d = (Inr u, d') \<Longrightarrow> durable d' = seen c d \<and> seen c d' = seen c d"
    and commit_fails: "pg_commit P c d = (Inl e, d') \<Longrightarrow> durable d' \<in> {durable d, seen c d}"
    and rolled_back: "pg_release P c True d = (r', d') \<Longrightarrow> durable d' = durable d"
    and released: "pg_release P c False d = (Inr u, d') \<Longrightarrow> durable d' = seen c d"
    and release_fails: "pg_release P c False d = (Inl e, d') \<Longrightarrow> durable d' \<in> {durable d, seen c d}"
    and up_acquire: "up d \<Longrightarrow> \<exists>c d'. pg_acquire P d = (Inr c, d') \<and> up d'"
    and up_create: "up d \<Longrightarrow> bindable t \<Longrightarrow> t \<noteq> [] \<Longrightarrow> \<exists>r d'. pg_execute P c (CreateTable t) d = (Inr r, d') \<and> up d'"
    and up_select: "up d \<Longrightarrow> bindable k \<Longrightarrow> seen c d t \<noteq> None \<Longrightarrow> \<exists>r d'. pg_execute P c (SelectLsn t k) d = (Inr r, d') \<and> up d'"
    and up_upsert: "up d \<Longrightarrow> bindable k \<Longrightarrow> bigint l \<Longrightarrow> seen c d t \<noteq> None \<Longrightarrow> \<exists>r d'. pg_execute P c (Upsert t k l) d = (Inr r, d') \<and> up d'"
    and up_commit: "up d \<Longrightarrow> \<exists>d'. pg_commit P c d = (Inr (), d') \<and> up d'"
    and up_release: "up d \<Longrightarrow> \<exists>d'. pg_release P c False d = (Inr (), d') \<and> up d'"


lemma position_create [simp]: "position (create_table t m) = position m"
  by (rule ext, rule ext) (auto simp: position_def create_table_def split: option.splits)

lemma position_set:
  "m t \<noteq> None \<Longrightarrow> position (set_position t k l m) = (position m)(t := (position m t)(k := Some l))"
  by (rule ext, rule ext) (auto simp: position_def set_position_def)

lemma create_table_exists [simp]: "create_table t m t \<noteq> None"
  by (simp add: create_table_def)

lemma create_table_keeps: "m t' \<noteq> None \<Longrightarrow> create_table t m t' \<noteq> None"
  by (simp add: create_table_def)

lemma set_position_keeps: "m t' \<noteq> None \<Longrightarrow> set_position t k l m t' \<noteq> None"
  by (auto simp: set_position_def)

lemma on_db_eq: "on_db m (s, d) = (r, (s', d')) \<longleftrightarrow> s' = s \<and> m d = (r, d')"
  by (auto simp: on_db_def split: prod.splits)

lemma on_db_split: "on_db m (s, d) = (fst (m d), (s, snd (m d)))"
  by (simp add: on_db_def split: prod.splits)


section \<open>The contract of a checkpoint store\<close>

text \<open>
  \<open>pos\<close> is the position the store holds durably. A save that returns sets it, one that raises sets
  it or leaves it; a load leaves it, and returns it if it returns.
\<close>

locale checkpoint_store =
  fixes load :: "('s, exn, int option) action"
    and save :: "int \<Rightarrow> ('s, exn, unit) action"
    and pos :: "'s \<Rightarrow> int option"
  assumes save_sets: "save l s = (Inr u, s') \<Longrightarrow> pos s' = Some l"
    and save_fails: "save l s = (Inl e, s') \<Longrightarrow> pos s' \<in> {pos s, Some l}"
    and load_gives: "load s = (Inr r, s') \<Longrightarrow> r = pos s"
    and load_keeps: "load s = (r', s') \<Longrightarrow> pos s' = pos s"
begin

lemma load_after_save: "save l s = (Inr u, s') \<Longrightarrow> load s' = (Inr r, s'') \<Longrightarrow> r = Some l"
  using save_sets load_gives by metis

text \<open>A run of loads and saves (\<open>None\<close> and \<open>Some l\<close>): the position is the last one a save set,
  or one a save that raised may have set.\<close>

fun run_store :: "int option list \<Rightarrow> 's \<Rightarrow> 's" where
  "run_store [] s = s"
| "run_store (None # ops) s = run_store ops (snd (load s))"
| "run_store (Some l # ops) s = run_store ops (snd (save l s))"

lemma run_store_position: "pos (run_store ops s) \<in> insert (pos s) (set ops \<inter> range Some)"
proof (induction ops s rule: run_store.induct)
  case 1
  then show ?case by simp
next
  case (2 ops s)
  then show ?case using load_keeps [of s "fst (load s)" "snd (load s)"] by auto
next
  case (3 l ops s)
  have "pos (snd (save l s)) \<in> {pos s, Some l}"
    using save_sets [of l s _ "snd (save l s)"] save_fails [of l s _ "snd (save l s)"]
    by (cases "save l s"; cases "fst (save l s)") auto
  with 3 show ?case by auto
qed

end


section \<open>The store fulfils it\<close>

text \<open>The row of this store.\<close>

definition stored :: "('d \<Rightarrow> tables) \<Rightarrow> checkpoint_table \<times> 'd \<Rightarrow> int option" where
  "stored durable = (\<lambda>(s, d). position (durable d) (ct_table s) (ct_consumer_name s))"

text \<open>Nobody else's row: every other table or consumer.\<close>

definition others_kept :: "checkpoint_table \<Rightarrow> tables \<Rightarrow> tables \<Rightarrow> bool" where
  "others_kept s m m' =
     (\<forall>t k. (t, k) \<noteq> (ct_table s, ct_consumer_name s) \<longrightarrow> position m' t k = position m t k)"

definition same_row :: "checkpoint_table \<Rightarrow> checkpoint_table \<Rightarrow> bool" where
  "same_row s s' = (ct_table s' = ct_table s \<and> ct_consumer_name s' = ct_consumer_name s)"

lemma same_row_refl [simp]: "same_row s s" "same_row s (s\<lparr>ct_schema_ready := b\<rparr>)"
  by (simp_all add: same_row_def)

lemma others_kept_eq: "position m' = position m \<Longrightarrow> others_kept s m m'"
  by (simp add: others_kept_def)

lemma others_kept_set:
  "position m' = (position m)(ct_table s := (position m (ct_table s))(ct_consumer_name s := Some l)) \<Longrightarrow> others_kept s m m'"
  by (auto simp: others_kept_def)

context postgres
begin

lemma ensure_schema_ok:
  assumes "ensure_schema P c (s, d) = (Inr u, (s', d'))"
  shows "s' = s\<lparr>ct_schema_ready := True\<rparr> \<and> durable d' = durable d
    \<and> seen c d' = (if ct_schema_ready s then seen c d else create_table (ct_table s) (seen c d))"
proof (cases "ct_schema_ready s")
  case True
  with assms show ?thesis by (auto simp: ensure_schema_def)
next
  case False
  with assms show ?thesis
    by (auto simp: ensure_schema_def abind_def on_db_def split: prod.splits sum.splits dest: create)
qed

lemma ensure_schema_fails:
  assumes "ensure_schema P c (s, d) = (Inl e, (s', d'))"
  shows "s' = s \<and> durable d' = durable d"
  using assms
  by (auto simp: ensure_schema_def abind_def on_db_def split: prod.splits sum.splits if_splits dest: execute_fails)

lemma upsert_ok:
  assumes "upsert P c l (s, d) = (Inr u, (s', d'))"
  shows "s' = s \<and> durable d' = durable d \<and> seen c d (ct_table s) \<noteq> None
    \<and> seen c d' = set_position (ct_table s) (ct_consumer_name s) l (seen c d)"
  using assms
  by (auto simp: upsert_def abind_def on_db_def split: prod.splits sum.splits dest: upsert_row)

lemma upsert_fails:
  assumes "upsert P c l (s, d) = (Inl e, (s', d'))"
  shows "s' = s \<and> durable d' = durable d"
  using assms
  by (auto simp: upsert_def abind_def on_db_def split: prod.splits sum.splits dest: execute_fails)

lemma fetch_ok:
  assumes "fetch_lsn P c (s, d) = (Inr r, (s', d'))"
  shows "s' = s \<and> r = position (seen c d) (ct_table s) (ct_consumer_name s)
    \<and> seen c d' = seen c d \<and> durable d' = durable d"
  using assms by (auto simp: fetch_lsn_def on_db_eq dest: select)

lemma fetch_fails:
  assumes "fetch_lsn P c (s, d) = (Inl e, (s', d'))"
  shows "s' = s \<and> durable d' = durable d"
  using assms by (auto simp: fetch_lsn_def on_db_eq dest: execute_fails)

text \<open>
  A block on an acquired connection: what a normal end and an exceptional end of the body leave is
  carried over to the whole, since leaving the block commits or rolls back.
\<close>

lemma with_connection_post:
  assumes run: "with_connection P body (s, d) = (r, (s', d'))"
    and ok: "\<And>c d1 x s2 d2. durable d1 = durable d \<Longrightarrow> seen c d1 = durable d \<Longrightarrow> body c (s, d1) = (Inr x, (s2, d2)) \<Longrightarrow>
      post (Inr x) s2 (durable d2) \<and> post (Inr x) s2 (seen c d2)"
    and fails: "\<And>c d1 e s2 d2. durable d1 = durable d \<Longrightarrow> seen c d1 = durable d \<Longrightarrow> body c (s, d1) = (Inl e, (s2, d2)) \<Longrightarrow>
      post (Inl e) s2 (durable d2)"
    and start: "\<And>e. post (Inl e) s (durable d)"
    and weaken: "\<And>x e s m. post (Inr x) s m \<Longrightarrow> post (Inl e) s m" "\<And>e e' s m. post (Inl e) s m \<Longrightarrow> post (Inl e') s m"
  shows "post r s' (durable d')"
proof (cases "pg_acquire P d")
  case (Pair a d1)
  show ?thesis
  proof (cases a)
    case (Inl e)
    with run Pair have "r = Inl e" "s' = s" "d' = d1"
      by (simp_all add: with_connection_def abind_def on_db_def)
    with start acquire_fails Pair Inl show ?thesis by metis
  next
    case (Inr c)
    note acq = acquire [of d c d1] Pair Inr
    then have d1: "durable d1 = durable d" "seen c d1 = durable d" by simp_all
    obtain b s2 d2 where body: "body c (s, d1) = (b, (s2, d2))" by (rule prod_cases3)
    show ?thesis
    proof (cases b)
      case (Inl e)
      obtain q d3 where rel: "pg_release P c True d2 = (q, d3)" by fastforce
      from run Pair \<open>a = Inr c\<close> body Inl rel have "s' = s2" "d' = d3" "\<exists>e'. r = Inl e'"
        by (auto simp: with_connection_def abind_def on_db_def split: sum.splits)
      then show ?thesis
        using fails [OF d1] body Inl rolled_back [OF rel] weaken(2) by metis
    next
      case (Inr x)
      obtain q d3 where rel: "pg_release P c False d2 = (q, d3)" by fastforce
      from run Pair \<open>a = Inr c\<close> body Inr rel have *: "s' = s2" "d' = d3" "r = (case q of Inl e \<Rightarrow> Inl e | Inr _ \<Rightarrow> Inr x)"
        by (auto simp: with_connection_def abind_def on_db_def split: sum.splits)
      have post: "post (Inr x) s2 (durable d2)" "post (Inr x) s2 (seen c d2)"
        using ok [OF d1] body Inr by simp_all
      show ?thesis
      proof (cases q)
        case (Inl e)
        then have "durable d3 \<in> {durable d2, seen c d2}" using release_fails rel by simp
        with * post Inl weaken(1) show ?thesis by auto
      next
        case (Inr u)
        then have "durable d3 = seen c d2" using released rel by simp
        with * post Inr show ?thesis by simp
      qed
    qed
  qed
qed

end


context postgres
begin

lemma save_own:
  assumes "checkpoint_save P l None (s, d) = (r, (s', d'))"
  shows "same_row s s' \<and> others_kept s (durable d) (durable d')
    \<and> stored durable (s, d') \<in> (case r of Inr _ \<Rightarrow> {Some l} | Inl _ \<Rightarrow> {stored durable (s, d), Some l})"
proof -
  define post where "post = (\<lambda>(r :: exn + unit) s' m. same_row s s' \<and> others_kept s (durable d) m
    \<and> position m (ct_table s) (ct_consumer_name s)
        \<in> (case r of Inr _ \<Rightarrow> {Some l} | Inl _ \<Rightarrow> {stored durable (s, d), Some l}))"
  let ?body = "\<lambda>c. abind (ensure_schema P c) (\<lambda>_. abind (upsert P c l) (\<lambda>_. on_db (pg_commit P c)))"
  have set: "position m = (position (durable d))(ct_table s := (position (durable d) (ct_table s))(ct_consumer_name s := Some l))
      \<Longrightarrow> same_row s s2 \<Longrightarrow> post r s2 m" for r m s2
    by (auto simp: post_def others_kept_set split: sum.splits)
  have kept: "post (Inl e) s2 m" if "position m = position (durable d)" "same_row s s2" for e s2 m
    using that by (auto simp: post_def others_kept_eq stored_def)
  have body: "(case q of Inr _ \<Rightarrow> post q s2 (durable d2) \<and> post q s2 (seen c d2) | Inl e \<Rightarrow> post q s2 (durable d2))"
    if d1: "durable d1 = durable d" "seen c d1 = durable d" and run: "?body c (s, d1) = (q, (s2, d2))" for c d1 q s2 d2
  proof -
    obtain a s3 d3 where a: "ensure_schema P c (s, d1) = (a, (s3, d3))" by (rule prod_cases3)
    show ?thesis
    proof (cases a)
      case (Inl e)
      with run a ensure_schema_fails [of c s d1 e s3 d3] d1 show ?thesis by (auto simp: kept)
    next
      case (Inr x)
      note a = a [unfolded Inr]
      have s3: "same_row s s3" "durable d3 = durable d" "position (seen c d3) = position (durable d)"
        using ensure_schema_ok [OF a] d1 by simp_all
      obtain b s4 d4 where b: "upsert P c l (s3, d3) = (b, (s4, d4))" by (rule prod_cases3)
      show ?thesis
      proof (cases b)
        case (Inl e)
        with run a b upsert_fails [of c l s3 d3 e s4 d4] s3 show ?thesis by (auto simp: kept)
      next
        case (Inr x)
        note b = b [unfolded Inr]
        have s4: "same_row s s4" "durable d4 = durable d"
          "position (seen c d4) = (position (durable d))(ct_table s := (position (durable d) (ct_table s))(ct_consumer_name s := Some l))"
          using upsert_ok [OF b] s3 by (auto simp: position_set same_row_def)
        from run a b have q: "s2 = s4" "pg_commit P c d4 = (q, d2)"
          by (auto simp: on_db_eq)
        show ?thesis
        proof (cases q)
          case (Inl e)
          with commit_fails [of c d4 e d2] q s4 show ?thesis by (auto simp: kept set)
        next
          case (Inr x)
          with commit [of c d4 x d2] q s4 show ?thesis by (auto simp: set)
        qed
      qed
    qed
  qed
  have "post r s' (durable d')"
  proof (rule with_connection_post [where body = ?body and s = s and d = d])
    show "with_connection P ?body (s, d) = (r, (s', d'))" using assms by (simp add: checkpoint_save_def)
    show "post (Inl e) s (durable d)" for e by (rule kept) simp_all
    show "post (Inr x) s m \<Longrightarrow> post (Inl e) s m" for x e s m by (simp add: post_def)
    show "post (Inl e) s m \<Longrightarrow> post (Inl e') s m" for e e' s m by (simp add: post_def)
  qed (use body in fastforce)+
  then show ?thesis by (simp add: post_def stored_def)
qed

lemma load_own:
  assumes "checkpoint_load u P (s, d) = (r, (s', d'))"
  shows "same_row s s' \<and> position (durable d') = position (durable d)
    \<and> (\<forall>x. r = Inr x \<longrightarrow> x = stored durable (s, d) \<and> (\<forall>l. x = Some l \<longrightarrow> 0 \<le> l))"
proof -
  define post where "post = (\<lambda>(r :: exn + int option) s' m. same_row s s'
    \<and> position m = position (durable d) \<and> (\<forall>x. r = Inr x \<longrightarrow> x = stored durable (s, d)))"
  let ?body = "\<lambda>c. abind (ensure_schema P c) (\<lambda>_. abind (on_db (pg_commit P c)) (\<lambda>_. fetch_lsn P c))"
  have body: "(case q of Inr _ \<Rightarrow> post q s2 (durable d2) \<and> post q s2 (seen c d2) | Inl e \<Rightarrow> post q s2 (durable d2))"
    if d1: "durable d1 = durable d" "seen c d1 = durable d" and run: "?body c (s, d1) = (q, (s2, d2))" for c d1 q s2 d2
  proof -
    obtain a s3 d3 where a: "ensure_schema P c (s, d1) = (a, (s3, d3))" by (rule prod_cases3)
    show ?thesis
    proof (cases a)
      case (Inl e)
      with run a ensure_schema_fails [of c s d1 e s3 d3] d1 show ?thesis by (auto simp: post_def)
    next
      case (Inr x)
      note a = a [unfolded Inr]
      have s3: "same_row s s3" "durable d3 = durable d" "position (seen c d3) = position (durable d)"
        using ensure_schema_ok [OF a] d1 by simp_all
      obtain b d4 where b: "pg_commit P c d3 = (b, d4)" by fastforce
      show ?thesis
      proof (cases b)
        case (Inl e)
        with run a b commit_fails [of c d3 e d4] s3 show ?thesis by (auto simp: post_def on_db_def)
      next
        case (Inr x)
        note b = b [unfolded Inr]
        have d4: "position (durable d4) = position (durable d)" "position (seen c d4) = position (durable d)"
          using commit [OF b] s3 by simp_all
        from run a b have q: "fetch_lsn P c (s3, d4) = (q, (s2, d2))" by (simp add: on_db_def)
        show ?thesis
        proof (cases q)
          case (Inl e)
          with fetch_fails [of c s3 d4 e s2 d2] q s3 d4 show ?thesis by (auto simp: post_def)
        next
          case (Inr x)
          with fetch_ok [of c s3 d4 x s2 d2] q s3 d4 show ?thesis
            by (auto simp: post_def stored_def same_row_def)
        qed
      qed
    qed
  qed
  obtain q s2 d2 where run: "with_connection P ?body (s, d) = (q, (s2, d2))" by (rule prod_cases3)
  have "post q s2 (durable d2)"
  proof (rule with_connection_post [where body = ?body and s = s and d = d, OF run])
    show "post (Inl e) s (durable d)" for e by (simp add: post_def)
    show "post (Inr x) s m \<Longrightarrow> post (Inl e) s m" for x e s m by (simp add: post_def)
    show "post (Inl e) s m \<Longrightarrow> post (Inl e') s m" for e e' s m by (simp add: post_def)
  qed (use body in fastforce)+
  moreover have "checkpoint_load u P (s, d) =
      (case q of
         Inl e \<Rightarrow> (Inl e, (s2, d2))
       | Inr None \<Rightarrow> (Inr None, (s2, d2))
       | Inr (Some l) \<Rightarrow>
           if l < 0 then (Inl (negative_checkpoint u (ct_consumer_name s2) l), (s2, d2)) else (Inr (Some l), (s2, d2)))"
    unfolding checkpoint_load_def abind_def [of "with_connection P ?body"] run
    by (auto split: sum.splits option.splits)
  ultimately show ?thesis
    unfolding assms
    by (cases q) (auto simp: post_def split: option.splits if_splits)
qed

end


context postgres
begin

text \<open>A save that joins the caller's transaction.\<close>

lemma save_joined:
  assumes "checkpoint_save P l (Some c) (s, d) = (r, (s', d'))"
  shows "same_row s s' \<and> durable d' = durable d
    \<and> (r = Inr () \<longrightarrow> position (seen c d') =
         (position (seen c d))(ct_table s := (position (seen c d) (ct_table s))(ct_consumer_name s := Some l)))"
proof -
  obtain a s1 d1 where a: "ensure_schema P c (s, d) = (a, (s1, d1))" by (rule prod_cases3)
  show ?thesis
  proof (cases a)
    case (Inl e)
    then show ?thesis using assms a ensure_schema_fails [of c s d e s1 d1] by (auto simp: checkpoint_save_def)
  next
    case (Inr x)
    note a = a [unfolded Inr]
    have s1: "same_row s s1" "durable d1 = durable d" "position (seen c d1) = position (seen c d)"
      using ensure_schema_ok [OF a] by simp_all
    from assms a have run: "upsert P c l (s1, d1) = (r, (s', d'))" by (simp add: checkpoint_save_def)
    show ?thesis
    proof (cases r)
      case (Inl e)
      with upsert_fails [of c l s1 d1 e s' d'] run s1 show ?thesis by simp
    next
      case (Inr x)
      with upsert_ok [of c l s1 d1 x s' d'] run s1 show ?thesis
        by (auto simp: position_set same_row_def)
    qed
  qed
qed

text \<open>
  A store whose fields say the table is there when it is, on a database that can be reached: the
  table is there from then on, and the operations return.
\<close>

lemma ensure_schema_up:
  assumes "up d" and "well_named s" and "ct_schema_ready s \<longrightarrow> seen c d (ct_table s) \<noteq> None"
  shows "\<exists>d'. ensure_schema P c (s, d) = (Inr (), (s\<lparr>ct_schema_ready := True\<rparr>, d')) \<and> up d'
    \<and> seen c d' (ct_table s) \<noteq> None"
proof (cases "ct_schema_ready s")
  case True
  with assms(1,3) show ?thesis by (auto simp: ensure_schema_def)
next
  case False
  obtain r d' where *: "pg_execute P c (CreateTable (ct_table s)) d = (Inr r, d')" "up d'"
    using up_create [OF assms(1)] assms(2) unfolding well_named_def by blast
  then have "seen c d' (ct_table s) \<noteq> None" using create [OF *(1)] by simp
  with False * show ?thesis by (simp add: ensure_schema_def abind_def on_db_def)
qed

lemma save_up:
  assumes "up d" and "well_named s" and "bigint l" and "ct_schema_ready s \<longrightarrow> durable d (ct_table s) \<noteq> None"
  shows "\<exists>d'. checkpoint_save P l None (s, d) = (Inr (), (s\<lparr>ct_schema_ready := True\<rparr>, d')) \<and> up d'
    \<and> durable d' (ct_table s) \<noteq> None"
proof -
  obtain c d1 where acq: "pg_acquire P d = (Inr c, d1)" "up d1" using up_acquire [OF assms(1)] by blast
  then have seen1: "seen c d1 = durable d" using acquire by blast
  obtain d2 where ens: "ensure_schema P c (s, d1) = (Inr (), (s\<lparr>ct_schema_ready := True\<rparr>, d2))" "up d2"
    "seen c d2 (ct_table s) \<noteq> None"
    using ensure_schema_up [OF acq(2) assms(2), of c] assms(4) seen1 by auto
  obtain r d3 where ups: "pg_execute P c (Upsert (ct_table s) (ct_consumer_name s) l) d2 = (Inr r, d3)" "up d3"
    using up_upsert [OF ens(2) _ assms(3) ens(3)] assms(2) unfolding well_named_def by blast
  have seen3: "seen c d3 (ct_table s) \<noteq> None"
    using upsert_row [OF ups(1)] ens(3) set_position_keeps by metis
  obtain d4 where com: "pg_commit P c d3 = (Inr (), d4)" "up d4" using up_commit [OF ups(2)] by blast
  obtain d5 where rel: "pg_release P c False d4 = (Inr (), d5)" "up d5" using up_release [OF com(2)] by blast
  have "durable d5 = seen c d3" using released [OF rel(1)] commit [OF com(1)] by simp
  moreover have "checkpoint_save P l None (s, d) = (Inr (), (s\<lparr>ct_schema_ready := True\<rparr>, d5))"
    using acq(1) ens(1) ups(1) com(1) rel(1)
    by (simp add: checkpoint_save_def with_connection_def upsert_def abind_def on_db_def)
  ultimately show ?thesis using rel(2) seen3 by auto
qed

lemma load_up:
  assumes "up d" and "well_named s" and "ct_schema_ready s \<longrightarrow> durable d (ct_table s) \<noteq> None"
  shows "\<exists>d'. checkpoint_load u P (s, d) =
      ((case stored durable (s, d) of
          Some l \<Rightarrow> if l < 0 then Inl (negative_checkpoint u (ct_consumer_name s) l) else Inr (Some l)
        | None \<Rightarrow> Inr None), (s\<lparr>ct_schema_ready := True\<rparr>, d')) \<and> up d'
    \<and> durable d' (ct_table s) \<noteq> None"
proof -
  obtain c d1 where acq: "pg_acquire P d = (Inr c, d1)" "up d1" using up_acquire [OF assms(1)] by blast
  then have seen1: "seen c d1 = durable d" using acquire by blast
  obtain d2 where ens: "ensure_schema P c (s, d1) = (Inr (), (s\<lparr>ct_schema_ready := True\<rparr>, d2))" "up d2"
    "seen c d2 (ct_table s) \<noteq> None"
    using ensure_schema_up [OF acq(2) assms(2), of c] assms(3) seen1 by auto
  have pos2: "position (seen c d2) = position (durable d)"
    using ensure_schema_ok [OF ens(1)] seen1 by simp
  obtain d3 where com: "pg_commit P c d2 = (Inr (), d3)" "up d3" using up_commit [OF ens(2)] by blast
  have seen3: "seen c d3 = seen c d2" using commit [OF com(1)] by simp
  then obtain r d4 where sel: "pg_execute P c (SelectLsn (ct_table s) (ct_consumer_name s)) d3 = (Inr r, d4)" "up d4"
    using up_select [OF com(2), of "ct_consumer_name s" c "ct_table s"] ens(3) assms(2) unfolding well_named_def by metis
  have r: "r = stored durable (s, d)" "seen c d4 = seen c d2"
    using select [OF sel(1)] seen3 pos2 by (simp_all add: stored_def)
  obtain d5 where rel: "pg_release P c False d4 = (Inr (), d5)" "up d5" using up_release [OF sel(2)] by blast
  have "durable d5 = seen c d2" using released [OF rel(1)] r(2) by simp
  moreover have "checkpoint_load u P (s, d) =
      ((case stored durable (s, d) of
          Some l \<Rightarrow> if l < 0 then Inl (negative_checkpoint u (ct_consumer_name s) l) else Inr (Some l)
        | None \<Rightarrow> Inr None), (s\<lparr>ct_schema_ready := True\<rparr>, d5))"
    using acq(1) ens(1) com(1) sel(1) rel(1) r(1)
    by (simp add: checkpoint_load_def with_connection_def fetch_lsn_def abind_def on_db_def split: option.splits)
  ultimately show ?thesis using rel(2) ens(3) by auto
qed

end

sublocale postgres \<subseteq> store: checkpoint_store "checkpoint_load u P" "\<lambda>l. checkpoint_save P l None" "stored durable"
  for u
proof unfold_locales
  fix l s u' s' e r r'
  show "checkpoint_save P l None s = (Inr u', s') \<Longrightarrow> stored durable s' = Some l"
    by (cases s; cases s') (auto dest!: save_own simp: stored_def same_row_def)
  show "checkpoint_save P l None s = (Inl e, s') \<Longrightarrow> stored durable s' \<in> {stored durable s, Some l}"
    by (cases s; cases s') (auto dest!: save_own simp: stored_def same_row_def)
  show "checkpoint_load u P s = (Inr r, s') \<Longrightarrow> r = stored durable s"
    by (cases s; cases s') (auto dest!: load_own)
  show "checkpoint_load u P s = (r', s') \<Longrightarrow> stored durable s' = stored durable s"
    by (cases s; cases s') (auto dest!: load_own simp: stored_def same_row_def)
qed


section \<open>A small database\<close>

text \<open>
  An instance: tables as association lists, the uncommitted tables of every connection that has
  changed something, and the answers of the next commits.
\<close>

type_synonym mini_tables = "(pystr \<times> (pystr \<times> int) list) list"

record mini =
  md_committed :: mini_tables
  md_work :: "(nat \<times> mini_tables) list"
  md_next :: nat
  md_commits :: "exn option list"

definition tables_of :: "mini_tables \<Rightarrow> tables" where
  "tables_of m = (\<lambda>t. map_option map_of (map_of m t))"

definition mini_view :: "nat \<Rightarrow> mini \<Rightarrow> mini_tables" where
  "mini_view c d = (case map_of (md_work d) c of None \<Rightarrow> md_committed d | Some w \<Rightarrow> w)"

definition mini_change :: "nat \<Rightarrow> mini_tables \<Rightarrow> mini \<Rightarrow> mini" where
  "mini_change c w d = d\<lparr>md_work := AList.update c w (md_work d)\<rparr>"

definition mini_drop :: "nat \<Rightarrow> mini \<Rightarrow> mini" where
  "mini_drop c d = d\<lparr>md_work := AList.delete c (md_work d)\<rparr>"

fun mini_execute :: "nat \<Rightarrow> statement \<Rightarrow> (mini, exn, int option) action" where
  "mini_execute c (CreateTable t) d =
     (Inr None, case map_of (mini_view c d) t of
        None \<Rightarrow> mini_change c (AList.update t [] (mini_view c d)) d | Some _ \<Rightarrow> d)"
| "mini_execute c (SelectLsn t k) d =
     (case map_of (mini_view c d) t of None \<Rightarrow> Inl (ApplicationError 0) | Some rows \<Rightarrow> Inr (map_of rows k), d)"
| "mini_execute c (Upsert t k l) d =
     (case map_of (mini_view c d) t of
        None \<Rightarrow> (Inl (ApplicationError 0), d)
      | Some rows \<Rightarrow> (Inr None, mini_change c (AList.update t (AList.update k l rows) (mini_view c d)) d))"

definition mini_commit :: "nat \<Rightarrow> (mini, exn, unit) action" where
  "mini_commit c d =
     (case md_commits d of
        Some e # rest \<Rightarrow> (Inl e, mini_drop c d\<lparr>md_commits := rest\<rparr>)
      | rest \<Rightarrow> (Inr (), mini_drop c d\<lparr>md_committed := mini_view c d, md_commits := tl rest\<rparr>))"

definition mini_client :: "(mini, nat) pg_client" where
  "mini_client =
     \<lparr>pg_acquire = (\<lambda>d. (Inr (md_next d), mini_drop (md_next d) d\<lparr>md_next := md_next d + 1\<rparr>)),
      pg_release = (\<lambda>c raised d. if raised then (Inr (), mini_drop c d) else mini_commit c d),
      pg_execute = mini_execute,
      pg_commit = mini_commit\<rparr>"

definition mini_init :: "exn option list \<Rightarrow> mini" where
  "mini_init commits = \<lparr>md_committed = [], md_work = [], md_next = 0, md_commits = commits\<rparr>"

abbreviation mini_durable :: "mini \<Rightarrow> tables" where
  "mini_durable d \<equiv> tables_of (md_committed d)"

abbreviation mini_seen :: "nat \<Rightarrow> mini \<Rightarrow> tables" where
  "mini_seen c d \<equiv> tables_of (mini_view c d)"

lemmas mini_simps = mini_client_def mini_view_def mini_change_def mini_drop_def mini_commit_def mini_init_def

lemma tables_of_update [simp]: "tables_of (AList.update t rows m) = (tables_of m)(t := Some (map_of rows))"
  by (rule ext) (simp add: tables_of_def)

lemma map_of_exists: "tables_of m t = None \<longleftrightarrow> map_of m t = None"
  by (simp add: tables_of_def)

interpretation mini_pg: postgres mini_client mini_durable mini_seen "\<lambda>d. md_commits d = []"
proof unfold_locales
  fix c t r d d'
  assume "pg_execute mini_client c (CreateTable t) d = (Inr r, d')"
  then show "mini_seen c d' = create_table t (mini_seen c d) \<and> mini_durable d' = mini_durable d"
    by (auto simp: mini_simps create_table_def fun_eq_iff tables_of_def split: option.splits)
next
  fix c t k l r d d'
  assume "pg_execute mini_client c (Upsert t k l) d = (Inr r, d')"
  then show "mini_seen c d t \<noteq> None \<and> mini_seen c d' = set_position t k l (mini_seen c d) \<and> mini_durable d' = mini_durable d"
    by (auto simp: mini_simps set_position_def fun_eq_iff tables_of_def split: option.splits)
next
  fix c t k r d d'
  assume "pg_execute mini_client c (SelectLsn t k) d = (Inr r, d')"
  then show "r = position (mini_seen c d) t k \<and> mini_seen c d' = mini_seen c d \<and> mini_durable d' = mini_durable d"
    by (auto simp: mini_simps position_def tables_of_def split: option.splits)
next
  fix c stmt e d d'
  assume "pg_execute mini_client c stmt d = (Inl e, d')"
  then show "mini_durable d' = mini_durable d"
    by (cases stmt) (auto simp: mini_simps split: option.splits)
next
  fix c t k d
  assume "md_commits d = []" "mini_seen c d t \<noteq> None"
  then show "\<exists>r d'. pg_execute mini_client c (SelectLsn t k) d = (Inr r, d') \<and> md_commits d' = []"
    by (auto simp: mini_client_def tables_of_def)
next
  fix c t k l d
  assume "md_commits d = []" "mini_seen c d t \<noteq> None"
  then show "\<exists>r d'. pg_execute mini_client c (Upsert t k l) d = (Inr r, d') \<and> md_commits d' = []"
    by (auto simp: mini_client_def mini_change_def tables_of_def)
qed (auto simp: mini_simps split: option.splits list.splits if_splits)



section \<open>Properties\<close>

lemma demo_named: "well_named (configure (lit ''c'') default_table)"
  by (simp add: well_named_def bindable_def is_scalar_def configure_def default_table_def)

text \<open>C19: the store keeps the contract of a checkpoint store on every database that keeps PostgreSQL's
  promises. A save on its own connection that returns has made its position the stored one, and the
  next load that returns gives exactly that; one that raises leaves the old position or the new one.
  A load never changes a position and never returns a negative one. Neither touches the row of another
  consumer or another table.\<close>

theorem saved_position_is_loaded:
  assumes "postgres P durable seen up"
    and "checkpoint_save P lsn None (s, d) = (r, (s', d'))"
    and "checkpoint_load u P (s', d') = (r', (s'', d''))"
  shows "(case r of Inr _ \<Rightarrow> stored durable (s', d') = Some lsn
          | Inl _ \<Rightarrow> stored durable (s', d') \<in> {stored durable (s, d), Some lsn})
    \<and> (\<forall>x. r' = Inr x \<longrightarrow> x = stored durable (s', d') \<and> (\<forall>l. x = Some l \<longrightarrow> 0 \<le> l))
    \<and> others_kept s (durable d) (durable d'')
    \<and> position (durable d'') = position (durable d') \<and> same_row s s''"
proof -
  have save: "same_row s s'" "others_kept s (durable d) (durable d')"
    "stored durable (s, d') \<in> (case r of Inr _ \<Rightarrow> {Some lsn} | Inl _ \<Rightarrow> {stored durable (s, d), Some lsn})"
    using postgres.save_own [OF assms(1,2)] by blast+
  have load: "same_row s' s''" "position (durable d'') = position (durable d')"
    "\<forall>x. r' = Inr x \<longrightarrow> x = stored durable (s', d') \<and> (\<forall>l. x = Some l \<longrightarrow> 0 \<le> l)"
    using postgres.load_own [OF assms(1,3)] by blast+
  have "stored durable (s', d') = stored durable (s, d')"
    using save(1) by (simp add: stored_def same_row_def)
  then have "case r of Inr _ \<Rightarrow> stored durable (s', d') = Some lsn
      | Inl _ \<Rightarrow> stored durable (s', d') \<in> {stored durable (s, d), Some lsn}"
    using save(3) by (cases r) simp_all
  moreover have "others_kept s (durable d) (durable d'')"
    using save(2) load(2) by (simp add: others_kept_def)
  moreover have "same_row s s''" using save(1) load(1) by (simp add: same_row_def)
  ultimately show ?thesis using load(2,3) by blast
qed

theorem saved_position_is_loaded_witness:
  "\<forall>u. let s = configure (lit ''c'') default_table;
       (r, (s', d')) = checkpoint_save mini_client 41 None (s, mini_init []);
       (r', (s'', d'')) = checkpoint_load u mini_client (s', d')
   in r = Inr () \<and> r' = Inr (Some 41) \<and> stored mini_durable (s', d') = Some 41
      \<and> others_kept s (mini_durable (mini_init [])) (mini_durable d'')"
  (is "\<forall>u. ?P u")
proof
  fix u
  let ?s = "configure (lit ''c'') default_table"
  obtain s' d' where run: "checkpoint_save mini_client 41 None (?s, mini_init []) = (Inr (), (s', d'))"
    "ct_schema_ready s'" "mini_durable d' (ct_table s') \<noteq> None" "md_commits d' = []"
    using mini_pg.save_up [of "mini_init []" ?s 41] demo_named by (force simp: configure_def mini_init_def bigint_def)
  obtain r' s'' d'' where load: "checkpoint_load u mini_client (s', d') = (r', (s'', d''))"
    by (rule prod_cases3)
  have named: "well_named s'"
    using mini_pg.save_own [OF run(1)] demo_named by (simp add: same_row_def well_named_def)
  note props = saved_position_is_loaded [OF mini_pg.postgres_axioms run(1) load]
  from props have "stored mini_durable (s', d') = Some 41" by simp
  moreover from this have "r' = Inr (Some 41)"
    using mini_pg.load_up [of d' s' u] run load named by auto
  moreover from props have "others_kept ?s (mini_durable (mini_init [])) (mini_durable d'')" by blast
  ultimately show "?P u" unfolding Let_def run(1) prod.case load by blast
qed

text \<open>C20: \<open>save(connection=...)\<close> keeps the caller's transaction whole: it makes nothing durable, a
  rollback of the caller's transaction leaves every position as it was, and the caller's commit makes
  the new position durable together with the rest of the transaction, everyone else's positions being
  what the transaction sees.\<close>

theorem joined_save_follows_the_transaction:
  assumes "postgres P durable seen up"
    and "checkpoint_save P lsn (Some c) (s, d) = (r, (s', d'))"
  shows "durable d' = durable d
    \<and> (\<forall>q d''. pg_release P c True d' = (q, d'') \<longrightarrow> durable d'' = durable d)
    \<and> (\<forall>d''. r = Inr () \<and> (pg_commit P c d' = (Inr (), d'') \<or> pg_release P c False d' = (Inr (), d'')) \<longrightarrow>
         stored durable (s', d'') = Some lsn
         \<and> (\<forall>t k. (t, k) \<noteq> (ct_table s, ct_consumer_name s) \<longrightarrow>
              position (durable d'') t k = position (seen c d) t k))"
proof -
  have save: "same_row s s'" "durable d' = durable d"
    "r = Inr () \<longrightarrow> position (seen c d') =
       (position (seen c d))(ct_table s := (position (seen c d) (ct_table s))(ct_consumer_name s := Some lsn))"
    using postgres.save_joined [OF assms] by blast+
  have end_of: "durable d'' = seen c d'"
    if "pg_commit P c d' = (Inr (), d'') \<or> pg_release P c False d' = (Inr (), d'')" for d''
    using that postgres.commit [OF assms(1)] postgres.released [OF assms(1)] by blast
  show ?thesis
  proof (intro conjI allI impI)
    show "durable d' = durable d" by (rule save(2))
  next
    fix q d''
    assume "pg_release P c True d' = (q, d'')"
    with save(2) postgres.rolled_back [OF assms(1)] show "durable d'' = durable d" by metis
  next
    fix d''
    assume *: "r = Inr () \<and> (pg_commit P c d' = (Inr (), d'') \<or> pg_release P c False d' = (Inr (), d''))"
    with save(1,3) end_of show "stored durable (s', d'') = Some lsn"
      by (simp add: stored_def same_row_def)
    fix t k
    assume "(t, k) \<noteq> (ct_table s, ct_consumer_name s)"
    with * save(3) end_of show "position (durable d'') t k = position (seen c d) t k" by auto
  qed
qed

theorem joined_save_follows_the_transaction_witness:
  "let s = configure (lit ''c'') default_table;
       (r, (s', d')) = checkpoint_save mini_client 41 (Some 7) (s, mini_init []);
       (q, d'') = mini_commit 7 d'
   in r = Inr () \<and> q = Inr () \<and> mini_durable d' = mini_durable (mini_init [])
      \<and> stored mini_durable (s', d'') = Some 41"
proof -
  let ?s = "configure (lit ''c'') default_table"
  obtain r s' d' where run: "checkpoint_save mini_client 41 (Some 7) (?s, mini_init []) = (r, (s', d'))"
    by (rule prod_cases3)
  have r: "r = Inr ()" "md_commits d' = []"
    using run by (auto simp: checkpoint_save_def ensure_schema_def upsert_def configure_def abind_def on_db_def mini_simps)
  obtain d'' where com: "pg_commit mini_client 7 d' = (Inr (), d'')"
    using mini_pg.up_commit r(2) by blast
  then have "mini_commit 7 d' = (Inr (), d'')" by (simp add: mini_client_def)
  with joined_save_follows_the_transaction [OF mini_pg.postgres_axioms run] r com run show ?thesis
    by simp
qed

text \<open>
  The belief can be wrong: \<open>_ensure_schema\<close> notes the table as created before anything is committed.
\<close>

lemma rolled_back_table_is_never_created:
  "let s = configure (lit ''c'') default_table;
       (r1, (s1, d1)) = checkpoint_save mini_client 41 (Some 7) (s, mini_init []);
       (r2, d2) = pg_release mini_client 7 True d1;
       (r3, (s3, d3)) = checkpoint_load u mini_client (s, mini_init [Some (OperationalError [])])
   in r1 = Inr () \<and> r2 = Inr () \<and> md_commits d2 = [] \<and> d2 = mini_init []
      \<and> fst (checkpoint_load u mini_client (s1, d2)) = Inl (ApplicationError 0)
      \<and> fst (checkpoint_save mini_client 42 None (s1, d2)) = Inl (ApplicationError 0)
      \<and> r3 = Inl (OperationalError []) \<and> md_commits d3 = [] \<and> md_committed d3 = []
      \<and> fst (checkpoint_load u mini_client (s3, d3)) = Inl (ApplicationError 0)
      \<and> fst (checkpoint_save mini_client 42 None (s3, d3)) = Inl (ApplicationError 0)"
  by (simp add: checkpoint_save_def checkpoint_load_def with_connection_def ensure_schema_def upsert_def
      fetch_lsn_def configure_def abind_def on_db_def mini_simps Let_def)



end
