(* ===== verification/Py_Replace.thy ===== *)
theory Py_Replace
  imports Py_Bytes
begin

text \<open>
  \<open>bytes.decode(errors="replace")\<close>: each maximal prefix of a sequence that cannot be continued
  becomes one U+FFFD.
\<close>

definition second_of_three :: "byte \<Rightarrow> byte \<Rightarrow> bool" where
  "second_of_three b c = (is_cont c \<and> (b = 224 \<longrightarrow> 160 \<le> c) \<and> (b = 237 \<longrightarrow> c \<le> 159))"

definition second_of_four :: "byte \<Rightarrow> byte \<Rightarrow> bool" where
  "second_of_four b c = (is_cont c \<and> (b = 240 \<longrightarrow> 144 \<le> c) \<and> (b = 244 \<longrightarrow> c \<le> 143))"

fun utf8_replace :: "bytes \<Rightarrow> pystr" where
  "utf8_replace [] = []"
| "utf8_replace (b # bs) =
     (if b < 128 then unat b # utf8_replace bs
      else if b < 194 then 0xFFFD # utf8_replace bs
      else if b < 224 then
        (case bs of
           [] \<Rightarrow> [0xFFFD]
         | c1 # r1 \<Rightarrow>
             if is_cont c1 then ((unat b - 192) * 64 + (unat c1 - 128)) # utf8_replace r1
             else 0xFFFD # utf8_replace bs)
      else if b < 240 then
        (case bs of
           [] \<Rightarrow> [0xFFFD]
         | c1 # r1 \<Rightarrow>
             if \<not> second_of_three b c1 then 0xFFFD # utf8_replace bs
             else (case r1 of
                [] \<Rightarrow> [0xFFFD]
              | c2 # r2 \<Rightarrow>
                  if is_cont c2
                  then ((unat b - 224) * 4096 + (unat c1 - 128) * 64 + (unat c2 - 128)) # utf8_replace r2
                  else 0xFFFD # utf8_replace r1))
      else if b < 245 then
        (case bs of
           [] \<Rightarrow> [0xFFFD]
         | c1 # r1 \<Rightarrow>
             if \<not> second_of_four b c1 then 0xFFFD # utf8_replace bs
             else (case r1 of
                [] \<Rightarrow> [0xFFFD]
              | c2 # r2 \<Rightarrow>
                  if \<not> is_cont c2 then 0xFFFD # utf8_replace r1
                  else (case r2 of
                     [] \<Rightarrow> [0xFFFD]
                   | c3 # r3 \<Rightarrow>
                       if is_cont c3
                       then ((unat b - 240) * 262144 + (unat c1 - 128) * 4096
                             + (unat c2 - 128) * 64 + (unat c3 - 128)) # utf8_replace r3
                       else 0xFFFD # utf8_replace r2)))
      else 0xFFFD # utf8_replace bs)"

declare utf8_replace.simps(2) [simp del]

text \<open>On text the strict decoder accepts, it is the strict decoder.\<close>

lemma utf8_replace_strict: "utf8_decode bs = Some s \<Longrightarrow> utf8_replace bs = s"
proof (induction bs arbitrary: s rule: utf8_decode.induct)
  case 1
  then show ?case by simp
next
  case (2 b bs)
  then show ?case
    by (simp add: utf8_replace.simps(2) [of b] utf8_decode.simps(2) [of b] second_of_three_def
        second_of_four_def split: if_splits list.splits) auto
qed

lemma utf8_replace_encode: "list_all is_scalar s \<Longrightarrow> utf8_replace (utf8_encode s) = s"
  by (rule utf8_replace_strict) (rule utf8_decode_encode)

end
