(* ===== verification/Py_Loops.thy ===== *)
theory Py_Loops
  imports Walbox_Prelude
begin

text \<open>
  Operations that may wait for ever: a \<open>waiting\<close> operation takes the state to a result and a
  state, or to \<open>None\<close> when it never returns. A loop of the source is \<open>loop turn\<close>, where one
  \<open>turn\<close> is the guard and the body: it raises, leaves the loop with a value, or goes on. \<open>settles\<close>
  is the loop's run as a derivation; the two agree (\<open>loop_iff\<close>), and a loop whose turns that go on
  keep an invariant and lower a measure returns (\<open>loop_returns\<close>).
\<close>

type_synonym ('s, 'e, 'a) waiting = "'s \<Rightarrow> (('e + 'a) \<times> 's) option"

definition at_once :: "('s, 'e, 'a) action \<Rightarrow> ('s, 'e, 'a) waiting" where
  "at_once m s = Some (m s)"

definition wbind :: "('s, 'e, 'a) waiting \<Rightarrow> ('a \<Rightarrow> ('s, 'e, 'b) waiting) \<Rightarrow> ('s, 'e, 'b) waiting" where
  "wbind m f s =
     (case m s of
        None \<Rightarrow> None
      | Some (Inl e, s') \<Rightarrow> Some (Inl e, s')
      | Some (Inr x, s') \<Rightarrow> f x s')"

text \<open>\<open>try: ... except\<close>: the outcome mapped, the state kept.\<close>

definition wcatch :: "('e + 'a \<Rightarrow> 'e + 'a) \<Rightarrow> ('s, 'e, 'a) waiting \<Rightarrow> ('s, 'e, 'a) waiting" where
  "wcatch handler m s = map_option (\<lambda>(r, s'). (handler r, s')) (m s)"

partial_function (option) loop :: "('s, 'e, 'a option) action \<Rightarrow> ('s, 'e, 'a) waiting" where
  "loop turn s =
     (case turn s of
        (Inl e, s') \<Rightarrow> Some (Inl e, s')
      | (Inr (Some x), s') \<Rightarrow> Some (Inr x, s')
      | (Inr None, s') \<Rightarrow> loop turn s')"

lemma at_once_simp [simp]: "at_once m s = Some (m s)"
  by (simp add: at_once_def)

lemma wbind_simps [simp]:
  "m s = None \<Longrightarrow> wbind m f s = None"
  "m s = Some (Inl e, s') \<Longrightarrow> wbind m f s = Some (Inl e, s')"
  "m s = Some (Inr x, s') \<Longrightarrow> wbind m f s = f x s'"
  by (simp_all add: wbind_def)

lemma wbind_eq_Some:
  "wbind m f s = Some (r, s') \<longleftrightarrow>
   (\<exists>e. m s = Some (Inl e, s') \<and> r = Inl e) \<or> (\<exists>x t. m s = Some (Inr x, t) \<and> f x t = Some (r, s'))"
  by (auto simp: wbind_def split: option.splits sum.splits prod.splits)

lemma wcatch_eq_Some: "wcatch h m s = Some (r, s') \<longleftrightarrow> (\<exists>r'. m s = Some (r', s') \<and> r = h r')"
  by (auto simp: wcatch_def)

lemma wcatch_simps [simp]:
  "m s = Some (r, s') \<Longrightarrow> wcatch h m s = Some (h r, s')"
  "m s = None \<Longrightarrow> wcatch h m s = None"
  by (simp_all add: wcatch_def)

inductive settles :: "('s, 'e, 'a option) action \<Rightarrow> 's \<Rightarrow> ('e + 'a) \<times> 's \<Rightarrow> bool" for turn where
  settles_raise: "turn s = (Inl e, s') \<Longrightarrow> settles turn s (Inl e, s')"
| settles_stop: "turn s = (Inr (Some x), s') \<Longrightarrow> settles turn s (Inr x, s')"
| settles_go: "turn s = (Inr None, s') \<Longrightarrow> settles turn s' r \<Longrightarrow> settles turn s r"

text \<open>One turn at a time.\<close>

lemma loop_turn [simp]:
  "turn s = (Inl e, s') \<Longrightarrow> loop turn s = Some (Inl e, s')"
  "turn s = (Inr (Some x), s') \<Longrightarrow> loop turn s = Some (Inr x, s')"
  "turn s = (Inr None, s') \<Longrightarrow> loop turn s = loop turn s'"
  by (simp_all add: loop.simps [of turn s])

lemma settles_loop: "settles turn s r \<Longrightarrow> loop turn s = Some r"
  by (induction rule: settles.induct) simp_all

lemma loop_settles:
  fixes turn :: "('s, 'e, 'a option) action"
  assumes "loop turn s = Some r"
  shows "settles turn s r"
proof (rule loop.raw_induct [where P = "\<lambda>turn s r. settles turn s r", OF _ assms])
  fix f and turn :: "('s, 'e, 'a option) action" and s r
  assume IH: "\<And>turn s r. f turn s = Some r \<Longrightarrow> settles turn s r"
    and eq: "(case turn s of
        (Inl e, s') \<Rightarrow> Some (Inl e, s')
      | (Inr (Some x), s') \<Rightarrow> Some (Inr x, s')
      | (Inr None, s') \<Rightarrow> f turn s') = Some r"
  from eq show "settles turn s r"
    by (auto split: prod.splits sum.splits option.splits
        intro: settles_raise settles_stop settles_go IH)
qed

lemma loop_iff: "loop turn s = Some r \<longleftrightarrow> settles turn s r"
  by (auto intro: settles_loop loop_settles)

text \<open>Partial correctness: what every turn establishes of the result, under an invariant.\<close>

lemma loop_result:
  assumes "loop turn s = Some (r, s')" and "keeps s"
    and "\<And>s t. keeps s \<Longrightarrow> turn s = (Inr None, t) \<Longrightarrow> keeps t"
    and "\<And>s e t. keeps s \<Longrightarrow> turn s = (Inl e, t) \<Longrightarrow> post (Inl e) t"
    and "\<And>s x t. keeps s \<Longrightarrow> turn s = (Inr (Some x), t) \<Longrightarrow> post (Inr x) t"
  shows "post r s'"
  using loop_settles [OF assms(1)] assms(2)
proof (induction s "(r, s')" rule: settles.induct)
  case settles_raise
  then show ?case by (auto intro: assms(4))
next
  case settles_stop
  then show ?case by (auto intro: assms(5))
next
  case settles_go
  then show ?case by (auto intro: assms(3))
qed

text \<open>Total correctness: the loop returns.\<close>

lemma loop_returns:
  fixes rank :: "'s \<Rightarrow> nat"
  assumes "keeps s"
    and "\<And>s t. keeps s \<Longrightarrow> turn s = (Inr None, t) \<Longrightarrow> keeps t \<and> rank t < rank s"
  shows "\<exists>r. loop turn s = Some r"
  using assms(1)
proof (induction "rank s" arbitrary: s rule: less_induct)
  case less
  show ?case
  proof (cases "turn s")
    case (Pair r t)
    show ?thesis
    proof (cases "r = Inr None")
      case True
      with Pair less assms(2) show ?thesis by simp
    next
      case False
      with Pair show ?thesis by (cases r) auto
    qed
  qed
qed

lemmas waiting_simps = wbind_def wcatch_def loop.simps

end
