(* ===== verification/Transport.thy ===== *)
theory Transport
  imports Py_Replace Py_Loops
begin

unbundle bit_operations_syntax

text \<open>
  \<open>walbox/transport.py\<close>: the LSN text form, the replication commands, and the COPY BOTH
  loops over libpq. The connection (psycopg's \<open>pgconn\<close>, and the event loop that waits for its
  socket) is a parameter: a record of the calls the source makes, each an action on the connection's
  own state. What a loop does between two tests of its guard is a \<open>turn\<close>, and the loop is
  \<open>loop turn\<close>: its value is \<open>None\<close> if it never returns. Log calls and the cancellation of a
  waiting task are left out.
\<close>

section \<open>LSN text\<close>

definition format_lsn :: "int \<Rightarrow> pystr" where
  "format_lsn lsn = hex_upper (drop_bit 32 lsn) @ lit ''/'' @ hex_upper (lsn AND 0xFFFFFFFF)"

text \<open>\<open>text.split("/")\<close>\<close>

fun split_slash :: "pystr \<Rightarrow> pystr list" where
  "split_slash [] = [[]]"
| "split_slash (c # cs) =
     (if c = 47 then [] # split_slash cs
      else case split_slash cs of [] \<Rightarrow> [[c]] | part # parts \<Rightarrow> (c # part) # parts)"

text \<open>The texts of the \<open>ValueError\<close>s are the interpreter's and are left empty.\<close>

definition parse_lsn :: "unicode_db \<Rightarrow> pystr \<Rightarrow> exn + int" where
  "parse_lsn u text =
     (case split_slash text of
        [high, low] \<Rightarrow>
          rbind (of_option (ValueError []) (int_hex u high)) (\<lambda>h.
          rbind (of_option (ValueError []) (int_hex u low)) (\<lambda>l.
          Inr (push_bit 32 h OR l)))
      | _ \<Rightarrow> Inl (ValueError []))"


section \<open>The connection\<close>

text \<open>The statuses the source tells apart; any other one is \<open>OtherStatus\<close>.\<close>

datatype exec_status = FATAL_ERROR | COPY_IN | COPY_OUT | COPY_BOTH | OtherStatus nat

record pg_result =
  res_status :: exec_status
  res_sqlstate :: "bytes option"

text \<open>
  The calls on \<open>pgconn\<close>. \<open>pg_wait_readable\<close> and \<open>pg_wait_writable\<close> are the connection once
  its socket has become ready; \<open>pg_wait_either\<close> also says whether it is readable.
\<close>

record 'k pgconn =
  pg_send_query :: "bytes \<Rightarrow> ('k, exn, unit) action"
  pg_flush :: "('k, exn, int) action"
  pg_consume_input :: "('k, exn, unit) action"
  pg_is_busy :: "'k \<Rightarrow> bool"
  pg_get_result :: "('k, exn, pg_result option) action"
  pg_get_copy_data :: "('k, exn, int \<times> bytes) action"
  pg_put_copy_data :: "bytes \<Rightarrow> ('k, exn, int) action"
  pg_put_copy_end :: "('k, exn, int) action"
  pg_error_message :: "'k \<Rightarrow> bytes"
  pg_finish :: "'k \<Rightarrow> 'k"
  pg_wait_readable :: "'k \<Rightarrow> 'k"
  pg_wait_writable :: "'k \<Rightarrow> 'k"
  pg_wait_either :: "'k \<Rightarrow> bool \<times> 'k"

record 'k transport =
  tr_dsn :: pystr
  tr_slot_name :: pystr
  tr_publication_name :: pystr
  tr_conn :: "'k option"

definition transport_init :: "pystr \<Rightarrow> pystr \<Rightarrow> pystr \<Rightarrow> 'k transport" where
  "transport_init dsn slot_name publication_name =
     \<lparr>tr_dsn = dsn, tr_slot_name = slot_name, tr_publication_name = publication_name, tr_conn = None\<rparr>"

text \<open>The \<open>_pgconn\<close> property: the open connection, or an \<open>AssertionError\<close>.\<close>

definition with_pgconn :: "('k, exn, 'a) waiting \<Rightarrow> ('k transport, exn, 'a) waiting" where
  "with_pgconn m tr =
     (case tr_conn tr of
        None \<Rightarrow> Some (Inl AssertionError, tr)
      | Some k \<Rightarrow> map_option (\<lambda>(r, k'). (r, tr\<lparr>tr_conn := Some k'\<rparr>)) (m k))"

definition connection_error :: "pystr \<Rightarrow> error_context \<Rightarrow> exn" where
  "connection_error message context = ReplicationConnectionError (walbox_error_init message (Some context))"

text \<open>\<open>except OperationalError as exc: raise ReplicationConnectionError(f"... {exc}")\<close>\<close>

definition wrap_operational :: "string \<Rightarrow> error_context \<Rightarrow> exn + 'a \<Rightarrow> exn + 'a" where
  "wrap_operational prefix context r =
     (case r of
        Inl (OperationalError m) \<Rightarrow> Inl (connection_error (lit prefix @ m) context)
      | _ \<Rightarrow> r)"

definition slot_context :: "'k transport \<Rightarrow> error_context" where
  "slot_context tr = no_context\<lparr>ctx_slot := Some (tr_slot_name tr)\<rparr>"

text \<open>\<open>connect\<close>, given psycopg's \<open>make_conninfo(dsn, replication="database")\<close> and what it answers
  to the attempt to connect.\<close>

definition transport_connect ::
    "(pystr \<Rightarrow> exn + pystr) \<Rightarrow> (pystr \<Rightarrow> exn + 'k) \<Rightarrow> ('k transport, exn, unit) action" where
  "transport_connect make_conninfo open_connection tr =
     (case make_conninfo (tr_dsn tr) of
        Inl e \<Rightarrow> (Inl e, tr)
      | Inr dsn \<Rightarrow>
          (case wrap_operational ''failed to open replication connection: ''
                  (no_context\<lparr>ctx_slot := Some (tr_slot_name tr),
                              ctx_publication := Some (tr_publication_name tr)\<rparr>) (open_connection dsn) of
             Inl e \<Rightarrow> (Inl e, tr)
           | Inr k \<Rightarrow> (Inr (), tr\<lparr>tr_conn := Some k\<rparr>)))"

text \<open>\<open>close\<close>: the connection it finished, if there was one, and the transport.\<close>

definition transport_close :: "'k pgconn \<Rightarrow> 'k transport \<Rightarrow> 'k option \<times> 'k transport" where
  "transport_close pg tr =
     (case tr_conn tr of
        None \<Rightarrow> (None, tr)
      | Some k \<Rightarrow> (Some (pg_finish pg k), tr\<lparr>tr_conn := None\<rparr>))"


section \<open>The loops\<close>

definition flush_turn :: "'k pgconn \<Rightarrow> ('k, exn, unit option) action" where
  "flush_turn pg k =
     (case pg_flush pg k of
        (Inl e, k) \<Rightarrow> (Inl e, k)
      | (Inr n, k) \<Rightarrow>
          if n = 1
          then (case pg_wait_either pg k of
                  (readable, k) \<Rightarrow>
                    if readable
                    then (case pg_consume_input pg k of
                            (Inl e, k) \<Rightarrow> (Inl e, k)
                          | (Inr _, k) \<Rightarrow> (Inr None, k))
                    else (Inr None, k))
          else (Inr (Some ()), k))"

definition flush_until_complete :: "'k pgconn \<Rightarrow> ('k, exn, unit) waiting" where
  "flush_until_complete pg = loop (flush_turn pg)"

definition transport_flush :: "'k pgconn \<Rightarrow> error_context \<Rightarrow> ('k, exn, unit) waiting" where
  "transport_flush pg context = wcatch (wrap_operational ''failed to flush: '' context) (flush_until_complete pg)"

text \<open>The first loop of \<open>_drain_result\<close>.\<close>

definition busy_turn :: "'k pgconn \<Rightarrow> ('k, exn, unit option) action" where
  "busy_turn pg k =
     (if pg_is_busy pg k
      then (case pg_consume_input pg (pg_wait_readable pg k) of
              (Inl e, k) \<Rightarrow> (Inl e, k)
            | (Inr _, k) \<Rightarrow> (Inr None, k))
      else (Inr (Some ()), k))"

definition is_copy_status :: "exec_status \<Rightarrow> bool" where
  "is_copy_status s = (s \<in> {COPY_IN, COPY_OUT, COPY_BOTH})"

text \<open>The second one, which keeps the last result in a local variable.\<close>

definition result_turn :: "'k pgconn \<Rightarrow> (pg_result option \<times> 'k, exn, unit option) action" where
  "result_turn pg = (\<lambda>(result, k).
     case pg_get_result pg k of
       (Inl e, k) \<Rightarrow> (Inl e, (result, k))
     | (Inr None, k) \<Rightarrow> (Inr (Some ()), (result, k))
     | (Inr (Some next_result), k) \<Rightarrow>
         if is_copy_status (res_status next_result) then (Inr (Some ()), (Some next_result, k))
         else (Inr None, (Some next_result, k)))"

definition drain_result :: "'k pgconn \<Rightarrow> ('k, exn, pg_result) waiting" where
  "drain_result pg =
     wbind (loop (busy_turn pg)) (\<lambda>_ k.
       case loop (result_turn pg) (None, k) of
         None \<Rightarrow> None
       | Some (Inl e, (_, k)) \<Rightarrow> Some (Inl e, k)
       | Some (Inr _, (None, k)) \<Rightarrow> Some (Inl AssertionError, k)
       | Some (Inr _, (Some result, k)) \<Rightarrow> Some (Inr result, k))"

definition read_turn :: "'k pgconn \<Rightarrow> error_context \<Rightarrow> ('k, exn, bytes option) action" where
  "read_turn pg context k =
     (case pg_get_copy_data pg k of
        (Inl e, k) \<Rightarrow> (Inl e, k)
      | (Inr (nbytes, data), k) \<Rightarrow>
          if 0 < nbytes then (Inr (Some data), k)
          else if nbytes = -1 then (Inl (connection_error (lit ''replication stream ended'') context), k)
          else (case pg_consume_input pg (pg_wait_readable pg k) of
                  (Inl e, k) \<Rightarrow> (Inl e, k)
                | (Inr _, k) \<Rightarrow> (Inr None, k)))"

definition read_until_complete :: "'k pgconn \<Rightarrow> error_context \<Rightarrow> ('k, exn, bytes) waiting" where
  "read_until_complete pg context = loop (read_turn pg context)"

text \<open>\<open>while put(...) == 0: await self._wait_writable()\<close>\<close>

definition put_turn :: "'k pgconn \<Rightarrow> ('k, exn, int) action \<Rightarrow> ('k, exn, unit option) action" where
  "put_turn pg put k =
     (case put k of
        (Inl e, k) \<Rightarrow> (Inl e, k)
      | (Inr n, k) \<Rightarrow> if n = 0 then (Inr None, pg_wait_writable pg k) else (Inr (Some ()), k))"


section \<open>The operations\<close>

text \<open>\<open>send_query\<close>, \<open>_flush\<close> and \<open>_drain_result\<close>, as both commands do them.\<close>

definition run_command :: "'k pgconn \<Rightarrow> error_context \<Rightarrow> bytes \<Rightarrow> ('k, exn, pg_result) waiting" where
  "run_command pg context command =
     wbind (at_once (pg_send_query pg command)) (\<lambda>_.
     wbind (transport_flush pg context) (\<lambda>_.
     drain_result pg))"

definition create_slot_command :: "'k transport \<Rightarrow> pystr" where
  "create_slot_command tr =
     lit ''CREATE_REPLICATION_SLOT '' @ tr_slot_name tr @ lit '' LOGICAL pgoutput''"

definition DUPLICATE_OBJECT_SQLSTATE :: bytes where
  "DUPLICATE_OBJECT_SQLSTATE = blit ''42710''"

definition create_slot_if_missing :: "'k pgconn \<Rightarrow> ('k transport, exn, unit) waiting" where
  "create_slot_if_missing pg tr =
     with_pgconn
       (wbind (at_once (alift (str_encode (create_slot_command tr)))) (\<lambda>command.
        wbind (run_command pg (slot_context tr) command) (\<lambda>result k.
          if res_status result = FATAL_ERROR
          then if res_sqlstate result = Some DUPLICATE_OBJECT_SQLSTATE then Some (Inr (), k)
               else Some (Inl (connection_error
                      (lit ''failed to create replication slot: '' @ utf8_replace (pg_error_message pg k))
                      (slot_context tr)), k)
          else Some (Inr (), k)))) tr"

definition start_replication_command :: "int \<Rightarrow> 'k transport \<Rightarrow> pystr" where
  "start_replication_command start_lsn tr =
     lit ''START_REPLICATION SLOT '' @ tr_slot_name tr @ lit '' LOGICAL '' @ format_lsn start_lsn
     @ lit '' (proto_version '' @ [39] @ lit ''2'' @ [39] @ lit '', publication_names '' @ [39]
     @ tr_publication_name tr @ [39] @ lit '', streaming '' @ [39] @ lit ''on'' @ [39] @ lit '')''"

definition start_context :: "int \<Rightarrow> 'k transport \<Rightarrow> error_context" where
  "start_context start_lsn tr =
     no_context\<lparr>ctx_slot := Some (tr_slot_name tr), ctx_publication := Some (tr_publication_name tr),
                ctx_lsn := Some start_lsn\<rparr>"

definition start_replication :: "'k pgconn \<Rightarrow> int \<Rightarrow> ('k transport, exn, unit) waiting" where
  "start_replication pg start_lsn tr =
     with_pgconn
       (wbind (at_once (alift (str_encode (start_replication_command start_lsn tr)))) (\<lambda>command.
        wbind (run_command pg (slot_context tr) command) (\<lambda>result k.
          if res_status result \<noteq> COPY_BOTH
          then Some (Inl (connection_error
                 (lit ''START_REPLICATION did not enter COPY BOTH mode: ''
                  @ utf8_replace (pg_error_message pg k)) (start_context start_lsn tr)), k)
          else Some (Inr (), k)))) tr"

definition transport_read :: "'k pgconn \<Rightarrow> ('k transport, exn, bytes) waiting" where
  "transport_read pg tr =
     with_pgconn
       (wcatch (wrap_operational ''error receiving copy data: '' (slot_context tr))
          (read_until_complete pg (slot_context tr))) tr"

definition put_and_flush ::
    "'k pgconn \<Rightarrow> string \<Rightarrow> ('k, exn, int) action \<Rightarrow> ('k transport, exn, unit) waiting" where
  "put_and_flush pg prefix put tr =
     with_pgconn
       (wcatch (wrap_operational prefix (slot_context tr))
          (wbind (loop (put_turn pg put)) (\<lambda>_. transport_flush pg (slot_context tr)))) tr"

definition transport_write :: "'k pgconn \<Rightarrow> bytes \<Rightarrow> ('k transport, exn, unit) waiting" where
  "transport_write pg payload = put_and_flush pg ''failed to send data: '' (pg_put_copy_data pg payload)"

definition transport_end_copy :: "'k pgconn \<Rightarrow> ('k transport, exn, unit) waiting" where
  "transport_end_copy pg = put_and_flush pg ''failed to end copy: '' (pg_put_copy_end pg)"

end
