(* ===== verification/Transport_Properties.thy ===== *)
theory Transport_Properties
  imports Transport
begin

unbundle bit_operations_syntax

text \<open>
  What the transport promises: LSNs survive their text form, a replication command is settled by the
  last result the server gives, reads return the rows of the stream in order and then its end, a write
  returns once libpq has taken the payload, and which exceptions leave which operation.
\<close>

section \<open>LSN text\<close>

lemma int_hex_hex_upper [simp]: "int_hex u (hex_upper n) = Some n"
proof (cases "0 \<le> n")
  case True
  then show ?thesis by (rule int_hex_upper)
next
  case False
  let ?ds = "radix 16 (nat \<bar>n\<bar>)"
  have small: "\<forall>d \<in> set ?ds. d < 16" using radix_digits [of 16] by auto
  have scan: "hex_scan 0 False (map digit_upper ?ds) = Some (nat \<bar>n\<bar>, [])"
    using hex_scan_upper [OF small, of 0] radix_val_radix [of 16 "nat \<bar>n\<bar>"] by (simp add: radix_val_def)
  obtain d ds where ds: "?ds = d # ds" by (cases ?ds) auto
  have ascii: "to_ascii_digits u (45 # map digit_upper ?ds) = 45 # map digit_upper ?ds"
    using skip_upper(4) [OF small, of u] small by (auto simp: to_ascii_digits_def list_all_iff digit_upper_facts)
  from ds small have "d < 16" by simp
  with scan ds False ascii skip_upper(3) [OF small] show ?thesis
    by (simp add: int_hex_def hex_upper_def skip_sign_def c_space_def)
qed

lemma slash_not_in_hex: "47 \<notin> set (hex_upper n)"
proof -
  have "\<And>d. d \<in> set (radix 16 (nat \<bar>n\<bar>)) \<Longrightarrow> d < 16" using radix_digits [of 16] by auto
  then show ?thesis by (force simp: hex_upper_def dest: digit_upper_facts(2))
qed

lemma split_slash_no: "47 \<notin> set s \<Longrightarrow> split_slash s = [s]"
  by (induction s) auto

lemma split_slash_one: "47 \<notin> set s \<Longrightarrow> split_slash (s @ 47 # t) = s # split_slash t"
  by (induction s) auto

lemma lsn_halves: "push_bit 32 (drop_bit 32 n) OR (n AND 0xFFFFFFFF) = (n :: int)"
proof -
  have low: "n AND 0xFFFFFFFF = take_bit 32 n"
    by (simp add: take_bit_eq_mask mask_eq_exp_minus_1)
  show ?thesis
    unfolding low
  proof (rule bit_eqI)
    fix i
    show "bit (push_bit 32 (drop_bit 32 n) OR take_bit 32 n) i = bit n i"
      by (cases "i < 32") (auto simp: bit_or_iff bit_push_bit_iff bit_drop_bit_eq bit_take_bit_iff)
  qed
qed

text \<open>A 64-bit LSN has at most eight digits on each side.\<close>

lemma length_hex_upper: "0 \<le> n \<Longrightarrow> n < 16 ^ k \<Longrightarrow> 0 < k \<Longrightarrow> length (hex_upper n) \<le> k"
  by (simp add: hex_upper_def) (intro length_radix, auto simp: nat_less_iff)

lemma parse_format_lsn: "parse_lsn u (format_lsn n) = Inr n"
proof -
  have "split_slash (format_lsn n) = [hex_upper (drop_bit 32 n), hex_upper (n AND 0xFFFFFFFF)]"
    by (simp add: format_lsn_def split_slash_one split_slash_no slash_not_in_hex)
  then show ?thesis by (simp add: parse_lsn_def lsn_halves)
qed

text \<open>The text form of an LSN reads back as the LSN, for every integer, negative ones
  included; a 64-bit LSN is written as two groups of one to eight hexadecimal digits.\<close>

lemma lsn_text_roundtrip:
  "parse_lsn u (format_lsn n) = Inr n
   \<and> (0 \<le> n \<and> n < 2 ^ 64 \<longrightarrow>
        (\<exists>high low. format_lsn n = high @ lit ''/'' @ low \<and> length high \<in> {1..8} \<and> length low \<in> {1..8}))"
proof
  show "parse_lsn u (format_lsn n) = Inr n" by (rule parse_format_lsn)
  show "0 \<le> n \<and> n < 2 ^ 64 \<longrightarrow>
        (\<exists>high low. format_lsn n = high @ lit ''/'' @ low \<and> length high \<in> {1..8} \<and> length low \<in> {1..8})"
  proof
    assume n: "0 \<le> n \<and> n < 2 ^ 64"
    have "drop_bit 32 n < 16 ^ 8" "0 \<le> drop_bit 32 n"
      using n by (auto simp: drop_bit_eq_div)
    moreover have "n AND 0xFFFFFFFF < 16 ^ 8" "0 \<le> n AND 0xFFFFFFFF"
      using AND_upper2 [of "0xFFFFFFFF" n] by auto
    moreover have "hex_upper m \<noteq> []" for m by (simp add: hex_upper_def)
    ultimately have "length (hex_upper (drop_bit 32 n)) \<in> {1..8}"
      "length (hex_upper (n AND 0xFFFFFFFF)) \<in> {1..8}"
      using length_hex_upper [of _ 8] by (simp_all add: Suc_le_eq)
    then show "\<exists>high low. format_lsn n = high @ lit ''/'' @ low \<and> length high \<in> {1..8} \<and> length low \<in> {1..8}"
      unfolding format_lsn_def by blast
  qed
qed

lemma lsn_text_roundtrip_example:
  "\<forall>u. format_lsn 0x16B374D848 = lit ''16/B374D848'' \<and> parse_lsn u (lit ''16/B374D848'') = Inr 0x16B374D848
   \<and> (\<exists>high low. format_lsn 0x16B374D848 = high @ lit ''/'' @ low \<and> length high \<in> {1..8} \<and> length low \<in> {1..8})"
  (is "\<forall>u. ?P u")
proof
  fix u
  have "drop_bit 32 (0x16B374D848 :: int) = 22" "(0x16B374D848 :: int) AND 0xFFFFFFFF = 0xB374D848"
    by (simp_all add: drop_bit_eq_div)
  then have "format_lsn 0x16B374D848 = lit ''16/B374D848''"
    by (simp add: format_lsn_def hex_upper_def radix.simps digit_upper_def)
  with lsn_text_roundtrip [of u "0x16B374D848"] show "?P u" by simp
qed


section \<open>A command and its results\<close>

text \<open>
  What libpq hands out for a command: results up to the end, or up to the first COPY result, after
  which \<open>get_result\<close> would go on for ever.
\<close>

inductive yields :: "'k pgconn \<Rightarrow> 'k \<Rightarrow> pg_result list \<Rightarrow> 'k \<Rightarrow> bool" for pg where
  yields_end: "pg_get_result pg k = (Inr None, k') \<Longrightarrow> yields pg k [] k'"
| yields_copy: "pg_get_result pg k = (Inr (Some r), k') \<Longrightarrow> is_copy_status (res_status r) \<Longrightarrow> yields pg k [r] k'"
| yields_more: "pg_get_result pg k = (Inr (Some r), k1) \<Longrightarrow> \<not> is_copy_status (res_status r) \<Longrightarrow>
    yields pg k1 rs k' \<Longrightarrow> yields pg k (r # rs) k'"

inductive_cases yields_NilE: "yields pg k [] k'"

text \<open>The connection takes a command, sends it and answers with these results.\<close>

definition answers :: "'k pgconn \<Rightarrow> bytes \<Rightarrow> 'k \<Rightarrow> pg_result list \<Rightarrow> 'k \<Rightarrow> bool" where
  "answers pg command k rs k' =
     (\<exists>k1 k2 k3. pg_send_query pg command k = (Inr (), k1) \<and> settles (flush_turn pg) k1 (Inr (), k2)
        \<and> settles (busy_turn pg) k2 (Inr (), k3) \<and> yields pg k3 rs k')"

lemma collect_yields:
  "yields pg k rs k' \<Longrightarrow>
   loop (result_turn pg) (result, k) = Some (Inr (), (if rs = [] then result else Some (last rs), k'))"
  by (induction arbitrary: result rule: yields.induct) (simp_all add: result_turn_def)

lemma run_command_answers:
  assumes "answers pg command k rs k'" and "rs \<noteq> []"
  shows "run_command pg context command k = Some (Inr (last rs), k')"
proof -
  from assms obtain k1 k2 k3 where
    "pg_send_query pg command k = (Inr (), k1)" "loop (flush_turn pg) k1 = Some (Inr (), k2)"
    "loop (busy_turn pg) k2 = Some (Inr (), k3)" "yields pg k3 rs k'"
    by (auto simp: answers_def loop_iff)
  with assms(2) collect_yields [of pg k3 rs k' None] show ?thesis
    by (simp add: run_command_def transport_flush_def flush_until_complete_def drain_result_def
        wrap_operational_def)
qed



section \<open>A small peer\<close>

text \<open>
  An instance of the connection: a peer that does not read what it is sent while something it sent
  itself is unread, whose \<open>get_result\<close> repeats a COPY result for ever, and which may fail.
\<close>

record peer =
  pr_unsent :: nat
  pr_taken :: "bytes list"
  pr_arriving :: "bytes list list"
  pr_rows :: "bytes list"
  pr_results :: "pg_result list"
  pr_busy :: nat
  pr_failure :: "pystr option"

definition peer_fails :: "peer \<Rightarrow> 'a \<Rightarrow> peer \<Rightarrow> (exn + 'a) \<times> peer" where
  "peer_fails k x k' = (case pr_failure k of Some m \<Rightarrow> (Inl (OperationalError m), k) | None \<Rightarrow> (Inr x, k'))"

definition peer_receive :: "peer \<Rightarrow> peer" where
  "peer_receive k =
     k\<lparr>pr_arriving := tl (pr_arriving k), pr_busy := pr_busy k - 1,
       pr_rows := pr_rows k @ (case pr_arriving k of [] \<Rightarrow> [] | rows # _ \<Rightarrow> rows)\<rparr>"

definition peer_take :: "bytes option \<Rightarrow> (peer, exn, int) action" where
  "peer_take payload k =
     (if 2 \<le> pr_unsent k then (Inr 0, k)
      else peer_fails k 1 (k\<lparr>pr_unsent := pr_unsent k + 1,
             pr_taken := pr_taken k @ (case payload of None \<Rightarrow> [] | Some p \<Rightarrow> [p])\<rparr>))"

definition peer_pgconn :: "peer pgconn" where
  "peer_pgconn =
     \<lparr>pg_send_query = (\<lambda>q k. (Inr (), k\<lparr>pr_unsent := pr_unsent k + 1\<rparr>)),
      pg_flush = (\<lambda>k. (Inr (if pr_unsent k = 0 then 0 else 1), k)),
      pg_consume_input = (\<lambda>k. peer_fails k () (peer_receive k)),
      pg_is_busy = (\<lambda>k. 0 < pr_busy k),
      pg_get_result = (\<lambda>k. (Inr (case pr_results k of [] \<Rightarrow> None | r # _ \<Rightarrow> Some r),
         case pr_results k of [] \<Rightarrow> k
         | r # rs \<Rightarrow> if is_copy_status (res_status r) then k else k\<lparr>pr_results := rs\<rparr>)),
      pg_get_copy_data = (\<lambda>k. case pr_rows k of
           [] \<Rightarrow> (Inr (if pr_arriving k = [] then -1 else 0, []), k)
         | row # rows \<Rightarrow> (Inr (int (length row), row), k\<lparr>pr_rows := rows\<rparr>)),
      pg_put_copy_data = (\<lambda>payload. peer_take (Some payload)),
      pg_put_copy_end = peer_take None,
      pg_error_message = (\<lambda>k. blit ''slot missing''),
      pg_finish = (\<lambda>k. k),
      pg_wait_readable = (\<lambda>k. k),
      pg_wait_writable = (\<lambda>k. k\<lparr>pr_unsent := pr_unsent k - 1\<rparr>),
      pg_wait_either = (\<lambda>k. if pr_arriving k = [] then (False, k\<lparr>pr_unsent := pr_unsent k - 1\<rparr>) else (True, k))\<rparr>"

definition peer_with :: "bytes list list \<Rightarrow> pg_result list \<Rightarrow> peer" where
  "peer_with arriving results =
     \<lparr>pr_unsent = 0, pr_taken = [], pr_arriving = arriving, pr_rows = [], pr_results = results,
      pr_busy = 2, pr_failure = None\<rparr>"

definition peer_transport :: "peer \<Rightarrow> peer transport" where
  "peer_transport k =
     \<lparr>tr_dsn = lit ''host=db'', tr_slot_name = lit ''s'', tr_publication_name = lit ''p'', tr_conn = Some k\<rparr>"

lemmas peer_simps = peer_pgconn_def peer_with_def peer_transport_def peer_fails_def peer_receive_def peer_take_def

text \<open>The peer drops what it was sent only after everything it has to say was read.\<close>

lemma peer_answers:
  "answers peer_pgconn command (peer_with [[]] [r])
     [r] ((peer_with [] (if is_copy_status (res_status r) then [r] else []))\<lparr>pr_busy := 0\<rparr>)"
proof -
  let ?k = "\<lambda>u a b. \<lparr>pr_unsent = u, pr_taken = [], pr_arriving = a, pr_rows = [], pr_results = [r],
      pr_busy = b, pr_failure = None\<rparr>"
  have "settles (flush_turn peer_pgconn) (?k 1 [[]] 2) (Inr (), ?k 0 [] 1)"
    unfolding loop_iff [symmetric] by (simp add: loop.simps flush_turn_def peer_simps)
  moreover have "settles (busy_turn peer_pgconn) (?k 0 [] 1) (Inr (), ?k 0 [] 0)"
    unfolding loop_iff [symmetric] by (simp add: loop.simps busy_turn_def peer_simps)
  moreover have "yields peer_pgconn (?k 0 [] 0) [r]
      ((peer_with [] (if is_copy_status (res_status r) then [r] else []))\<lparr>pr_busy := 0\<rparr>)"
  proof (cases "is_copy_status (res_status r)")
    case True
    then show ?thesis by (intro yields_copy) (simp_all add: peer_simps)
  next
    case False
    then show ?thesis
      by (auto simp: peer_simps intro!: yields_more [of _ _ _ "(?k 0 [] 0)\<lparr>pr_results := []\<rparr>"] yields_end)
  qed
  ultimately show ?thesis
    unfolding answers_def by (auto simp: peer_simps intro!: exI)
qed



section \<open>Reading the stream\<close>

datatype stream_end = Ended | Broken pystr

text \<open>
  What the connection brings: rows, with waits in between, until the stream ends or breaks.
\<close>

inductive streams :: "'k pgconn \<Rightarrow> 'k \<Rightarrow> bytes list \<Rightarrow> stream_end \<Rightarrow> 'k \<Rightarrow> bool" for pg where
  streams_row: "pg_get_copy_data pg k = (Inr (n, row), k1) \<Longrightarrow> 0 < n \<Longrightarrow> streams pg k1 rows e k' \<Longrightarrow>
    streams pg k (row # rows) e k'"
| streams_wait: "pg_get_copy_data pg k = (Inr (0, d), k1) \<Longrightarrow>
    pg_consume_input pg (pg_wait_readable pg k1) = (Inr (), k2) \<Longrightarrow> streams pg k2 rows e k' \<Longrightarrow>
    streams pg k rows e k'"
| streams_end: "pg_get_copy_data pg k = (Inr (-1, d), k') \<Longrightarrow> streams pg k [] Ended k'"
| streams_broken: "pg_get_copy_data pg k = (Inl (OperationalError m), k') \<Longrightarrow> streams pg k [] (Broken m) k'"
| streams_lost: "pg_get_copy_data pg k = (Inr (0, d), k1) \<Longrightarrow>
    pg_consume_input pg (pg_wait_readable pg k1) = (Inl (OperationalError m), k') \<Longrightarrow>
    streams pg k [] (Broken m) k'"

text \<open>Calls of \<open>read\<close> one after the other, each result kept.\<close>

primrec reads :: "'k pgconn \<Rightarrow> nat \<Rightarrow> 'k transport \<Rightarrow> ((exn + bytes) list \<times> 'k transport) option" where
  "reads pg 0 tr = Some ([], tr)"
| "reads pg (Suc n) tr =
     (case transport_read pg tr of
        None \<Rightarrow> None
      | Some (r, tr) \<Rightarrow> map_option (\<lambda>(rs, tr). (r # rs, tr)) (reads pg n tr))"

fun end_error :: "'k transport \<Rightarrow> stream_end \<Rightarrow> exn" where
  "end_error tr Ended = connection_error (lit ''replication stream ended'') (slot_context tr)"
| "end_error tr (Broken m) = connection_error (lit ''error receiving copy data: '' @ m) (slot_context tr)"

lemma slot_context_conn [simp]: "slot_context (tr\<lparr>tr_conn := c\<rparr>) = slot_context tr"
  by (simp add: slot_context_def)

lemma end_error_conn [simp]: "end_error (tr\<lparr>tr_conn := c\<rparr>) e = end_error tr e"
  by (cases e) simp_all

lemmas read_simps = transport_read_def with_pgconn_def read_until_complete_def read_turn_def wrap_operational_def

text \<open>One read: the first row, or the end.\<close>

lemma read_streams:
  assumes "streams pg k rows e k'" and "tr_conn tr = Some k"
  shows "case rows of
           [] \<Rightarrow> transport_read pg tr = Some (Inl (end_error tr e), tr\<lparr>tr_conn := Some k'\<rparr>)
         | row # rest \<Rightarrow> \<exists>k1. transport_read pg tr = Some (Inr row, tr\<lparr>tr_conn := Some k1\<rparr>) \<and> streams pg k1 rest e k'"
  using assms
proof (induction arbitrary: tr rule: streams.induct)
  case (streams_wait k d k1 k2 rows e k')
  have go: "transport_read pg tr = transport_read pg (tr\<lparr>tr_conn := Some k2\<rparr>)"
    using streams_wait.hyps streams_wait.prems
    by (simp add: read_simps wcatch_def option.map_comp split_def comp_def)
  from streams_wait.IH [of "tr\<lparr>tr_conn := Some k2\<rparr>"] show ?case
    by (simp add: go split: list.splits)
qed (auto simp: read_simps connection_error_def)

text \<open>C37: whatever the connection brings, the calls of \<open>read\<close> return: first its rows, in order,
  none lost, repeated or cut, and the next one raises a connection error with the slot that says
  whether the stream ended or broke.\<close>

theorem reads_deliver_the_stream:
  assumes "tr_conn tr = Some k" and "streams pg k rows e k'"
  shows "reads pg (length rows + 1) tr = Some (map Inr rows @ [Inl (end_error tr e)], tr\<lparr>tr_conn := Some k'\<rparr>)"
  using assms
proof (induction rows arbitrary: tr k)
  case Nil
  then show ?case using read_streams [OF Nil(2,1)] by simp
next
  case (Cons row rows)
  from read_streams [OF Cons.prems(2,1)] obtain k1 where
    k1: "transport_read pg tr = Some (Inr row, tr\<lparr>tr_conn := Some k1\<rparr>)" "streams pg k1 rows e k'"
    by auto
  from Cons.IH [OF _ k1(2), of "tr\<lparr>tr_conn := Some k1\<rparr>"] k1(1) show ?case by simp
qed

theorem reads_deliver_the_stream_witness:
  "reads peer_pgconn 3 (peer_transport (peer_with [[[119, 1], [119, 2]], []] []))
   = Some ([Inr [119, 1], Inr [119, 2],
            Inl (connection_error (lit ''replication stream ended'') (no_context\<lparr>ctx_slot := Some (lit ''s'')\<rparr>))],
           peer_transport ((peer_with [] [])\<lparr>pr_busy := 0\<rparr>))"
proof -
  let ?k = "\<lambda>rows arriving busy. \<lparr>pr_unsent = 0, pr_taken = [], pr_arriving = arriving, pr_rows = rows,
      pr_results = [], pr_busy = busy, pr_failure = None\<rparr>"
  have "streams peer_pgconn (?k [] [] 0) [] Ended (?k [] [] 0)"
    by (rule streams_end [where d = "[]"]) (simp add: peer_simps)
  then have "streams peer_pgconn (?k [] [[]] 1) [] Ended (?k [] [] 0)"
    by (rule streams_wait [of _ _ "[]" "?k [] [[]] 1", rotated 2]) (simp_all add: peer_simps)
  then have "streams peer_pgconn (?k [[119, 2]] [[]] 1) [[119, 2]] Ended (?k [] [] 0)"
    by (rule streams_row [rotated 2, where n = 2]) (simp_all add: peer_simps)
  then have "streams peer_pgconn (?k [[119, 1], [119, 2]] [[]] 1) [[119, 1], [119, 2]] Ended (?k [] [] 0)"
    by (rule streams_row [rotated 2, where n = 2]) (simp_all add: peer_simps)
  then have "streams peer_pgconn (?k [] [[[119, 1], [119, 2]], []] 2) [[119, 1], [119, 2]] Ended (?k [] [] 0)"
    by (rule streams_wait [of _ _ "[]" "?k [] [[[119, 1], [119, 2]], []] 2", rotated 2]) (simp_all add: peer_simps)
  from reads_deliver_the_stream [OF _ this, of "peer_transport (peer_with [[[119, 1], [119, 2]], []] [])"] show ?thesis
    by (simp add: peer_simps slot_context_def numeral_3_eq_3)
qed



section \<open>What libpq promises\<close>

text \<open>
  The documented contract of psycopg's \<open>pgconn\<close>: a failing call raises \<open>OperationalError\<close>;
  \<open>put_copy_data\<close> either takes the payload whole (a result other than 0), or leaves it; waiting and
  flushing take nothing. \<open>rank\<close> bounds the progress still to be made: every wait that the loops of
  the source do while there is something to send lowers it.
\<close>

fun is_operational_error :: "exn \<Rightarrow> bool" where
  "is_operational_error (OperationalError _) = True"
| "is_operational_error _ = False"

locale libpq =
  fixes pg :: "'k pgconn"
    and rank :: "'k \<Rightarrow> nat"
    and taken :: "'k \<Rightarrow> bytes list"
  assumes send_raises: "pg_send_query pg q k = (Inl e, k') \<Longrightarrow> is_operational_error e"
    and flush_raises: "pg_flush pg k = (Inl e, k') \<Longrightarrow> is_operational_error e"
    and consume_raises: "pg_consume_input pg k = (Inl e, k') \<Longrightarrow> is_operational_error e"
    and result_raises: "pg_get_result pg k = (Inl e, k') \<Longrightarrow> is_operational_error e"
    and copy_raises: "pg_get_copy_data pg k = (Inl e, k') \<Longrightarrow> is_operational_error e"
    and put_raises: "pg_put_copy_data pg p k = (Inl e, k') \<Longrightarrow> is_operational_error e \<and> taken k' = taken k"
    and end_raises: "pg_put_copy_end pg k = (Inl e, k') \<Longrightarrow> is_operational_error e"
    and put_takes: "pg_put_copy_data pg p k = (Inr n, k') \<Longrightarrow> taken k' = (if n = 0 then taken k else taken k @ [p])"
    and writable_takes: "taken (pg_wait_writable pg k) = taken k"
    and flush_takes: "pg_flush pg k = (r, k') \<Longrightarrow> taken k' = taken k"
    and either_takes: "pg_wait_either pg k = (readable, k') \<Longrightarrow> taken k' = taken k"
    and consume_takes: "pg_consume_input pg k = (r', k') \<Longrightarrow> taken k' = taken k"
    and put_progress: "pg_put_copy_data pg p k = (Inr 0, k') \<Longrightarrow> rank (pg_wait_writable pg k') < rank k"
    and end_progress: "pg_put_copy_end pg k = (Inr 0, k') \<Longrightarrow> rank (pg_wait_writable pg k') < rank k"
    and flush_progress_writable:
      "pg_flush pg k = (Inr 1, k1) \<Longrightarrow> pg_wait_either pg k1 = (False, k') \<Longrightarrow> rank k' < rank k"
    and flush_progress_readable:
      "pg_flush pg k = (Inr 1, k1) \<Longrightarrow> pg_wait_either pg k1 = (True, k2) \<Longrightarrow>
       pg_consume_input pg k2 = (Inr (), k') \<Longrightarrow> rank k' < rank k"
begin

lemma flush_turn_takes: "flush_turn pg k = (r, k') \<Longrightarrow> taken k' = taken k"
  by (auto simp: flush_turn_def split: prod.splits sum.splits if_splits
      dest!: flush_takes either_takes consume_takes)

lemma flush_turn_raises: "flush_turn pg k = (Inl e, k') \<Longrightarrow> is_operational_error e"
  by (auto simp: flush_turn_def split: prod.splits sum.splits if_splits
      dest: flush_raises consume_raises)

lemma flush_turn_progress: "flush_turn pg k = (Inr None, k') \<Longrightarrow> rank k' < rank k"
  by (auto simp: flush_turn_def split: prod.splits sum.splits if_splits
      dest: flush_progress_writable flush_progress_readable)

lemma flush_returns: "\<exists>r k'. flush_until_complete pg k = Some (r, k')"
  using loop_returns [of "\<lambda>_. True" k "flush_turn pg" rank]
  by (auto simp: flush_until_complete_def dest: flush_turn_progress)

lemma flush_result:
  assumes "flush_until_complete pg k = Some (r, k')"
  shows "taken k' = taken k \<and> (\<forall>e. r = Inl e \<longrightarrow> is_operational_error e)"
  by (rule loop_result [where keeps = "\<lambda>s. taken s = taken k"
        and post = "\<lambda>r s. taken s = taken k \<and> (\<forall>e. r = Inl e \<longrightarrow> is_operational_error e)",
        OF assms [unfolded flush_until_complete_def]])
    (auto dest: flush_turn_takes flush_turn_raises)

lemma put_turn_progress: "put_turn pg (pg_put_copy_data pg p) k = (Inr None, k') \<Longrightarrow> rank k' < rank k"
  by (auto simp: put_turn_def split: prod.splits sum.splits if_splits dest: put_progress)

lemma put_returns: "\<exists>r k'. loop (put_turn pg (pg_put_copy_data pg p)) k = Some (r, k')"
  using loop_returns [of "\<lambda>_. True" k "put_turn pg (pg_put_copy_data pg p)" rank]
  by (auto dest: put_turn_progress)

lemma put_result:
  assumes "loop (put_turn pg (pg_put_copy_data pg p)) k = Some (r, k')"
  shows "(r = Inr () \<and> taken k' = taken k @ [p])
       \<or> (\<exists>e. r = Inl e \<and> is_operational_error e \<and> taken k' = taken k)"
  by (rule loop_result [where keeps = "\<lambda>s. taken s = taken k", OF assms])
    (auto simp: put_turn_def writable_takes split: prod.splits sum.splits if_splits
      dest: put_raises put_takes)

lemma end_turn_progress: "put_turn pg (pg_put_copy_end pg) k = (Inr None, k') \<Longrightarrow> rank k' < rank k"
  by (auto simp: put_turn_def split: prod.splits sum.splits if_splits dest: end_progress)

lemma end_returns: "\<exists>r k'. loop (put_turn pg (pg_put_copy_end pg)) k = Some (r, k')"
  using loop_returns [of "\<lambda>_. True" k "put_turn pg (pg_put_copy_end pg)" rank]
  by (auto dest: end_turn_progress)

lemma end_result:
  assumes "loop (put_turn pg (pg_put_copy_end pg)) k = Some (r, k')"
  shows "\<forall>e. r = Inl e \<longrightarrow> is_operational_error e"
  by (rule loop_result [where keeps = "\<lambda>_. True", OF assms])
    (auto simp: put_turn_def split: prod.splits sum.splits if_splits dest: end_raises)

lemma read_result:
  assumes "read_until_complete pg context k = Some (Inl e, k')"
  shows "is_operational_error e \<or> e = connection_error (lit ''replication stream ended'') context"
proof -
  have "\<forall>e'. (Inl e :: exn + bytes) = Inl e' \<longrightarrow>
      is_operational_error e' \<or> e' = connection_error (lit ''replication stream ended'') context"
    by (rule loop_result [where keeps = "\<lambda>_. True" and turn = "read_turn pg context"])
      (use assms in \<open>auto simp: read_until_complete_def read_turn_def split: prod.splits sum.splits if_splits
        dest: copy_raises consume_raises\<close>)
  then show ?thesis by simp
qed

lemma drain_result_raises:
  assumes "drain_result pg k = Some (Inl e, k')"
  shows "is_operational_error e \<or> e = AssertionError"
proof -
  have busy: "is_operational_error e" if "loop (busy_turn pg) k = Some (Inl e, k')" for e k'
  proof -
    have "\<forall>e'. (Inl e :: exn + unit) = Inl e' \<longrightarrow> is_operational_error e'"
      by (rule loop_result [where keeps = "\<lambda>_. True", OF that])
        (auto simp: busy_turn_def split: prod.splits sum.splits if_splits dest: consume_raises)
    then show ?thesis by simp
  qed
  have results: "is_operational_error e" if "loop (result_turn pg) s = Some (Inl e, s')" for e s s'
  proof -
    have "\<forall>e'. (Inl e :: exn + unit) = Inl e' \<longrightarrow> is_operational_error e'"
      by (rule loop_result [where keeps = "\<lambda>_. True", OF that])
        (auto simp: result_turn_def split: prod.splits sum.splits option.splits if_splits dest: result_raises)
    then show ?thesis by simp
  qed
  show ?thesis
    using assms
    by (auto simp: drain_result_def wbind_def split: prod.splits sum.splits option.splits
        dest: busy results)
qed

end


interpretation peer_libpq: libpq peer_pgconn "\<lambda>k. pr_unsent k + length (pr_arriving k)" pr_taken
proof unfold_locales
  fix k k1 k2 k' :: peer
  assume "pg_flush peer_pgconn k = (Inr 1, k1)" "pg_wait_either peer_pgconn k1 = (True, k2)"
    "pg_consume_input peer_pgconn k2 = (Inr (), k')"
  then show "pr_unsent k' + length (pr_arriving k') < pr_unsent k + length (pr_arriving k)"
    by (auto simp: peer_simps split: if_splits option.splits)
qed (auto simp: peer_simps split: if_splits option.splits list.splits)


section \<open>Writing, and the exceptions of every operation\<close>

lemma wrap_operational_simps [simp]:
  "wrap_operational prefix context (Inr x) = Inr x"
  "wrap_operational prefix context (Inl (connection_error m c)) = Inl (connection_error m c)"
  "wrap_operational prefix context (Inl AssertionError) = Inl AssertionError"
  by (simp_all add: wrap_operational_def connection_error_def)

lemma wrap_operational_error:
  "is_operational_error e \<Longrightarrow> \<exists>m. wrap_operational prefix context (Inl e) = Inl (connection_error m context)"
  by (cases e) (auto simp: wrap_operational_def)

lemma wrap_operational_raises:
  "wrap_operational prefix context (Inl e) = Inl e' \<Longrightarrow> is_operational_error e \<Longrightarrow>
   \<exists>m. e' = connection_error m context"
  by (cases e) (auto simp: wrap_operational_def)

context libpq
begin

lemma transport_flush_result:
  assumes "transport_flush pg context k = Some (r, k')"
  shows "taken k' = taken k \<and> (\<forall>e. r = Inl e \<longrightarrow> (\<exists>m. e = connection_error m context))"
proof -
  from assms obtain r' where r': "flush_until_complete pg k = Some (r', k')"
    "r = wrap_operational ''failed to flush: '' context r'"
    by (auto simp: transport_flush_def wcatch_eq_Some)
  with flush_result [OF r'(1)] show ?thesis
    by (cases r') (auto dest: wrap_operational_raises)
qed

lemma put_and_flush_returns:
  assumes "tr_conn tr = Some k" and "\<exists>r k'. loop (put_turn pg put) k = Some (r, k')"
  shows "\<exists>r k'. put_and_flush pg prefix put tr = Some (r, tr\<lparr>tr_conn := Some k'\<rparr>)"
proof -
  from assms(2) obtain r k1 where put: "loop (put_turn pg put) k = Some (r, k1)" by blast
  obtain r2 k2 where "flush_until_complete pg k1 = Some (r2, k2)" using flush_returns by blast
  with put assms(1) show ?thesis
    by (cases r) (auto simp: put_and_flush_def with_pgconn_def transport_flush_def)
qed

lemma put_and_flush_result:
  assumes "tr_conn tr = Some k" and "put_and_flush pg prefix put tr = Some (r, tr\<lparr>tr_conn := Some k'\<rparr>)"
    and "\<And>r k'. loop (put_turn pg put) k = Some (r, k') \<Longrightarrow> post r k'"
    and "\<And>e k'. post (Inl e) k' \<Longrightarrow> is_operational_error e"
  shows "\<exists>k1 r'. post r' k1 \<and> taken k' = taken k1
      \<and> (case r of Inr _ \<Rightarrow> r' = Inr () | Inl e \<Rightarrow> \<exists>m. e = connection_error m (slot_context tr))"
proof -
  from assms(1,2) obtain r0 where run:
    "wbind (loop (put_turn pg put)) (\<lambda>_. transport_flush pg (slot_context tr)) k = Some (r0, k')"
    "r = wrap_operational prefix (slot_context tr) r0"
    by (auto simp: put_and_flush_def with_pgconn_def wcatch_eq_Some dest: arg_cong [where f = tr_conn])
  from run(1) consider
    (failed) e where "loop (put_turn pg put) k = Some (Inl e, k')" "r0 = Inl e"
  | (flushed) u k1 where "loop (put_turn pg put) k = Some (Inr u, k1)"
      "transport_flush pg (slot_context tr) k1 = Some (r0, k')"
    by (auto simp: wbind_eq_Some)
  then show ?thesis
  proof cases
    case failed
    then have post: "post (Inl e) k'" by (auto intro: assms(3))
    then obtain m where "r = Inl (connection_error m (slot_context tr))"
      using wrap_operational_error [OF assms(4)] run(2) failed(2) by blast
    with post show ?thesis by (intro exI [of _ k'] exI [of _ "Inl e"]) auto
  next
    case flushed
    from assms(3) [OF flushed(1)] have "post (Inr ()) k1" by simp
    moreover have "case r of Inr _ \<Rightarrow> True | Inl e \<Rightarrow> \<exists>m. e = connection_error m (slot_context tr)"
      using transport_flush_result [OF flushed(2)] run(2) by (cases r0) auto
    moreover have "taken k' = taken k1" using transport_flush_result [OF flushed(2)] by simp
    ultimately show ?thesis
      by (intro exI [of _ k1] exI [of _ "Inr ()"]) (simp split: sum.splits)
  qed
qed

lemma run_command_raises:
  assumes "run_command pg context command k = Some (Inl e, k')"
  shows "is_operational_error e \<or> e = AssertionError \<or> (\<exists>m. e = connection_error m context)"
  using assms
  by (auto simp: run_command_def wbind_eq_Some dest: send_raises drain_result_raises transport_flush_result)

end

text \<open>C38: on an open connection \<open>write\<close> always returns. If it returns normally libpq has taken the
  payload exactly once; if it raises, it is a connection error with the slot, and the payload was taken
  at most once; nothing else is sent either way.\<close>

theorem write_takes_the_payload_once:
  assumes "libpq pg rank taken" and "tr_conn tr = Some k"
  shows "\<exists>r k'. transport_write pg payload tr = Some (r, tr\<lparr>tr_conn := Some k'\<rparr>)
    \<and> (case r of
         Inr _ \<Rightarrow> taken k' = taken k @ [payload]
       | Inl e \<Rightarrow> (\<exists>m. e = connection_error m (slot_context tr)) \<and> taken k' \<in> {taken k, taken k @ [payload]})"
proof -
  let ?post = "\<lambda>r k'. (r = Inr () \<and> taken k' = taken k @ [payload])
      \<or> (\<exists>e. r = Inl e \<and> is_operational_error e \<and> taken k' = taken k)"
  obtain r k' where run: "transport_write pg payload tr = Some (r, tr\<lparr>tr_conn := Some k'\<rparr>)"
    using libpq.put_and_flush_returns [OF assms libpq.put_returns [OF assms(1)]]
    unfolding transport_write_def by blast
  have "\<exists>k1 r'. ?post r' k1 \<and> taken k' = taken k1
      \<and> (case r of Inr _ \<Rightarrow> r' = Inr () | Inl e \<Rightarrow> \<exists>m. e = connection_error m (slot_context tr))"
    by (rule libpq.put_and_flush_result [OF assms run [unfolded transport_write_def]])
      (use libpq.put_result [OF assms(1)] in blast, auto)
  then have "case r of
         Inr _ \<Rightarrow> taken k' = taken k @ [payload]
       | Inl e \<Rightarrow> (\<exists>m. e = connection_error m (slot_context tr)) \<and> taken k' \<in> {taken k, taken k @ [payload]}"
    by (cases r) auto
  with run show ?thesis by blast
qed

theorem write_takes_the_payload_once_witness:
  "let k = (peer_with [[], []] [])\<lparr>pr_unsent := 3\<rparr>; tr = peer_transport k
   in \<exists>r k'. transport_write peer_pgconn [114] tr = Some (r, tr\<lparr>tr_conn := Some k'\<rparr>)
    \<and> (case r of
         Inr _ \<Rightarrow> pr_taken k' = pr_taken k @ [[114]]
       | Inl e \<Rightarrow> (\<exists>m. e = connection_error m (slot_context tr)) \<and> pr_taken k' \<in> {pr_taken k, pr_taken k @ [[114]]})"
  unfolding Let_def
  by (rule write_takes_the_payload_once [OF peer_libpq.libpq_axioms]) (simp add: peer_transport_def)

text \<open>The two commands send and drain outside any \<open>except\<close> clause. A connection that breaks
  while a result is awaited makes them raise psycopg's own \<open>OperationalError\<close>, which is not a
  \<open>ReplicationConnectionError\<close>, although both document that class and \<open>run\<close> retries on it
  only; the same break under \<open>read\<close> is a \<open>ReplicationConnectionError\<close>.\<close>

lemma command_errors_are_not_wrapped:
  "\<exists>k. pr_failure k = Some m
     \<and> create_slot_if_missing peer_pgconn (peer_transport k) = Some (Inl (OperationalError m), peer_transport k\<lparr>tr_conn := Some (k\<lparr>pr_unsent := 0\<rparr>)\<rparr>)
     \<and> start_replication peer_pgconn 0 (peer_transport k) = Some (Inl (OperationalError m), peer_transport k\<lparr>tr_conn := Some (k\<lparr>pr_unsent := 0\<rparr>)\<rparr>)
     \<and> (\<exists>tr'. transport_read peer_pgconn (peer_transport (k\<lparr>pr_arriving := [[]]\<rparr>))
          = Some (Inl (connection_error (lit ''error receiving copy data: '' @ m) (no_context\<lparr>ctx_slot := Some (lit ''s'')\<rparr>)), tr'))
     \<and> \<not> is_connection_error (OperationalError m)"
proof -
  let ?k = "(peer_with [] [])\<lparr>pr_failure := Some m\<rparr>"
  have "list_all is_scalar (create_slot_command (peer_transport ?k))"
    "list_all is_scalar (start_replication_command 0 (peer_transport ?k))"
    by (simp_all add: start_replication_command_def create_slot_command_def peer_transport_def
        format_lsn_def hex_upper_def radix.simps digit_upper_def is_scalar_def)
  then have "create_slot_if_missing peer_pgconn (peer_transport ?k)
      = Some (Inl (OperationalError m), peer_transport ?k\<lparr>tr_conn := Some ?k\<rparr>)"
    "start_replication peer_pgconn 0 (peer_transport ?k)
      = Some (Inl (OperationalError m), peer_transport ?k\<lparr>tr_conn := Some ?k\<rparr>)"
    by (simp_all add: create_slot_if_missing_def start_replication_def with_pgconn_def str_encode_def
        wbind_def run_command_def transport_flush_def wcatch_def flush_until_complete_def drain_result_def
        loop.simps flush_turn_def busy_turn_def peer_simps)
  moreover have "\<exists>tr'. transport_read peer_pgconn (peer_transport (?k\<lparr>pr_arriving := [[]]\<rparr>))
      = Some (Inl (connection_error (lit ''error receiving copy data: '' @ m) (no_context\<lparr>ctx_slot := Some (lit ''s'')\<rparr>)), tr')"
    by (simp add: read_simps wcatch_def peer_simps slot_context_def connection_error_def)
  ultimately show ?thesis by (intro exI [of _ ?k]) (simp add: peer_with_def)
qed



end
