(* ===== verification/Decoder_Types.thy ===== *)
theory Decoder_Types
  imports Pgoutput_Stream
begin

unbundle bit_operations_syntax

text \<open>
  The types Python does not check: on arbitrary bytes, what the decoder of \<open>pgoutput.py\<close> returns
  has every field inside its wire type, names and values that are text, and rows over the columns of a
  cached relation; and the relation cache itself stays well typed.
\<close>

section \<open>Typed values\<close>

definition typed_row :: "column list \<Rightarrow> row \<Rightarrow> bool" where
  "typed_row cols row =
     (dict_ok row
      \<and> (\<forall>k v. map_of row k = Some v \<longrightarrow>
            k \<in> col_name ` set cols \<and> (case v of None \<Rightarrow> True | Some s \<Rightarrow> list_all is_scalar s)))"

definition typed_decoder :: "decoder \<Rightarrow> bool" where
  "typed_decoder d =
     (dict_ok (dec_relations d) \<and> (\<forall>(i, r) \<in> set (dec_relations d). i = rel_id r \<and> valid_relation r))"

text \<open>The relation a row change is about.\<close>

definition about :: "decoder \<Rightarrow> int \<Rightarrow> pystr \<Rightarrow> (relation \<Rightarrow> bool) \<Rightarrow> bool" where
  "about d i table typed =
     (\<exists>r. map_of (dec_relations d) i = Some r \<and> u32 i \<and> table = qualified_name r \<and> typed r)"

fun typed_message :: "decoder \<Rightarrow> pgoutput_message \<Rightarrow> bool" where
  "typed_message d (Relation r) = valid_relation r"
| "typed_message d (Begin m) = valid_begin m"
| "typed_message d (Insert m) =
     (about d (ins_relation_id m) (ins_table m) (\<lambda>r. typed_row (rel_columns r) (ins_new m))
      \<and> valid_xid (dec_streaming_active d) (ins_subxid m))"
| "typed_message d (Update m) =
     (about d (upd_relation_id m) (upd_table m)
        (\<lambda>r. typed_row (rel_columns r) (upd_new m)
           \<and> (case upd_old m of None \<Rightarrow> True | Some old \<Rightarrow> typed_row (rel_columns r) old))
      \<and> valid_xid (dec_streaming_active d) (upd_subxid m))"
| "typed_message d (Delete m) =
     (about d (del_relation_id m) (del_table m) (\<lambda>r. typed_row (rel_columns r) (del_old m))
      \<and> valid_xid (dec_streaming_active d) (del_subxid m))"
| "typed_message d (Commit m) = valid_commit m"
| "typed_message d (Truncate m) =
     (u32 (int (length (trunc_tables m)))
      \<and> list_all (\<lambda>t. \<exists>i. about d i t (\<lambda>_. True)) (trunc_tables m)
      \<and> valid_xid (dec_streaming_active d) (trunc_subxid m))"
| "typed_message d (Type m) = valid_type m"
| "typed_message d (Origin m) = valid_origin m"
| "typed_message d (Message m) = valid_message m"
| "typed_message d (StreamStart m) = valid_stream_start m"
| "typed_message d StreamStop = True"
| "typed_message d (StreamCommit m) = valid_stream_commit m"
| "typed_message d (StreamAbort m) = valid_stream_abort m"


section \<open>Readers\<close>

lemma int_slice_bound: "j - i \<le> k \<Longrightarrow> int_from_bytes (slice buf i j) < 256 ^ k"
proof -
  assume "j - i \<le> k"
  then have "length (slice buf i j) \<le> k" using length_slice [of buf i j] by simp
  then have "(256 :: int) ^ length (slice buf i j) \<le> 256 ^ k" by (intro power_increasing) simp_all
  then show ?thesis using int_from_bytes_bounds [of "slice buf i j"] by linarith
qed

lemma uint_byte: "uint (b :: byte) < 256"
  using uint_lt2p [of b] by simp

lemma field_widths [simp]: "u64 (int64_at buf i)" "u32 (int32_at buf i)" "u16 (int16_at buf i)"
  unfolding u64_def u32_def u16_def int64_at_def int32_at_def int16_at_def
  using int_slice_bound [of "i + 8" i 8 buf] int_slice_bound [of "i + 4" i 4 buf]
    int_slice_bound [of "i + 2" i 2 buf]
  by simp_all

lemma signed_width:
  assumes "j - i \<le> 4"
  shows "- (2 ^ 31) \<le> int_from_bytes_signed (slice buf i j) \<and> int_from_bytes_signed (slice buf i j) < 2 ^ 31"
proof -
  let ?s = "slice buf i j"
  have len: "length ?s \<le> 4" using length_slice [of buf i j] assms by simp
  define n where "n = int_from_bytes ?s"
  have n: "0 \<le> n" "n < 2 ^ (8 * length ?s)"
    using int_from_bytes_bounds [of ?s] by (simp_all add: n_def power_mult)
  show ?thesis
  proof (cases "?s = []")
    case True
    with n show ?thesis by (simp add: int_from_bytes_signed_def n_def [symmetric])
  next
    case False
    then consider "length ?s = 1" | "length ?s = 2" | "length ?s = 3" | "length ?s = 4"
      using len by (cases ?s) (auto simp: le_Suc_eq numeral_eq_Suc)
    then show ?thesis
      using n False unfolding int_from_bytes_signed_def Let_def n_def [symmetric]
      by cases (simp_all split: if_splits)
  qed
qed

lemma decoded_text: "bytes_decode bs = Inr s \<Longrightarrow> list_all is_scalar s"
  using utf8_encode_decode by (auto simp: bytes_decode_def)

lemma read_cstring_name:
  assumes "read_cstring buf offset = Inr (s, offset')"
  shows "valid_name s"
proof -
  let ?stop = "offset + length (takeWhile (\<lambda>x. x \<noteq> 0) (drop offset buf))"
  have dec: "bytes_decode (slice buf offset ?stop) = Inr s"
    using assms unfolding read_cstring_def bytes_index_def Let_def
    by (simp add: rbind_eq_Inr split: if_splits)
  have "slice buf offset ?stop = takeWhile (\<lambda>x. x \<noteq> 0) (drop offset buf)"
    by (simp add: slice_def takeWhile_eq_take [symmetric])
  then have zero: "0 \<notin> set (slice buf offset ?stop)" by (auto dest: set_takeWhileD)
  have enc: "utf8_encode s = slice buf offset ?stop" "list_all is_scalar s"
    using dec utf8_encode_decode by (auto simp: bytes_decode_def)
  have "0 \<notin> set s"
  proof
    assume "0 \<in> set s"
    then obtain a b where "s = a @ 0 # b" by (auto dest: split_list)
    then have "0 \<in> set (utf8_encode s)" by (simp add: utf8_encode_def utf8_encode_char_def)
    with enc(1) zero show False by simp
  qed
  with enc(2) show ?thesis by (simp add: valid_name_def)
qed

lemma decode_columns_typed:
  "decode_columns n buf offset = Inr cols \<Longrightarrow> length cols = n \<and> list_all valid_column cols"
proof (induction n arbitrary: offset cols)
  case 0
  then show ?case by simp
next
  case (Suc n)
  then obtain flags name off columns where parts:
    "read_cstring buf (offset + 1) = Inr (name, off)"
    "decode_columns n buf (off + 8) = Inr columns"
    "cols = \<lparr>col_name = name, col_type_oid = int32_at buf off,
        col_type_modifier = int_from_bytes_signed (slice buf (off + 4) (off + 8)),
        col_is_key = ((flags :: byte) AND 1 \<noteq> 0)\<rparr> # columns"
    by (auto simp: rbind_eq_Inr)
  with Suc.IH [OF parts(2)] read_cstring_name [OF parts(1)] signed_width [of "off + 8" "off + 4" buf]
  show ?case by (simp add: valid_column_def)
qed

lemma typed_row_update:
  "typed_row cols row \<Longrightarrow> c \<in> set cols \<Longrightarrow> (case v of None \<Rightarrow> True | Some s \<Rightarrow> list_all is_scalar s) \<Longrightarrow>
   typed_row cols (AList.update (col_name c) v row)"
  by (auto simp: typed_row_def split: if_splits)


lemma typed_row_Nil [simp]: "typed_row cols []"
  by (simp add: typed_row_def)

lemma decode_tuple_columns_typed:
  "decode_tuple_columns cs buf offset row = Inr (row', offset') \<Longrightarrow> set cs \<subseteq> set cols \<Longrightarrow>
   typed_row cols row \<Longrightarrow> typed_row cols row'"
proof (induction cs buf offset row rule: decode_tuple_columns.induct)
  case 1
  then show ?case by simp
next
  case (2 column columns buf offset row)
  note result = "2.prems"(1) [unfolded decode_tuple_columns.simps Let_def]
  have c: "column \<in> set cols" "set columns \<subseteq> set cols" using "2.prems"(2) by simp_all
  consider (null) "slice buf offset (offset + 1) = blit ''n''"
    | (toast) "slice buf offset (offset + 1) = blit ''u''"
    | (valued) "slice buf offset (offset + 1) = blit ''t''"
    | (other) "slice buf offset (offset + 1) \<notin> {blit ''n'', blit ''u'', blit ''t''}"
    by blast
  then show ?case
  proof cases
    case null
    with result have "decode_tuple_columns columns buf (offset + 1)
        (AList.update (col_name column) None row) = Inr (row', offset')" by simp
    from "2.IH"(1) [OF refl refl null this c(2)] typed_row_update [OF "2.prems"(3) c(1)] show ?thesis by simp
  next
    case toast
    with result have "decode_tuple_columns columns buf (offset + 1) row = Inr (row', offset')" by simp
    from "2.IH"(2) [OF refl refl _ toast this c(2) "2.prems"(3)] toast show ?thesis by simp
  next
    case valued
    define off' where "off' = offset + 1 + 4"
    define len where "len = nat (int32_at buf (offset + 1))"
    from result valued obtain t where t:
      "bytes_decode (slice buf off' (off' + len)) = Inr t"
      "decode_tuple_columns columns buf (off' + len) (AList.update (col_name column) (Some t) row) = Inr (row', offset')"
      by (auto simp: rbind_eq_Inr off'_def len_def)
    have "typed_row cols (AList.update (col_name column) (Some t) row)"
      using typed_row_update [OF "2.prems"(3) c(1), of "Some t"] decoded_text [OF t(1)] by simp
    moreover have "slice buf offset (offset + 1) \<noteq> blit ''n''" "slice buf offset (offset + 1) \<noteq> blit ''u''"
      using valued by simp_all
    ultimately show ?thesis
      using "2.IH"(3) [OF refl refl _ _ valued len_def off'_def t c(2)] by blast
  next
    case other
    with result show ?thesis by simp
  qed
qed

lemma decode_tuple_data_typed:
  "decode_tuple_data buf offset cols = Inr (row, offset') \<Longrightarrow> typed_row cols row"
  using decode_tuple_columns_typed [of cols buf "offset + 2" "[]" row offset' cols]
  by (auto simp: decode_tuple_data_def Let_def split: if_splits)

lemma restrict_loop_typed:
  "restrict_loop row cs acc = Inr r \<Longrightarrow> typed_row cols row \<Longrightarrow> set cs \<subseteq> set cols \<Longrightarrow> typed_row cols acc \<Longrightarrow>
   typed_row cols r"
proof (induction row cs acc rule: restrict_loop.induct)
  case 1
  then show ?case by simp
next
  case (2 row column columns acc)
  show ?case
  proof (cases "col_is_key column")
    case False
    with 2 show ?thesis by simp
  next
    case True
    with "2.prems"(1) obtain v where v: "map_of row (col_name column) = Some v"
      "restrict_loop row columns (AList.update (col_name column) v acc) = Inr r"
      by (auto split: option.splits)
    moreover have "case v of None \<Rightarrow> True | Some s \<Rightarrow> list_all is_scalar s"
      using "2.prems"(2) v(1) unfolding typed_row_def by blast
    then have "typed_row cols (AList.update (col_name column) v acc)"
      using "2.prems"(3,4) by (intro typed_row_update) simp_all
    ultimately show ?thesis
      using "2.IH"(1) [OF True v(1) v(2) "2.prems"(2)] "2.prems"(3) by simp
  qed
qed

lemma restrict_typed:
  "restrict_to_key_columns row cols = Inr r \<Longrightarrow> typed_row cols row \<Longrightarrow> typed_row cols r"
  using restrict_loop_typed [of row cols "[]" r cols] by (simp add: restrict_to_key_columns_def)

lemma relation_cache_get_Inr [simp]: "relation_cache_get cache i = Inr r \<longleftrightarrow> map_of cache i = Some r"
  by (simp add: relation_cache_get_def)

lemma leading_subxid_valid [simp]: "valid_xid s (leading_subxid s p)"
  by (simp add: valid_xid_def leading_subxid_def)


section \<open>One decoder each\<close>

lemma rbindE: "rbind m f = Inr y \<Longrightarrow> (\<And>x. m = Inr x \<Longrightarrow> f x = Inr y \<Longrightarrow> thesis) \<Longrightarrow> thesis"
  by (cases m) auto

lemma rbind_pairE:
  "rbind m (\<lambda>(a, b). f a b) = Inr y \<Longrightarrow> (\<And>a b. m = Inr (a, b) \<Longrightarrow> f a b = Inr y \<Longrightarrow> thesis) \<Longrightarrow> thesis"
  by (cases m) auto

lemma decode_relation_typed:
  assumes "decode_relation s p = Inr r"
  shows "valid_relation r"
proof -
  let ?rest2 = "\<lambda>ns name off2 id. rbind (decode_columns (nat (int16_at p (off2 + 1))) p (off2 + 3)) (\<lambda>cols.
        Inr \<lparr>rel_id = int32_at p (body_offset s), rel_namespace = ns, rel_name = name,
             rel_replica_identity = [unat (id :: byte)], rel_columns = cols\<rparr>)"
  let ?rest1 = "\<lambda>ns off1. rbind (read_cstring p off1) (\<lambda>(name, off2).
        rbind (byte_at p off2) (\<lambda>id. ?rest2 ns name off2 id))"
  have "rbind (read_cstring p (body_offset s + 4)) (\<lambda>(ns, off1). ?rest1 ns off1) = Inr r"
    using assms by (simp only: decode_relation_def Let_def sum.distinct split: if_splits)
  then obtain ns off1 where ns: "read_cstring p (body_offset s + 4) = Inr (ns, off1)" "?rest1 ns off1 = Inr r"
    by (rule rbind_pairE)
  from ns(2) obtain name off2 where name: "read_cstring p off1 = Inr (name, off2)"
    "rbind (byte_at p off2) (\<lambda>id. ?rest2 ns name off2 id) = Inr r"
    by (rule rbind_pairE)
  from name(2) obtain id where "?rest2 ns name off2 id = Inr r"
    by (rule rbindE)
  then obtain cols where parts: "decode_columns (nat (int16_at p (off2 + 1))) p (off2 + 3) = Inr cols"
    "r = \<lparr>rel_id = int32_at p (body_offset s), rel_namespace = ns, rel_name = name,
         rel_replica_identity = [unat (id :: byte)], rel_columns = cols\<rparr>"
    by (rule rbindE) simp
  have "unat id < 256" by (rule order.strict_trans2 [OF unsigned_less]) simp
  moreover have "u16 (int (nat (int16_at p (off2 + 1))))"
    using field_widths(3) [of p "off2 + 1"] by (simp add: u16_def)
  ultimately show ?thesis
    using decode_columns_typed [OF parts(1)] read_cstring_name [OF ns(1)] read_cstring_name [OF name(1)]
    by (simp add: parts(2) valid_relation_def)
qed

lemma decode_insert_typed:
  assumes "decode_insert (dec_relations d) (dec_streaming_active d) p = Inr m"
  shows "typed_message d (Insert m)"
  using assms decode_tuple_data_typed
  by (auto simp: decode_insert_def Let_def rbind_eq_Inr about_def split: if_splits)

lemma decode_update_typed:
  assumes "decode_update (dec_relations d) (dec_streaming_active d) p = Inr m"
  shows "typed_message d (Update m)"
  using assms decode_tuple_data_typed restrict_typed
  by (auto simp: decode_update_def Let_def rbind_eq_Inr about_def split: if_splits)

lemma decode_delete_typed:
  assumes "decode_delete (dec_relations d) (dec_streaming_active d) p = Inr m"
  shows "typed_message d (Delete m)"
  using assms decode_tuple_data_typed restrict_typed
  by (auto simp: decode_delete_def Let_def rbind_eq_Inr about_def split: if_splits)

lemma decode_truncate_tables_typed:
  "decode_truncate_tables n (dec_relations d) p offset = Inr tables \<Longrightarrow>
   length tables = n \<and> list_all (\<lambda>t. \<exists>i. about d i t (\<lambda>_. True)) tables"
proof (induction n arbitrary: offset tables)
  case 0
  then show ?case by simp
next
  case (Suc n)
  then obtain r ts where parts: "map_of (dec_relations d) (int32_at p offset) = Some r"
    "decode_truncate_tables n (dec_relations d) p (offset + 4) = Inr ts" "tables = qualified_name r # ts"
    by (auto simp: rbind_eq_Inr)
  with Suc.IH [OF parts(2)] show ?case by (auto simp: about_def intro: field_widths)
qed

lemma decode_truncate_typed:
  assumes "decode_truncate (dec_relations d) (dec_streaming_active d) p = Inr m"
  shows "typed_message d (Truncate m)"
proof -
  from assms obtain off off' where
    "decode_truncate_tables (nat (int32_at p off)) (dec_relations d) p off' = Inr (trunc_tables m)"
    "trunc_subxid m = leading_subxid (dec_streaming_active d) p"
    by (auto simp: decode_truncate_def Let_def rbind_eq_Inr split: if_splits)
  with decode_truncate_tables_typed [OF this(1)] field_widths(2) [of p off] show ?thesis
    by (simp add: u32_def)
qed

lemma decode_other_typed:
  "decode_begin p = Inr m1 \<Longrightarrow> valid_begin m1"
  "decode_commit p = Inr m2 \<Longrightarrow> valid_commit m2"
  "decode_type s p = Inr m3 \<Longrightarrow> valid_type m3"
  "decode_origin p = Inr m4 \<Longrightarrow> valid_origin m4"
  "decode_stream_start p = Inr m5 \<Longrightarrow> valid_stream_start m5"
  "decode_stream_commit p = Inr m6 \<Longrightarrow> valid_stream_commit m6"
  "decode_stream_abort p = Inr m7 \<Longrightarrow> valid_stream_abort m7"
  subgoal by (auto simp: decode_begin_def valid_begin_def split: if_splits)
  subgoal
    by (auto simp: decode_commit_def valid_commit_def rbind_eq_Inr u8_def uint_byte split: if_splits)
  subgoal by (auto simp: decode_type_def valid_type_def Let_def rbind_eq_Inr dest!: read_cstring_name split: if_splits)
  subgoal by (auto simp: decode_origin_def valid_origin_def rbind_eq_Inr dest!: read_cstring_name split: if_splits)
  subgoal by (auto simp: decode_stream_start_def valid_stream_start_def rbind_eq_Inr split: if_splits)
  subgoal by (auto simp: decode_stream_commit_def valid_stream_commit_def split: if_splits)
  subgoal by (auto simp: decode_stream_abort_def valid_stream_abort_def split: if_splits)
  done

lemma decode_message_typed:
  assumes "decode_message s p = Inr m"
  shows "valid_message m"
proof -
  from assms obtain off where parts: "valid_name (msg_prefix m)" "msg_lsn m = int64_at p (body_offset s + 1)"
    "msg_content m = slice p (off + 4) (off + 4 + nat (int32_at p off))"
    by (auto simp: decode_message_def Let_def rbind_eq_Inr dest!: read_cstring_name split: if_splits)
  have "length (msg_content m) \<le> nat (int32_at p off)"
    unfolding parts(3) using length_slice [of p "off + 4" "off + 4 + nat (int32_at p off)"] by simp
  then have "u32 (int (length (msg_content m)))"
    using field_widths(2) [of p off] unfolding u32_def by linarith
  with parts(1,2) show ?thesis by (simp add: valid_message_def)
qed


section \<open>The stateful decoder\<close>

lemma typed_decoder_add:
  assumes "typed_decoder d" and "valid_relation r"
  shows "typed_decoder (d\<lparr>dec_relations := relation_cache_add r (dec_relations d)\<rparr>)"
proof -
  have ok: "dict_ok (dec_relations d)" using assms(1) by (simp add: typed_decoder_def)
  have keys: "\<And>i q. map_of (dec_relations d) i = Some q \<Longrightarrow> i = rel_id q \<and> valid_relation q"
    using assms(1) by (auto simp: typed_decoder_def dest: map_of_SomeD)
  let ?cache = "AList.update (rel_id r) r (dec_relations d)"
  have "i = rel_id q \<and> valid_relation q" if "(i, q) \<in> set ?cache" for i q
  proof -
    have "map_of ?cache i = Some q" using that ok by (intro map_of_is_SomeI) auto
    then show ?thesis using keys assms(2) by (auto split: if_splits)
  qed
  then show ?thesis using ok by (auto simp: typed_decoder_def relation_cache_add_def)
qed

text \<open>C28: types. On arbitrary bytes a well-typed decoder returns only well-typed messages: every
  integer fits its wire field, every name and value is text, a row change is about a cached relation,
  bears its name, and has rows over its columns, with an xid exactly inside a streaming bracket; and
  the decoder stays well typed, each relation cached under its own id.\<close>

theorem decoded_messages_are_typed:
  assumes "typed_decoder d" and "decode p d = (r, d')"
  shows "typed_decoder d' \<and> (case r of Inl _ \<Rightarrow> True | Inr m \<Rightarrow> typed_message d m)"
proof (cases "\<forall>k \<in> set supported_kinds. slice p 0 1 \<noteq> [k]")
  case True
  then show ?thesis using assms by (auto simp: decode_unsupported)
next
  case False
  then obtain k q where p: "p = k # q" and k: "k \<in> {82, 66, 67, 73, 85, 68, 84, 89, 79, 77, 83, 69, 99, 65}"
    using supported_split by blast
  have flag: "typed_decoder (d\<lparr>dec_streaming_active := b\<rparr>)" for b
    using assms(1) by (simp add: typed_decoder_def)
  have typed: "case r of Inl _ \<Rightarrow> True | Inr m \<Rightarrow> typed_message d m"
    using assms(2) p k decode_relation_typed decode_insert_typed decode_update_typed decode_delete_typed
      decode_truncate_typed decode_message_typed decode_other_typed
    by (elim insertE emptyE) (auto simp: decode_kinds rmap_eq_Inr split: sum.splits)
  moreover have "typed_decoder d'"
    using decode_result [of p d] assms typed flag typed_decoder_add [OF assms(1)]
    by (cases r; cases "projr r") (auto split: if_splits)
  ultimately show ?thesis by blast
qed

theorem decoded_messages_are_typed_witness:
  "typed_decoder (snd (decode (encode_relation None demo_relation) decoder_init))
   \<and> fst (decode (encode_relation None demo_relation) decoder_init) = Inr (Relation demo_relation)"
proof -
  have "typed_decoder decoder_init" by (simp add: typed_decoder_def decoder_init_def relation_cache_init_def)
  from decoded_messages_are_typed [OF this, of "encode_relation None demo_relation"]
  have "typed_decoder (snd (decode (encode_relation None demo_relation) decoder_init))"
    by (cases "decode (encode_relation None demo_relation) decoder_init") simp
  moreover have "fst (decode (encode_relation None demo_relation) decoder_init) = Inr (Relation demo_relation)"
    by code_simp
  ultimately show ?thesis by blast
qed

end
