(* ===== verification/Pipeline.thy ===== *)
theory Pipeline
  imports Transaction_Server Client_Properties Checkpoint Transport_Properties Decoder_Types
begin

text \<open>
  The receiving side put together: the frames a server sends, through \<open>decode_replication_message\<close>,
  the stateful \<open>Decoder\<close> and the assembler, to the transactions the receiver hands to the queue.
\<close>

section \<open>From frames to transactions\<close>

text \<open>What a server sends: a pgoutput message with its WAL positions and its clock, or a keepalive.\<close>

datatype server_frame = Data int int int wire_message | Alive primary_keepalive

fun frame_payloads :: "server_frame list \<Rightarrow> server \<Rightarrow> bytes list" where
  "frame_payloads [] s = []"
| "frame_payloads (Data lo hi clock w # fs) s =
     encode_replication_message (XLogData \<lparr>wal_start = lo, wal_end = hi, send_time = clock,
       xlog_payload = encode_wire (srv_streaming s) w\<rparr>) # frame_payloads fs (server_step w s)"
| "frame_payloads (Alive k # fs) s =
     encode_replication_message (PrimaryKeepalive k) # frame_payloads fs s"

fun frame_wires :: "server_frame list \<Rightarrow> wire_message list" where
  "frame_wires [] = []"
| "frame_wires (Data lo hi clock w # fs) = w # frame_wires fs"
| "frame_wires (Alive k # fs) = frame_wires fs"

text \<open>Positions fit their fields, and a keepalive does not ask for a reply.\<close>

fun frame_ok :: "server_frame \<Rightarrow> bool" where
  "frame_ok (Data lo hi clock w) = (u64 lo \<and> u64 hi \<and> u64 clock)"
| "frame_ok (Alive k) = (valid_keepalive k \<and> \<not> keepalive_reply_requested k)"

fun made :: "frame_outcome \<Rightarrow> transaction list" where
  "made (Enqueued t) = [t]"
| "made (Waiting t) = [t]"
| "made _ = []"

text \<open>What the receiver does with a decoded message.\<close>

definition feed_actionable :: "pgoutput_message \<Rightarrow> (assembler, exn, transaction option) action" where
  "feed_actionable m a = (if is_unactionable m then (Inr None, a) else feed m a)"

definition row_or_transaction :: "pgoutput_message \<Rightarrow> bool" where
  "row_or_transaction m =
     (case m of Relation _ \<Rightarrow> False | Type _ \<Rightarrow> False | Origin _ \<Rightarrow> False | Message _ \<Rightarrow> False | _ \<Rightarrow> True)"

definition given :: "'a option list \<Rightarrow> 'a list" where
  "given rs = List.map_filter id rs"

lemma given_simps [simp]:
  "given [] = []"
  "given (None # rs) = given rs"
  "given (Some x # rs) = x # given rs"
  "given (rs @ rs') = given rs @ given rs'"
  by (simp_all add: given_def List.map_filter_def)

lemma arun_Cons_Inr:
  "arun f (x # xs) s = (Inr ys, s') \<longleftrightarrow>
   (\<exists>y ys' s1. f x s = (Inr y, s1) \<and> arun f xs s1 = (Inr ys', s') \<and> ys = y # ys')"
  by (auto split: sum.splits prod.splits)

lemma data_frame:
  assumes "in_sync (cl_decoder c) s" and "server_ok w s" and "meaning w s = Inr m"
    and "frame_ok (Data lo hi clock w)" and "\<not> q_is_shutdown (cl_queue c)"
    and "feed_actionable m (cl_assembler c) = (Inr ot, a')"
  shows "\<exists>out c'. handle_frame (encode_replication_message (XLogData \<lparr>wal_start = lo, wal_end = hi,
        send_time = clock, xlog_payload = encode_wire (srv_streaming s) w\<rparr>)) now elapsed write c = (Inr out, c')
      \<and> made out = (case ot of None \<Rightarrow> [] | Some t \<Rightarrow> [t])
      \<and> in_sync (cl_decoder c') (server_step w s) \<and> cl_assembler c' = a' \<and> \<not> q_is_shutdown (cl_queue c')"
proof -
  let ?x = "\<lparr>wal_start = lo, wal_end = hi, send_time = clock, xlog_payload = encode_wire (srv_streaming s) w\<rparr>"
  have dec: "decode_replication_message (encode_replication_message (XLogData ?x)) = Inr (XLogData ?x)"
    using assms(4) by (intro replication_codec.dec_enc) (simp add: valid_replication_message_def valid_xlog_def)
  have read: "decode (encode_wire (srv_streaming s) w) (cl_decoder c) = read_wire w (cl_decoder c)"
    using in_sync_streaming [OF assms(1)] by (simp add: read_wire_def)
  obtain d where d: "decode (encode_wire (srv_streaming s) w) (cl_decoder c) = (Inr m, d)" "in_sync d (server_step w s)"
    using read_wire_in_sync [OF assms(1,2)] assms(3) read by (cases "read_wire w (cl_decoder c)") auto
  obtain c1 where c1: "handle_xlog_data ?x c = (Inr ot, c1)" "cl_decoder c1 = d" "cl_assembler c1 = a'"
    "cl_queue c1 = cl_queue c"
    using assms(6) d(1) by (auto simp: handle_xlog_data_def feed_actionable_def Let_def split: if_splits)
  show ?thesis
  proof (cases ot)
    case None
    then show ?thesis using dec c1 d(2) assms(5) by (simp add: handle_frame_def)
  next
    case (Some t)
    have "\<exists>b c2. enqueue t c1 = (Inr b, c2) \<and> cl_decoder c2 = d \<and> cl_assembler c2 = a' \<and> \<not> q_is_shutdown (cl_queue c2)"
      using c1 assms(5) by (auto simp: enqueue_def put_nowait_def)
    then obtain b c2 where "enqueue t c1 = (Inr b, c2)" "cl_decoder c2 = d" "cl_assembler c2 = a'"
      "\<not> q_is_shutdown (cl_queue c2)" by blast
    with Some dec c1(1) d(2) show ?thesis by (cases b) (simp_all add: handle_frame_def)
  qed
qed

lemma alive_frame:
  assumes "frame_ok (Alive k)"
  shows "\<exists>c'. handle_frame (encode_replication_message (PrimaryKeepalive k)) now elapsed write c = (Inr Quiet, c')
      \<and> cl_decoder c' = cl_decoder c \<and> cl_assembler c' = cl_assembler c \<and> cl_queue c' = cl_queue c"
proof -
  have "decode_replication_message (encode_replication_message (PrimaryKeepalive k)) = Inr (PrimaryKeepalive k)"
    using assms by (intro replication_codec.dec_enc) (simp add: valid_replication_message_def)
  then show ?thesis using assms by (simp add: handle_frame_def handle_keepalive_def Let_def)
qed

lemma receive_frames:
  assumes "in_sync (cl_decoder c) s" and "stream_ok (frame_wires fs) s" and "list_all frame_ok fs"
    and "arun server_act (frame_wires fs) s = (Inr ms, s')"
    and "arun feed_actionable ms (cl_assembler c) = (Inr rs, a')" and "\<not> q_is_shutdown (cl_queue c)"
  shows "\<exists>outs c'. arun (\<lambda>p. handle_frame p now elapsed write) (frame_payloads fs s) c = (Inr outs, c')
      \<and> concat (map made outs) = given rs \<and> cl_assembler c' = a'"
  using assms
proof (induction fs s arbitrary: c ms rs rule: frame_payloads.induct)
  case (1 s)
  then show ?case by auto
next
  case (2 lo hi clock w fs s)
  from "2.prems"(4) obtain m ms' where m: "meaning w s = Inr m" "ms = m # ms'"
    "arun server_act (frame_wires fs) (server_step w s) = (Inr ms', s')"
    using arun_Cons_Inr [of server_act w "frame_wires fs" s ms s'] by (auto simp: server_act_def [of w])
  from "2.prems"(5) obtain ot a1 rs' where ot: "feed_actionable m (cl_assembler c) = (Inr ot, a1)" "rs = ot # rs'"
    "arun feed_actionable ms' a1 = (Inr rs', a')"
    by (auto simp: m(2) split: sum.splits prod.splits)
  from data_frame [OF "2.prems"(1) _ m(1) _ "2.prems"(6) ot(1), of lo hi clock now elapsed "write"] "2.prems"(2,3)
  obtain out c1 where c1: "handle_frame (encode_replication_message (XLogData \<lparr>wal_start = lo, wal_end = hi,
        send_time = clock, xlog_payload = encode_wire (srv_streaming s) w\<rparr>)) now elapsed write c = (Inr out, c1)"
    "made out = (case ot of None \<Rightarrow> [] | Some t \<Rightarrow> [t])" "in_sync (cl_decoder c1) (server_step w s)"
    "cl_assembler c1 = a1" "\<not> q_is_shutdown (cl_queue c1)"
    by auto
  from "2.IH" [OF c1(3) _ _ m(3) _ c1(5), of rs'] ot(3) c1(4) "2.prems"(2,3)
  obtain outs c' where "arun (\<lambda>p. handle_frame p now elapsed write) (frame_payloads fs (server_step w s)) c1 = (Inr outs, c')"
    "concat (map made outs) = given rs'" "cl_assembler c' = a'"
    by auto
  with c1(1,2) ot(2) show ?case by (auto split: option.splits)
next
  case (3 k fs s)
  from alive_frame [of k now elapsed "write" c] "3.prems"(3) obtain c1 where c1:
    "handle_frame (encode_replication_message (PrimaryKeepalive k)) now elapsed write c = (Inr Quiet, c1)"
    "cl_decoder c1 = cl_decoder c" "cl_assembler c1 = cl_assembler c" "cl_queue c1 = cl_queue c"
    by auto
  from "3.IH" [of c1 ms rs] "3.prems" c1(2,3,4)
  obtain outs c' where "arun (\<lambda>p. handle_frame p now elapsed write) (frame_payloads fs s) c1 = (Inr outs, c')"
    "concat (map made outs) = given rs" "cl_assembler c' = a'"
    by auto
  with c1(1) show ?case by auto
qed

text \<open>Messages that carry no row and no transaction mark are as if they had not been sent.\<close>

lemma feed_relevant:
  assumes "arun feed (filter row_or_transaction ms) a = (Inr rs, a')"
  shows "\<exists>rs'. arun feed_actionable ms a = (Inr rs', a') \<and> given rs' = given rs"
  using assms
proof (induction ms arbitrary: a rs)
  case Nil
  then show ?case by simp
next
  case (Cons m ms)
  show ?case
  proof (cases "row_or_transaction m")
    case True
    then have act: "feed_actionable m a = feed m a" for a
      by (auto simp: row_or_transaction_def feed_actionable_def is_unactionable_def split: pgoutput_message.splits)
    from Cons.prems True obtain ot a1 rs1 where run: "feed m a = (Inr ot, a1)" "rs = ot # rs1"
      "arun feed (filter row_or_transaction ms) a1 = (Inr rs1, a')"
      by (auto split: sum.splits prod.splits)
    from Cons.IH [OF run(3)] obtain rs2 where "arun feed_actionable ms a1 = (Inr rs2, a')" "given rs2 = given rs1"
      by blast
    with act run show ?thesis by (cases ot) auto
  next
    case False
    then have "feed_actionable m a = (Inr None, a)"
      by (auto simp: row_or_transaction_def feed_actionable_def is_unactionable_def split: pgoutput_message.splits)
    moreover from Cons.IH Cons.prems False obtain rs2 where "arun feed_actionable ms a = (Inr rs2, a')"
      "given rs2 = given rs" by auto
    ultimately show ?thesis by auto
  qed
qed

lemma feed_items:
  assumes "arun feed_item items a = (Inr tss, a')"
  shows "\<exists>rs. arun feed (concat (map item_messages items)) a = (Inr rs, a') \<and> given rs = concat tss"
  using assms
proof (induction items arbitrary: a tss)
  case Nil
  then show ?case by simp
next
  case (Cons item items)
  from Cons.prems obtain ts a1 tss' where ts: "feed_item item a = (Inr ts, a1)" "tss = ts # tss'"
    "arun feed_item items a1 = (Inr tss', a')"
    by (auto split: sum.splits prod.splits)
  from ts(1) obtain rs1 where rs1: "arun feed (item_messages item) a = (Inr rs1, a1)" "ts = given rs1"
    by (auto simp: feed_item_def handed_out_def rmap_eq_Inr given_def split: prod.splits)
  from Cons.IH [OF ts(3)] obtain rs2 where rs2: "arun feed (concat (map item_messages items)) a1 = (Inr rs2, a')"
    "given rs2 = concat tss'" by blast
  with rs1 rs2 ts(2) show ?case by (simp add: arun_append)
qed



definition demo_frames :: "server_frame list" where
  "demo_frames =
     Alive \<lparr>keepalive_wal_end = 90, keepalive_send_time = 1, keepalive_reply_requested = False\<rparr>
     # map (Data 100 100 2) demo_stream"

definition demo_items :: "schedule_item list" where
  "demo_items =
     [Chunk 9 True [Savepoint 10,
        Row (Insert \<lparr>ins_relation_id = 7, ins_table = lit ''public.outbox'',
               ins_new = [(lit ''id'', Some (lit ''1'')), (lit ''v'', None)], ins_subxid = Some 10\<rparr>)],
      CommitStreamed \<lparr>scommit_xid = 9, scommit_commit_lsn = 100, scommit_end_lsn = 150, scommit_commit_time = 5\<rparr>]"


end
