(* ===== verification/Builder.thy ===== *)
theory Builder
  imports Client_Properties Checkpoint Transport_Properties
begin

text \<open>
  \<open>walbox/builder.py\<close>, and what the client and the PostgreSQL checkpoint store it wires together do
  as one: the store under the handle the handler gets, which refines the abstract store of
  \<open>Client_System\<close>, and where a restarted process resumes. A client built with a DSN and one built
  with a pool differ only in where the store takes its connections from.
\<close>

section \<open>The two constructors\<close>

record ('d, 'c) built =
  built_client :: client
  built_table :: checkpoint_table
  built_database :: "('d, 'c) pg_client"

definition build :: "(pystr \<Rightarrow> ('d, 'c) pg_client) \<Rightarrow> walbox_options \<Rightarrow> ('d, 'c) built" where
  "build connections options =
     (let (table, database) =
        checkpoint_store_init connections (opt_dsn options) (opt_consumer_name options) default_table
      in \<lparr>built_client = client_init options, built_table = table, built_database = database\<rparr>)"

definition build_with_pool :: "('d, 'c) pg_client \<Rightarrow> walbox_options \<Rightarrow> ('d, 'c) built" where
  "build_with_pool pool options =
     (let (table, database) = from_pool pool (opt_consumer_name options) default_table
      in \<lparr>built_client = client_init options, built_table = table, built_database = database\<rparr>)"

text \<open>Both make a new store with its row in the default table.\<close>

lemma built_fields [simp]:
  "built_table (build connections options) = configure (opt_consumer_name options) default_table"
  "built_table (build_with_pool pool options) = configure (opt_consumer_name options) default_table"
  "built_client (build connections options) = client_init options"
  "built_client (build_with_pool pool options) = client_init options"
  "built_database (build connections options) = connections (opt_dsn options)"
  "built_database (build_with_pool pool options) = pool"
  by (simp_all add: build_def build_with_pool_def checkpoint_store_init_def from_pool_def)

text \<open>\<open>_new_transport\<close>\<close>

definition new_transport :: "client \<Rightarrow> 'k transport" where
  "new_transport c =
     transport_init (opt_dsn (cl_options c)) (opt_slot_name (cl_options c)) (opt_publication_name (cl_options c))"


section \<open>A save through the handle, on PostgreSQL\<close>

text \<open>The store beside the client.\<close>

definition beside_client ::
    "(checkpoint_table \<times> 'd, exn, 'a) action \<Rightarrow> (client \<times> checkpoint_table \<times> 'd, exn, 'a) action" where
  "beside_client m = (\<lambda>(c, st). case m st of (r, st') \<Rightarrow> (r, (c, st')))"

definition postgres_handler_save ::
    "('d, 'c) pg_client \<Rightarrow> transaction \<Rightarrow> int \<Rightarrow> 'c option \<Rightarrow> pyfloat \<Rightarrow> pyfloat
      \<Rightarrow> (client \<times> checkpoint_table \<times> 'd, exn, unit) action" where
  "postgres_handler_save P t lsn connection started finished =
     checkpoint_handle_save (process_handle (\<lambda>l k. beside_client (checkpoint_save P l k)) t)
       lsn connection started finished"

lemma postgres_handler_save_eq:
  "postgres_handler_save P t lsn connection started finished (c, st) =
     (if tx_commit_lsn t < lsn then (Inl (refuse_save lsn (tx_commit_lsn t)), (c, st))
      else case checkpoint_save P lsn connection st of
             (Inl e, st') \<Rightarrow> (Inl e, (c, st'))
           | (Inr _, st') \<Rightarrow> (Inr (), (record_durable_progress lsn (fsub finished started) c, st')))"
  by (auto simp: postgres_handler_save_def checkpoint_handle_save_def process_handle_def beside_client_def
      abind_def split: prod.splits sum.splits)

lemma handler_save_eq:
  "handler_save t lsn joined started finished ans c st =
     (if tx_commit_lsn t < lsn then (Inl (refuse_save lsn (tx_commit_lsn t)), (c, st))
      else case store_save ans lsn (if joined then Some () else None) (c, st) of
             (Inl e, (c', st')) \<Rightarrow> (Inl e, (c', st'))
           | (Inr _, (c', st')) \<Rightarrow> (Inr (), (record_durable_progress lsn (fsub finished started) c', st')))"
  by (auto simp: handler_save_def checkpoint_handle_save_def process_handle_def abind_def
      split: prod.splits sum.splits)

text \<open>What the abstract store answers in place of PostgreSQL.\<close>

definition answer_of :: "exn + unit \<Rightarrow> bool \<Rightarrow> save_answer" where
  "answer_of r landed = (case r of Inr _ \<Rightarrow> Saved | Inl e \<Rightarrow> SaveRaises e landed)"

lemma joined_commit:
  "walbox_step JoinedCommit sys = Some sys' \<Longrightarrow> st_committed (sys_store sys') = st_joined (sys_store sys)"
  by (auto simp: walbox_step_def is_store_event_def possible_event_def split: option.splits)

lemma joined_rollback:
  "walbox_step JoinedRollback sys = Some sys' \<Longrightarrow> st_committed (sys_store sys') = st_committed (sys_store sys)"
  by (auto simp: walbox_step_def is_store_event_def possible_event_def)

lemma stored_same_row: "same_row s s' \<Longrightarrow> stored durable (s', d) = stored durable (s, d)"
  by (simp add: stored_def same_row_def)

lemma own_save_refines:
  assumes pg: "postgres P durable seen up"
    and run: "postgres_handler_save P t lsn None started finished (c, (s, d)) = (r, (c', (s', d')))"
    and abs: "st_committed st = stored durable (s, d)"
  shows "\<exists>ans st'. handler_save t lsn False started finished ans c st = (r, (c', st'))
    \<and> st_committed st' = stored durable (s', d')"
proof (cases "tx_commit_lsn t < lsn")
  case True
  with run abs show ?thesis by (auto simp: postgres_handler_save_eq handler_save_eq)
next
  case False
  obtain q s1 d1 where save: "checkpoint_save P lsn None (s, d) = (q, (s1, d1))" by (rule prod_cases3)
  have stored: "stored durable (s1, d1) \<in> (case q of Inr _ \<Rightarrow> {Some lsn} | Inl _ \<Rightarrow> {stored durable (s, d), Some lsn})"
    using postgres.save_own [OF pg save] stored_same_row [of s s1 durable d1] by simp
  have *: "s' = s1" "d' = d1" using run False save
    by (auto simp: postgres_handler_save_eq split: sum.splits)
  show ?thesis
    by (rule exI [of _ "answer_of q (stored durable (s1, d1) = Some lsn)"])
      (use run False save stored abs in \<open>auto simp: * answer_of_def postgres_handler_save_eq handler_save_eq
        store_save_def split: sum.splits\<close>)
qed

lemma joined_save_refines:
  assumes pg: "postgres P durable seen up"
    and run: "postgres_handler_save P t lsn (Some k) started finished (c, (s, d)) = (r, (c', (s', d')))"
    and abs: "st_committed st = stored durable (s, d)"
  shows "\<exists>ans st'. handler_save t lsn True started finished ans c st = (r, (c', st'))
    \<and> st_committed st' = stored durable (s', d') \<and> same_row s s' \<and> durable d' = durable d
    \<and> (r = Inr () \<longrightarrow> st_joined st' = Some lsn \<and> position (seen k d') (ct_table s) (ct_consumer_name s) = Some lsn)"
proof (cases "tx_commit_lsn t < lsn")
  case True
  with run abs show ?thesis by (auto simp: postgres_handler_save_eq handler_save_eq)
next
  case False
  obtain q s1 d1 where save: "checkpoint_save P lsn (Some k) (s, d) = (q, (s1, d1))" by (rule prod_cases3)
  note joined = postgres.save_joined [OF pg save]
  then have stored: "stored durable (s1, d1) = stored durable (s, d)"
    by (simp add: stored_def same_row_def)
  have *: "s' = s1" "d' = d1" using run False save
    by (auto simp: postgres_handler_save_eq split: sum.splits)
  show ?thesis
    by (rule exI [of _ "answer_of q False"])
      (use run False save stored abs joined in \<open>auto simp: * answer_of_def postgres_handler_save_eq
        handler_save_eq store_save_def split: sum.splits\<close>)
qed

text \<open>C14: the PostgreSQL store under the client refines the store of the client's state machine. For
  every save through the handler's handle there is an answer of the abstract store with which the
  machine's save gives the same result and the same client, and leaves as its committed position the
  one PostgreSQL holds durably. After a save that joined the handler's connection, the commit of the
  machine's joined save agrees with the commit of that connection, and its rollback with the rollback.\<close>

theorem postgres_store_refines_client_store:
  assumes "postgres P durable seen up"
    and "postgres_handler_save P t lsn connection started finished (c, (s, d)) = (r, (c', (s', d')))"
    and "st_committed st = stored durable (s, d)"
  shows "\<exists>ans st'. handler_save t lsn (connection \<noteq> None) started finished ans c st = (r, (c', st'))
    \<and> st_committed st' = stored durable (s', d')
    \<and> (\<forall>k d'' sys sys'. connection = Some k \<and> sys_store sys = st' \<longrightarrow>
         (r = Inr () \<and> pg_commit P k d' = (Inr (), d'') \<and> walbox_step JoinedCommit sys = Some sys' \<longrightarrow>
            st_committed (sys_store sys') = stored durable (s', d''))
         \<and> (snd (pg_release P k True d') = d'' \<and> walbox_step JoinedRollback sys = Some sys' \<longrightarrow>
            st_committed (sys_store sys') = stored durable (s', d'')))"
proof (cases connection)
  case None
  with own_save_refines [OF assms(1) _ assms(3)] assms(2) show ?thesis by auto
next
  case (Some k)
  with assms(2) have run: "postgres_handler_save P t lsn (Some k) started finished (c, (s, d)) = (r, (c', (s', d')))"
    by simp
  obtain ans st' where st': "handler_save t lsn True started finished ans c st = (r, (c', st'))"
    "st_committed st' = stored durable (s', d')" "same_row s s'" "durable d' = durable d"
    "r = Inr () \<longrightarrow> st_joined st' = Some lsn \<and> position (seen k d') (ct_table s) (ct_consumer_name s) = Some lsn"
    using joined_save_refines [OF assms(1) run assms(3)] by blast
  have commit: "st_committed (sys_store sys') = stored durable (s', d'')"
    if "r = Inr ()" "pg_commit P k d' = (Inr (), d'')" "walbox_step JoinedCommit sys = Some sys'" "sys_store sys = st'"
    for d'' sys sys'
    using that st'(3,5) joined_commit [OF that(3)] postgres.commit [OF assms(1) that(2)]
    by (simp add: stored_def same_row_def)
  have rollback: "st_committed (sys_store sys') = stored durable (s', snd (pg_release P k True d'))"
    if "walbox_step JoinedRollback sys = Some sys'" "sys_store sys = st'" for sys sys'
    using that st'(2) joined_rollback [OF that(1)] postgres.rolled_back [OF assms(1), of k d' _ "snd (pg_release P k True d')"]
    by (simp add: stored_def prod_eq_iff)
  show ?thesis
    by (rule exI [of _ ans], rule exI [of _ st']) (use Some st'(1,2) commit rollback in auto)
qed

theorem postgres_store_refines_client_store_witness:
  "\<exists>ans st'. handler_save (demo_tx 1 100) 105 True 0 0 ans (client_init demo_options) \<lparr>st_committed = None, st_joined = None\<rparr>
      = (Inr (), (record_durable_progress 105 (fsub 0 0) (client_init demo_options), st'))
    \<and> st_committed st' = None"
proof -
  let ?s = "configure (lit ''c'') default_table"
  obtain s' d' where run: "checkpoint_save mini_client 105 (Some 7) (?s, mini_init []) = (Inr (), (s', d'))"
    by (simp add: checkpoint_save_def ensure_schema_def upsert_def configure_def abind_def on_db_def mini_simps)
  have save: "postgres_handler_save mini_client (demo_tx 1 100) 105 (Some 7) 0 0 (client_init demo_options, (?s, mini_init []))
      = (Inr (), (record_durable_progress 105 (fsub 0 0) (client_init demo_options), (s', d')))"
    unfolding postgres_handler_save_eq run by (simp add: demo_tx_def)
  have none: "stored mini_durable (?s, mini_init []) = None"
    by (simp add: stored_def configure_def mini_init_def position_def tables_of_def)
  have durable_same: "stored mini_durable (s', d') = None"
    using mini_pg.save_joined [OF run] none by (simp add: stored_def same_row_def)
  show ?thesis
    using postgres_store_refines_client_store [OF mini_pg.postgres_axioms save, of "\<lparr>st_committed = None, st_joined = None\<rparr>"]
      none durable_same by auto
qed


section \<open>A restart\<close>

text \<open>Where the transaction a message commits ends.\<close>

definition commit_end :: "pgoutput_message \<Rightarrow> int option" where
  "commit_end m =
     (case m of
        Commit k \<Rightarrow> Some (commit_end_lsn k)
      | StreamCommit k \<Rightarrow> Some (scommit_end_lsn k)
      | _ \<Rightarrow> None)"

lemma no_transaction_none: "no_transaction act a = (Inr ot, a') \<Longrightarrow> ot = None"
  by (auto simp: no_transaction_def abind_def split: prod.splits sum.splits)

lemma feed_commit_end:
  assumes "feed m a = (Inr (Some t), a')"
  shows "commit_end m = Some (tx_commit_lsn t + 1)"
  using assms
  by (cases m) (auto dest: no_transaction_none simp: one_transaction_def abind_def finish_def stream_commit_def
      build_transaction_def commit_end_def Let_def split: prod.splits sum.splits option.splits if_splits)

text \<open>C12: a restart goes on right behind the last transaction that was saved. Let the handler of a
  built client save the commit LSN of a transaction the assembler made from a commit message, and let
  a new process, built with the same consumer name on the same database, load its checkpoint. Then its
  session starts at the end LSN of that commit message, exactly: the replication command names it in a
  form that reads back as it, and every status update sent before anything newer is saved reports it as
  the position up to which the server may forget.\<close>

theorem restart_resumes_after_the_transaction:
  assumes "postgres P durable seen up"
    and "feed m a = (Inr (Some t), a')"
    and "postgres_handler_save P t (tx_commit_lsn t) None started finished
      (c0, (built_table (build (\<lambda>dsn. P) opts), d)) = (Inr (), (c1, (s1, d1)))"
    and "opt_consumer_name opts' = opt_consumer_name opts"
    and "checkpoint_load u P (built_table (build_with_pool P opts'), d1) = (Inr lsn, (s2, d2))"
    and "session_load lsn (built_client (build_with_pool P opts')) = (start, c2)"
  shows "commit_end m = Some start \<and> 0 < start
    \<and> (\<exists>lsn_text options. start_replication_command start (new_transport c2) =
          lit ''START_REPLICATION SLOT '' @ opt_slot_name opts' @ lit '' LOGICAL '' @ lsn_text @ lit '' ('' @ options
          \<and> parse_lsn u lsn_text = Inr start)
    \<and> (\<forall>payload. send_status_update reply elapsed write c2 = Inr payload \<longrightarrow>
          int_from_bytes (slice payload 9 17) = start \<and> int_from_bytes (slice payload 17 25) = start)"
proof -
  have "checkpoint_save P (tx_commit_lsn t) None (configure (opt_consumer_name opts) default_table, d) = (Inr (), (s1, d1))"
    using assms(3) by (auto simp: postgres_handler_save_eq split: prod.splits sum.splits)
  from postgres.save_own [OF assms(1) this] postgres.load_own [OF assms(1,5)]
  have lsn: "lsn = Some (tx_commit_lsn t)" "0 \<le> tx_commit_lsn t"
    by (auto simp: assms(4) stored_def configure_def)
  with assms(6) have start: "start = tx_commit_lsn t + 1" "cl_durable_lsn c2 = tx_commit_lsn t"
    and slot: "cl_options c2 = opts'"
    by (auto simp: session_load_def client_init_def)
  have command: "\<exists>lsn_text options. start_replication_command start (new_transport c2) =
          lit ''START_REPLICATION SLOT '' @ opt_slot_name opts' @ lit '' LOGICAL '' @ lsn_text @ lit '' ('' @ options
          \<and> parse_lsn u lsn_text = Inr start"
    by (rule exI [of _ "format_lsn start"])
      (simp add: start_replication_command_def parse_format_lsn new_transport_def transport_init_def slot)
  have status: "int_from_bytes (slice payload 9 17) = start \<and> int_from_bytes (slice payload 17 25) = start"
    if "send_status_update reply elapsed write c2 = Inr payload" for payload
    using send_status_known [OF that] start by (simp add: decode_standby_status_update_def current_status_def)
  show ?thesis using feed_commit_end [OF assms(2)] start lsn(2) command status by auto
qed

theorem restart_resumes_after_the_transaction_witness:
  "\<forall>u. \<exists>c1 s1 d1 s2 d2 c2 t.
     postgres_handler_save mini_client t 149 None 0 0
       (client_init demo_options, (built_table (build (\<lambda>dsn. mini_client) demo_options), mini_init [])) = (Inr (), (c1, (s1, d1)))
     \<and> checkpoint_load u mini_client (built_table (build_with_pool mini_client demo_options), d1) = (Inr (Some 149), (s2, d2))
     \<and> session_load (Some 149) (built_client (build_with_pool mini_client demo_options)) = (150, c2)
     \<and> (\<forall>payload. send_status_update False 0 (\<lambda>_. Inr ()) c2 = Inr payload \<longrightarrow> int_from_bytes (slice payload 9 17) = 150)"
  (is "\<forall>u. ?P u")
proof
  fix u
  let ?commit = "Commit \<lparr>commit_flags = 0, commit_commit_lsn = 100, commit_end_lsn = 150, commit_commit_time = 5\<rparr>"
  let ?a = "snd (feed (Begin \<lparr>begin_final_lsn = 100, begin_commit_time = 5, begin_xid = 9\<rparr>) assembler_init)"
  let ?t = "\<lparr>tx_xid = 9, tx_commit_lsn = 149, tx_commit_time = 5, tx_changes = []\<rparr>"
  let ?s = "built_table (build (\<lambda>dsn. mini_client) demo_options)"
  have feed: "feed ?commit ?a = (Inr (Some ?t), assembler_init)"
    by (simp add: no_transaction_def one_transaction_def assembler_begin_def assembler_init_def finish_def
        build_transaction_def pending_init_def abind_def)
  have s: "?s = built_table (build_with_pool mini_client demo_options)" "\<not> ct_schema_ready ?s"
    by (simp_all add: configure_def)
  have named: "well_named ?s"
    by (simp add: well_named_def bindable_def is_scalar_def configure_def default_table_def demo_options_def
        default_options_def)
  obtain d1 where save: "checkpoint_save mini_client 149 None (?s, mini_init []) = (Inr (), (?s\<lparr>ct_schema_ready := True\<rparr>, d1))"
    "md_commits d1 = []"
    using mini_pg.save_up [of "mini_init []" ?s 149] s(2) named by (auto simp: mini_init_def bigint_def)
  have handler: "postgres_handler_save mini_client ?t (tx_commit_lsn ?t) None 0 0 (client_init demo_options, (?s, mini_init []))
      = (Inr (), (record_durable_progress 149 (fsub 0 0) (client_init demo_options), (?s\<lparr>ct_schema_ready := True\<rparr>, d1)))"
    using save(1) by (simp add: postgres_handler_save_eq)
  have stored: "stored mini_durable (?s, d1) = Some 149"
    using mini_pg.save_own [OF save(1)] by simp
  obtain d2 where load: "checkpoint_load u mini_client (?s, d1) = (Inr (Some 149), (?s\<lparr>ct_schema_ready := True\<rparr>, d2))"
    using mini_pg.load_up [of d1 ?s u] save(2) s(2) stored named by auto
  obtain c2 where start: "session_load (Some 149) (built_client (build_with_pool mini_client demo_options)) = (150, c2)"
    by (simp add: session_load_def)
  note resumed = restart_resumes_after_the_transaction
    [OF mini_pg.postgres_axioms feed handler refl load [unfolded s(1)] start, of False 0 "\<lambda>_. Inr ()"]
  show "?P u"
    by (intro exI conjI, use handler in simp, rule load [unfolded s(1)], rule start) (use resumed in blast)
qed

end
