(* ===== verification/Session.thy ===== *)
theory Session
  imports Builder
begin

text \<open>
  The head of \<open>_run_once\<close> in \<open>walbox/client.py\<close> as one operation on the client, the PostgreSQL
  store and the transport together: load the checkpoint, make a transport, connect, create the slot,
  start replication. It refines the two events of \<open>Client_System\<close> that stand for it, and it returns
  wherever the server answers; which of its exceptions are retried, and which end \<open>run\<close>.
\<close>

section \<open>The operation\<close>

record ('d, 'k) session_state =
  ss_client :: client
  ss_store :: "checkpoint_table \<times> 'd"
  ss_transport :: "'k transport"

definition on_store :: "(checkpoint_table \<times> 'd, exn, 'a) action \<Rightarrow> (('d, 'k) session_state, exn, 'a) waiting" where
  "on_store m s = (case m (ss_store s) of (r, st) \<Rightarrow> Some (r, s\<lparr>ss_store := st\<rparr>))"

definition on_transport :: "('k transport, exn, 'a) waiting \<Rightarrow> (('d, 'k) session_state, exn, 'a) waiting" where
  "on_transport m s = map_option (\<lambda>(r, tr). (r, s\<lparr>ss_transport := tr\<rparr>)) (m (ss_transport s))"

definition begin_session :: "int option \<Rightarrow> (('d, 'k) session_state, exn, int) waiting" where
  "begin_session lsn s =
     (case session_load lsn (ss_client s) of
        (start_lsn, c) \<Rightarrow> Some (Inr start_lsn, s\<lparr>ss_client := c, ss_transport := new_transport c\<rparr>))"

definition open_session ::
    "unicode_db \<Rightarrow> ('d, 'c) pg_client \<Rightarrow> (pystr \<Rightarrow> exn + pystr) \<Rightarrow> (pystr \<Rightarrow> exn + 'k) \<Rightarrow> 'k pgconn \<Rightarrow> pyfloat
      \<Rightarrow> (('d, 'k) session_state, exn, int) waiting" where
  "open_session u P make_conninfo open_connection pg now =
     wbind (on_store (checkpoint_load u P)) (\<lambda>lsn.
     wbind (begin_session lsn) (\<lambda>start_lsn.
     wbind (on_transport (at_once (transport_connect make_conninfo open_connection))) (\<lambda>_.
     wbind (on_transport (create_slot_if_missing pg)) (\<lambda>_.
     wbind (on_transport (start_replication pg start_lsn)) (\<lambda>_ s.
       Some (Inr start_lsn, s\<lparr>ss_client := session_subscribed now (ss_client s)\<rparr>))))))"


lemma wbind_returns:
  "\<exists>r t. m s = Some (r, t) \<Longrightarrow> (\<And>x t. \<exists>r t'. f x t = Some (r, t')) \<Longrightarrow> \<exists>r t. wbind m f s = Some (r, t)"
  by (auto simp: wbind_def split: sum.splits)

lemma with_pgconn_returns:
  "tr_conn tr = Some k \<Longrightarrow> \<exists>r t. m k = Some (r, t) \<Longrightarrow> \<exists>r k'. with_pgconn m tr = Some (r, tr\<lparr>tr_conn := Some k'\<rparr>)"
  by (auto simp: with_pgconn_def)

section \<open>A server that answers\<close>

text \<open>
  \<open>pending\<close> bounds what is still to come of an answer: reading input while the connection is busy,
  and taking a result that is not a COPY result, lower it.
\<close>

locale answering_libpq = libpq pg rank taken
  for pg :: "'k pgconn" and rank :: "'k \<Rightarrow> nat" and taken :: "'k \<Rightarrow> bytes list" +
  fixes pending :: "'k \<Rightarrow> nat"
  assumes busy_progress:
      "pg_is_busy pg k \<Longrightarrow> pg_consume_input pg (pg_wait_readable pg k) = (Inr (), k') \<Longrightarrow> pending k' < pending k"
    and result_progress:
      "pg_get_result pg k = (Inr (Some res), k') \<Longrightarrow> \<not> is_copy_status (res_status res) \<Longrightarrow> pending k' < pending k"
begin

lemma busy_turn_progress: "busy_turn pg k = (Inr None, k') \<Longrightarrow> pending k' < pending k"
  by (auto simp: busy_turn_def split: if_splits prod.splits sum.splits dest: busy_progress)

lemma busy_returns: "\<exists>r k'. loop (busy_turn pg) k = Some (r, k')"
  using loop_returns [of "\<lambda>_. True" k "busy_turn pg" pending] by (auto dest: busy_turn_progress)

lemma result_turn_progress: "result_turn pg s = (Inr None, s') \<Longrightarrow> pending (snd s') < pending (snd s)"
  by (auto simp: result_turn_def split: if_splits prod.splits sum.splits option.splits dest: result_progress)

lemma results_return: "\<exists>r s'. loop (result_turn pg) s = Some (r, s')"
  using loop_returns [of "\<lambda>_. True" s "result_turn pg" "\<lambda>s. pending (snd s)"] by (auto dest: result_turn_progress)

lemma drain_returns: "\<exists>r k'. drain_result pg k = Some (r, k')"
proof -
  obtain r k1 where busy: "loop (busy_turn pg) k = Some (r, k1)" using busy_returns by blast
  obtain q res k2 where "loop (result_turn pg) (None, k1) = Some (q, (res, k2))"
    using results_return [of "(None, k1)"] by (metis surj_pair)
  with busy show ?thesis by (cases r; cases q; cases res) (auto simp: drain_result_def)
qed

lemma run_command_returns: "\<exists>r k'. run_command pg ctx command k = Some (r, k')"
  unfolding run_command_def transport_flush_def
  by (intro wbind_returns) (auto simp: wcatch_def drain_returns, metis flush_returns)

lemma commands_return:
  assumes "tr_conn tr = Some k"
  shows "\<exists>r k'. create_slot_if_missing pg tr = Some (r, tr\<lparr>tr_conn := Some k'\<rparr>)"
    and "\<exists>r k'. start_replication pg lsn tr = Some (r, tr\<lparr>tr_conn := Some k'\<rparr>)"
  unfolding create_slot_if_missing_def start_replication_def
  by (rule with_pgconn_returns [OF assms], intro wbind_returns; auto simp: run_command_returns)+

end

interpretation peer_answering: answering_libpq peer_pgconn "\<lambda>k. pr_unsent k + length (pr_arriving k)" pr_taken
  "\<lambda>k. pr_busy k + length (pr_results k)"
  by unfold_locales (auto simp: peer_simps split: if_splits option.splits list.splits)


section \<open>Opening, step by step\<close>

text \<open>Connecting and both commands, on the transport alone.\<close>

definition subscribe ::
    "(pystr \<Rightarrow> exn + pystr) \<Rightarrow> (pystr \<Rightarrow> exn + 'k) \<Rightarrow> 'k pgconn \<Rightarrow> int \<Rightarrow> ('k transport, exn, unit) waiting" where
  "subscribe make_conninfo open_connection pg start_lsn =
     wbind (at_once (transport_connect make_conninfo open_connection)) (\<lambda>_.
     wbind (create_slot_if_missing pg) (\<lambda>_.
     start_replication pg start_lsn))"

lemma connected:
  "transport_connect make_conninfo open_connection tr = (Inr (), tr') \<Longrightarrow> \<exists>k. tr_conn tr' = Some k"
  by (auto simp: transport_connect_def split: sum.splits)

lemma open_session_eq:
  "open_session u P make_conninfo open_connection pg now s =
     (case checkpoint_load u P (ss_store s) of
        (Inl e, st) \<Rightarrow> Some (Inl e, s\<lparr>ss_store := st\<rparr>)
      | (Inr lsn, st) \<Rightarrow>
          (case session_load lsn (ss_client s) of
             (start_lsn, c) \<Rightarrow>
               (case subscribe make_conninfo open_connection pg start_lsn (new_transport c) of
                  None \<Rightarrow> None
                | Some (Inl e, tr) \<Rightarrow> Some (Inl e, s\<lparr>ss_store := st, ss_client := c, ss_transport := tr\<rparr>)
                | Some (Inr _, tr) \<Rightarrow>
                    Some (Inr start_lsn,
                      s\<lparr>ss_store := st, ss_client := session_subscribed now c, ss_transport := tr\<rparr>))))"
  by (auto simp: open_session_def on_store_def begin_session_def on_transport_def subscribe_def wbind_def
      split: sum.splits prod.splits option.splits)

lemma subscribe_returns:
  assumes "answering_libpq pg rank taken pending"
  shows "\<exists>r tr'. subscribe make_conninfo open_connection pg start_lsn tr = Some (r, tr')"
proof -
  obtain r1 tr1 where connect: "transport_connect make_conninfo open_connection tr = (r1, tr1)" by fastforce
  show ?thesis
  proof (cases r1)
    case (Inl e)
    with connect show ?thesis by (simp add: subscribe_def)
  next
    case (Inr x)
    with connect connected obtain k where "tr_conn tr1 = Some k" by fastforce
    from answering_libpq.commands_return(1) [OF assms this] obtain r2 k2 where
      create: "create_slot_if_missing pg tr1 = Some (r2, tr1\<lparr>tr_conn := Some k2\<rparr>)" by blast
    from answering_libpq.commands_return(2) [OF assms, of "tr1\<lparr>tr_conn := Some k2\<rparr>" k2 start_lsn] obtain r3 k3 where
      "start_replication pg start_lsn (tr1\<lparr>tr_conn := Some k2\<rparr>) = Some (r3, tr1\<lparr>tr_conn := Some k3\<rparr>)" by auto
    with connect create Inr show ?thesis by (cases r2) (auto simp: subscribe_def)
  qed
qed


section \<open>Properties\<close>

text \<open>The two events of the client's state machine, and where they lead.\<close>

lemma setup_load_raises:
  assumes "sys_phase sys = Connecting"
  shows "walbox_run [Load (Some e)] sys = Some (run_catches e sys)"
  using assms by (simp add: walbox_step_def possible_event_def is_store_event_def)

lemma setup_subscribe:
  assumes "sys_phase sys = Connecting" and "session_load (st_committed (sys_store sys)) (sys_client sys) = (start_lsn, c)"
  shows "\<exists>sys1. walbox_run [Load None, SetUp (Some e) now] sys = Some (run_catches e sys1)
      \<and> sys_client sys1 = c \<and> sys_store sys1 = sys_store sys"
    and "\<exists>sys2. walbox_run [Load None, SetUp None now] sys = Some sys2
      \<and> sys_client sys2 = session_subscribed now c \<and> sys_store sys2 = sys_store sys
      \<and> sys_phase sys2 = Running (receive_head c) Getting
      \<and> h_starts (sys_history sys2) = h_starts (sys_history sys) @ [start_lsn]"
  subgoal
    using assms
    by (simp add: walbox_step_def possible_event_def is_store_event_def Let_def) (rule exI, rule conjI, rule refl, simp)
  subgoal
    using assms by (simp add: walbox_step_def possible_event_def is_store_event_def Let_def)
  done

definition after_error :: "exn \<Rightarrow> client \<Rightarrow> phase" where
  "after_error e c =
     (if \<not> is_connection_error e then phase.Ended (Some e) else if cl_closing c then phase.Ended None else Sleeping)"

lemma run_catches_phase:
  "sys_phase (run_catches e sys) = after_error e (sys_client sys)" "sys_store (run_catches e sys) = sys_store sys"
  by (auto simp: run_catches_def after_error_def Let_def split: prod.splits)


definition demo_copy :: pg_result where
  "demo_copy = \<lparr>res_status = COPY_BOTH, res_sqlstate = None\<rparr>"

definition demo_session :: "(mini, peer) session_state" where
  "demo_session =
     \<lparr>ss_client = client_init demo_options, ss_store = (configure (lit ''consumer'') default_table, mini_init []),
      ss_transport = transport_init [] [] []\<rparr>"

lemma demo_subscribe:
  "\<exists>tr. subscribe (\<lambda>dsn. Inr dsn) (\<lambda>dsn. Inr (peer_with [[]] [demo_copy])) peer_pgconn 0
     (transport_init (lit ''dsn'') (lit ''slot'') (lit ''pub'')) = Some (Inr (), tr)"
  by (simp add: subscribe_def transport_connect_def transport_init_def wrap_operational_def
      create_slot_if_missing_def start_replication_def create_slot_command_def start_replication_command_def
      format_lsn_def hex_upper_def radix.simps digit_upper_def str_encode_def is_scalar_def with_pgconn_def
      run_command_def transport_flush_def flush_until_complete_def drain_result_def
      loop.simps wcatch_def flush_turn_def busy_turn_def result_turn_def is_copy_status_def demo_copy_def peer_simps)


text \<open>C22: the checkpoint database and the replication connection are not treated alike. When the
  connection to the checkpoint database fails, which by default is the server being reconnected to,
  \<open>load\<close> raises psycopg's \<open>OperationalError\<close>, and \<open>run\<close> ends with it instead of waiting; the same
  failure of the replication connection is a connection error, after which \<open>run\<close> sleeps and tries
  again. So a server that is still down at the first attempt to reconnect ends \<open>run\<close>.\<close>

theorem checkpoint_outage_ends_run:
  assumes "pg_acquire P (snd (ss_store s)) = (Inl (OperationalError m), d)"
    and "sys_phase sys = Connecting" and "sys_client sys = ss_client s" and "\<not> cl_closing (ss_client s)"
  shows "(\<exists>s' sys'. open_session u P make_conninfo open_connection pg now s = Some (Inl (OperationalError m), s')
        \<and> walbox_run [Load (Some (OperationalError m))] sys = Some sys'
        \<and> sys_phase sys' = phase.Ended (Some (OperationalError m)))
    \<and> (\<forall>lsn st. checkpoint_load u P2 (ss_store s) = (Inr lsn, st) \<longrightarrow>
         (\<exists>e s' sys'. open_session u P2 (\<lambda>dsn. Inr dsn) (\<lambda>dsn. Inl (OperationalError m)) pg now s = Some (Inl e, s')
           \<and> walbox_run [Load None, SetUp (Some e) now] sys = Some sys' \<and> sys_phase sys' = Sleeping))"
proof (intro conjI allI impI)
  have "checkpoint_load u P (ss_store s) = (Inl (OperationalError m), (fst (ss_store s), d))"
    using assms(1)
    by (cases "ss_store s") (simp add: checkpoint_load_def with_connection_def abind_def on_db_def)
  then show "\<exists>s' sys'. open_session u P make_conninfo open_connection pg now s = Some (Inl (OperationalError m), s')
      \<and> walbox_run [Load (Some (OperationalError m))] sys = Some sys'
      \<and> sys_phase sys' = phase.Ended (Some (OperationalError m))"
    using setup_load_raises [OF assms(2)] by (simp add: open_session_eq run_catches_phase after_error_def)
  fix lsn st
  assume load: "checkpoint_load u P2 (ss_store s) = (Inr lsn, st)"
  obtain start_lsn c where start: "session_load lsn (ss_client s) = (start_lsn, c)" by fastforce
  obtain start2 c2 where begin_at: "session_load (st_committed (sys_store sys)) (sys_client sys) = (start2, c2)" by fastforce
  have "\<not> cl_closing c2"
    using begin_at assms(3,4) by (auto simp: session_load_def split: option.splits)
  moreover obtain e tr where
    "subscribe (\<lambda>dsn. Inr dsn) (\<lambda>dsn. Inl (OperationalError m)) pg start_lsn (new_transport c) = Some (Inl e, tr)"
    "is_connection_error e"
    by (simp add: subscribe_def transport_connect_def wrap_operational_def connection_error_def)
  ultimately show "\<exists>e s' sys'. open_session u P2 (\<lambda>dsn. Inr dsn) (\<lambda>dsn. Inl (OperationalError m)) pg now s = Some (Inl e, s')
           \<and> walbox_run [Load None, SetUp (Some e) now] sys = Some sys' \<and> sys_phase sys' = Sleeping"
    using load start setup_subscribe(1) [OF assms(2) begin_at, of e now]
    by (auto simp: open_session_eq run_catches_phase after_error_def simp del: walbox_run.simps)
qed

definition mini_down :: "(mini, nat) pg_client" where
  "mini_down = mini_client\<lparr>pg_acquire := \<lambda>d. (Inl (OperationalError (lit ''down'')), d)\<rparr>"

theorem checkpoint_outage_ends_run_witness:
  "\<forall>u. \<exists>s' sys'. open_session u mini_down (\<lambda>dsn. Inr dsn) (\<lambda>dsn. Inr (peer_with [] [])) peer_pgconn 0 demo_session
      = Some (Inl (OperationalError (lit ''down'')), s')
    \<and> walbox_run [Load (Some (OperationalError (lit ''down'')))] demo_start = Some sys'
    \<and> sys_phase sys' = phase.Ended (Some (OperationalError (lit ''down'')))"
proof -
  have down: "pg_acquire mini_down (snd (ss_store demo_session)) = (Inl (OperationalError (lit ''down'')), mini_init [])"
    by (simp add: mini_down_def demo_session_def)
  have start: "sys_phase demo_start = Connecting" "sys_client demo_start = ss_client demo_session"
    "\<not> cl_closing (ss_client demo_session)"
    by (simp_all add: demo_start_def run_start_def loop_head_def client_init_def demo_session_def)
  show ?thesis
    using checkpoint_outage_ends_run [OF down start, of _ "\<lambda>dsn. Inr dsn" "\<lambda>dsn. Inr (peer_with [] [])" peer_pgconn 0]
    by blast
qed

end
