(* ===== verification/Socket_Waits.thy ===== *)
theory Socket_Waits
  imports Walbox_Prelude
begin

text \<open>
  How the client waits for the socket: \<open>_wait_readable\<close> and \<open>_wait_writable\<close> of \<open>transport.py\<close> register a
  callback with the event loop and wait for its future; \<open>read\<close> waits so while \<open>_await_with_status_updates\<close>
  of \<open>client.py\<close> sends status updates, whose \<open>write\<close> waits as well, and whose flush races both waits. An
  event is a turn of one of the coroutines, or the socket becoming ready. \<open>Transport\<close> has what the calls
  between the waits do; here is only what becomes of the registrations.
\<close>

section \<open>The event loop\<close>

text \<open>
  The callbacks by file descriptor, each with the future it resolves; the futures that have a result; the
  next new future. \<open>add_reader\<close> replaces the callback there is.
\<close>

record event_loop =
  el_readers :: "(int \<times> nat) list"
  el_writers :: "(int \<times> nat) list"
  el_resolved :: "nat list"
  el_next :: nat

definition loop_init :: event_loop where
  "loop_init = \<lparr>el_readers = [], el_writers = [], el_resolved = [], el_next = 0\<rparr>"

definition add_reader :: "int \<Rightarrow> nat \<Rightarrow> event_loop \<Rightarrow> event_loop" where
  "add_reader fd fut l = l\<lparr>el_readers := AList.update fd fut (el_readers l)\<rparr>"

definition remove_reader :: "int \<Rightarrow> event_loop \<Rightarrow> event_loop" where
  "remove_reader fd l = l\<lparr>el_readers := AList.delete fd (el_readers l)\<rparr>"

definition add_writer :: "int \<Rightarrow> nat \<Rightarrow> event_loop \<Rightarrow> event_loop" where
  "add_writer fd fut l = l\<lparr>el_writers := AList.update fd fut (el_writers l)\<rparr>"

definition remove_writer :: "int \<Rightarrow> event_loop \<Rightarrow> event_loop" where
  "remove_writer fd l = l\<lparr>el_writers := AList.delete fd (el_writers l)\<rparr>"

text \<open>The socket is ready: the callback resolves its future, unless that is done.\<close>

definition run_callback :: "nat option \<Rightarrow> event_loop \<Rightarrow> event_loop" where
  "run_callback fut l = (case fut of None \<Rightarrow> l | Some f \<Rightarrow> l\<lparr>el_resolved := List.insert f (el_resolved l)\<rparr>)"

text \<open>The beginning of \<open>_wait_readable\<close> and \<open>_wait_writable\<close>, up to \<open>await future\<close>.\<close>

definition wait_readable :: "int \<Rightarrow> event_loop \<Rightarrow> nat \<times> event_loop" where
  "wait_readable fd l = (el_next l, add_reader fd (el_next l) (l\<lparr>el_next := el_next l + 1\<rparr>))"

definition wait_writable :: "int \<Rightarrow> event_loop \<Rightarrow> nat \<times> event_loop" where
  "wait_writable fd l = (el_next l, add_writer fd (el_next l) (l\<lparr>el_next := el_next l + 1\<rparr>))"


section \<open>The coroutines\<close>

text \<open>
  The task of \<open>transport.read()\<close>: not begun, in \<open>_wait_readable\<close>, there with a cancellation on its way,
  or over, with a result or cancelled. A task of the race in \<open>_flush_until_complete\<close>. Where
  \<open>_await_with_status_updates\<close> is: in \<open>asyncio.wait\<close>; in the \<open>write\<close> of a status update, waiting to put or
  racing both waits, the winner known or not; the same while it is being left; in its \<open>finally\<close>; left.
\<close>

datatype read_task = Read_begins | Read_waits nat | Read_cancelled nat | Read_over bool

datatype race_task = Race_begins | Race_waits nat | Race_cancelled nat | Race_over

datatype await_at =
    In_wait
  | Putting nat
  | Racing race_task race_task bool
  | Abandoning race_task race_task
  | Leaving
  | Left

record socket_waits =
  sw_fd :: int
  sw_loop :: event_loop
  sw_read :: read_task
  sw_await :: await_at

text \<open>
  What libpq answers is in the events: whether a row (or an error) was there, whether the payload was
  taken, whether the flush was complete.
\<close>

datatype wait_event =
    Socket_readable
  | Socket_writable
  | Read_turn bool
  | Update_due bool bool
  | Put_turn bool bool
  | Race_readable_turn
  | Race_writable_turn
  | Race_decided
  | Race_ends bool
  | Result_taken
  | Stopped
  | Abandoned
  | Cleaned_up

text \<open>\<open>_read_until_complete\<close> from \<open>get_copy_data\<close> to the next wait.\<close>

definition read_goes_on :: "bool \<Rightarrow> socket_waits \<Rightarrow> socket_waits" where
  "read_goes_on row s =
     (if row then s\<lparr>sw_read := Read_over True\<rparr>
      else case wait_readable (sw_fd s) (sw_loop s) of (fut, l) \<Rightarrow> s\<lparr>sw_loop := l, sw_read := Read_waits fut\<rparr>)"

definition read_task_turn :: "bool \<Rightarrow> socket_waits \<Rightarrow> socket_waits option" where
  "read_task_turn row s =
     (case sw_read s of
        Read_begins \<Rightarrow> Some (read_goes_on row s)
      | Read_waits fut \<Rightarrow>
          if fut \<in> set (el_resolved (sw_loop s))
          then Some (read_goes_on row (s\<lparr>sw_loop := remove_reader (sw_fd s) (sw_loop s)\<rparr>))
          else None
      | Read_cancelled fut \<Rightarrow>
          Some (s\<lparr>sw_loop := remove_reader (sw_fd s) (sw_loop s), sw_read := Read_over False\<rparr>)
      | Read_over _ \<Rightarrow> None)"

text \<open>\<open>write\<close> from \<open>put_copy_data\<close>, and \<open>_flush_until_complete\<close> from \<open>flush\<close>, to the next wait.\<close>

definition flush_goes_on :: "bool \<Rightarrow> socket_waits \<Rightarrow> socket_waits" where
  "flush_goes_on complete s =
     (if complete then s\<lparr>sw_await := In_wait\<rparr> else s\<lparr>sw_await := Racing Race_begins Race_begins False\<rparr>)"

definition put_goes_on :: "bool \<Rightarrow> bool \<Rightarrow> socket_waits \<Rightarrow> socket_waits" where
  "put_goes_on taken complete s =
     (if taken then flush_goes_on complete s
      else case wait_writable (sw_fd s) (sw_loop s) of (fut, l) \<Rightarrow> s\<lparr>sw_loop := l, sw_await := Putting fut\<rparr>)"

text \<open>A turn of one of the racing tasks, given how its wait begins and ends.\<close>

definition race_turn ::
    "(event_loop \<Rightarrow> nat \<times> event_loop) \<Rightarrow> (event_loop \<Rightarrow> event_loop) \<Rightarrow> race_task \<Rightarrow> event_loop
      \<Rightarrow> (race_task \<times> event_loop) option" where
  "race_turn begins ends task l =
     (case task of
        Race_begins \<Rightarrow> (case begins l of (fut, l') \<Rightarrow> Some (Race_waits fut, l'))
      | Race_waits fut \<Rightarrow> if fut \<in> set (el_resolved l) then Some (Race_over, ends l) else None
      | Race_cancelled fut \<Rightarrow> Some (Race_over, ends l)
      | Race_over \<Rightarrow> None)"

definition cancel_race :: "race_task \<Rightarrow> race_task" where
  "cancel_race task = (case task of Race_begins \<Rightarrow> Race_over | Race_waits fut \<Rightarrow> Race_cancelled fut | _ \<Rightarrow> task)"

definition cancel_read :: "read_task \<Rightarrow> read_task" where
  "cancel_read task = (case task of Read_begins \<Rightarrow> Read_over False | Read_waits fut \<Rightarrow> Read_cancelled fut | _ \<Rightarrow> task)"

definition leave_await :: "socket_waits \<Rightarrow> socket_waits" where
  "leave_await s = s\<lparr>sw_read := cancel_read (sw_read s), sw_await := Leaving\<rparr>"

text \<open>The two tasks of a race take their turns whether the race is on or being abandoned.\<close>

definition readable_turn :: "socket_waits \<Rightarrow> race_task \<Rightarrow> (race_task \<Rightarrow> await_at) \<Rightarrow> socket_waits option" where
  "readable_turn s task pos =
     map_option (\<lambda>(task', l). s\<lparr>sw_loop := l, sw_await := pos task'\<rparr>)
       (race_turn (wait_readable (sw_fd s)) (remove_reader (sw_fd s)) task (sw_loop s))"

definition writable_turn :: "socket_waits \<Rightarrow> race_task \<Rightarrow> (race_task \<Rightarrow> await_at) \<Rightarrow> socket_waits option" where
  "writable_turn s task pos =
     map_option (\<lambda>(task', l). s\<lparr>sw_loop := l, sw_await := pos task'\<rparr>)
       (race_turn (wait_writable (sw_fd s)) (remove_writer (sw_fd s)) task (sw_loop s))"

text \<open>
  \<open>Stopped\<close> is whatever makes the coroutine leave before the read is over, wherever it is: the
  \<open>QueueShutDown\<close> after \<open>close\<close>, an exception of the status update, or a cancellation from outside.
\<close>

definition wait_step :: "wait_event \<Rightarrow> socket_waits \<Rightarrow> socket_waits option" where
  "wait_step ev s =
     (case ev of
        Socket_readable \<Rightarrow> Some (s\<lparr>sw_loop := run_callback (map_of (el_readers (sw_loop s)) (sw_fd s)) (sw_loop s)\<rparr>)
      | Socket_writable \<Rightarrow> Some (s\<lparr>sw_loop := run_callback (map_of (el_writers (sw_loop s)) (sw_fd s)) (sw_loop s)\<rparr>)
      | Read_turn row \<Rightarrow> read_task_turn row s
      | Update_due taken complete \<Rightarrow>
          if sw_await s = In_wait \<and> (\<forall>b. sw_read s \<noteq> Read_over b) then Some (put_goes_on taken complete s) else None
      | Put_turn taken complete \<Rightarrow>
          (case sw_await s of
             Putting fut \<Rightarrow>
               if fut \<in> set (el_resolved (sw_loop s))
               then Some (put_goes_on taken complete (s\<lparr>sw_loop := remove_writer (sw_fd s) (sw_loop s)\<rparr>))
               else None
           | _ \<Rightarrow> None)
      | Race_readable_turn \<Rightarrow>
          (case sw_await s of
             Racing r w d \<Rightarrow> readable_turn s r (\<lambda>r. Racing r w d)
           | Abandoning r w \<Rightarrow> readable_turn s r (\<lambda>r. Abandoning r w)
           | _ \<Rightarrow> None)
      | Race_writable_turn \<Rightarrow>
          (case sw_await s of
             Racing r w d \<Rightarrow> writable_turn s w (\<lambda>w. Racing r w d)
           | Abandoning r w \<Rightarrow> writable_turn s w (\<lambda>w. Abandoning r w)
           | _ \<Rightarrow> None)
      | Race_decided \<Rightarrow>
          (case sw_await s of
             Racing r w False \<Rightarrow>
               if r = Race_over \<or> w = Race_over
               then Some (s\<lparr>sw_await := Racing (cancel_race r) (cancel_race w) True\<rparr>) else None
           | _ \<Rightarrow> None)
      | Race_ends complete \<Rightarrow>
          (case sw_await s of
             Racing Race_over Race_over True \<Rightarrow> Some (flush_goes_on complete s)
           | _ \<Rightarrow> None)
      | Result_taken \<Rightarrow>
          if sw_await s = In_wait \<and> sw_read s = Read_over True then Some (s\<lparr>sw_await := Left\<rparr>) else None
      | Stopped \<Rightarrow>
          (case sw_await s of
             In_wait \<Rightarrow> Some (leave_await s)
           | Putting fut \<Rightarrow> Some (leave_await (s\<lparr>sw_loop := remove_writer (sw_fd s) (sw_loop s)\<rparr>))
           | Racing r w _ \<Rightarrow> Some (s\<lparr>sw_await := Abandoning (cancel_race r) (cancel_race w)\<rparr>)
           | _ \<Rightarrow> None)
      | Abandoned \<Rightarrow>
          (case sw_await s of Abandoning Race_over Race_over \<Rightarrow> Some (leave_await s) | _ \<Rightarrow> None)
      | Cleaned_up \<Rightarrow>
          (case (sw_await s, sw_read s) of (Leaving, Read_over _) \<Rightarrow> Some (s\<lparr>sw_await := Left\<rparr>) | _ \<Rightarrow> None))"

fun wait_run :: "wait_event list \<Rightarrow> socket_waits \<Rightarrow> socket_waits option" where
  "wait_run [] s = Some s"
| "wait_run (ev # evs) s = Option.bind (wait_step ev s) (wait_run evs)"

text \<open>The coroutine has just made a task of \<open>transport.read()\<close>; nothing is registered for the socket.\<close>

definition wait_start :: "int \<Rightarrow> socket_waits" where
  "wait_start fd = \<lparr>sw_fd = fd, sw_loop = loop_init, sw_read = Read_begins, sw_await = In_wait\<rparr>"

section \<open>Registrations\<close>

lemmas loop_defs = add_reader_def remove_reader_def add_writer_def remove_writer_def wait_readable_def wait_writable_def

lemmas turn_defs = wait_step_def read_task_turn_def read_goes_on_def put_goes_on_def flush_goes_on_def race_turn_def
  readable_turn_def writable_turn_def leave_await_def cancel_read_def cancel_race_def run_callback_def

text \<open>Which tasks are between the beginning and the end of a wait, and what they may have registered.\<close>

fun race_holds :: "race_task \<Rightarrow> bool" where
  "race_holds (Race_waits fut) = True"
| "race_holds (Race_cancelled fut) = True"
| "race_holds _ = False"

fun read_holds :: "read_task \<Rightarrow> bool" where
  "read_holds (Read_waits fut) = True"
| "read_holds (Read_cancelled fut) = True"
| "read_holds _ = False"

definition holds_reader :: "socket_waits \<Rightarrow> bool" where
  "holds_reader s =
     (read_holds (sw_read s)
      \<or> (case sw_await s of Racing r w d \<Rightarrow> race_holds r | Abandoning r w \<Rightarrow> race_holds r | _ \<Rightarrow> False))"

definition holds_writer :: "socket_waits \<Rightarrow> bool" where
  "holds_writer s =
     (case sw_await s of Putting fut \<Rightarrow> True | Racing r w d \<Rightarrow> race_holds w | Abandoning r w \<Rightarrow> race_holds w | _ \<Rightarrow> False)"

definition reader_fds :: "event_loop \<Rightarrow> int set" where
  "reader_fds l = fst ` set (el_readers l)"

definition writer_fds :: "event_loop \<Rightarrow> int set" where
  "writer_fds l = fst ` set (el_writers l)"

lemma keys_update: "fst ` set (AList.update k v xs) = insert k (fst ` set xs)"
  using dom_update [of k v xs] by (simp add: dom_map_of_conv_image_fst)

lemma keys_delete: "fst ` set (AList.delete k xs) = fst ` set xs - {k}"
  by (metis delete_keys list.set_map set_removeAll)

lemma fds_simps [simp]:
  "reader_fds (add_reader fd fut l) = insert fd (reader_fds l)" "writer_fds (add_reader fd fut l) = writer_fds l"
  "reader_fds (remove_reader fd l) = reader_fds l - {fd}" "writer_fds (remove_reader fd l) = writer_fds l"
  "reader_fds (add_writer fd fut l) = reader_fds l" "writer_fds (add_writer fd fut l) = insert fd (writer_fds l)"
  "reader_fds (remove_writer fd l) = reader_fds l" "writer_fds (remove_writer fd l) = writer_fds l - {fd}"
  "reader_fds (run_callback f l) = reader_fds l" "writer_fds (run_callback f l) = writer_fds l"
  "reader_fds (l\<lparr>el_next := n\<rparr>) = reader_fds l" "writer_fds (l\<lparr>el_next := n\<rparr>) = writer_fds l"
  by (simp_all add: reader_fds_def writer_fds_def loop_defs run_callback_def keys_update keys_delete split: option.split)

definition only_held :: "socket_waits \<Rightarrow> bool" where
  "only_held s =
     (reader_fds (sw_loop s) \<subseteq> {sw_fd s} \<and> writer_fds (sw_loop s) \<subseteq> {sw_fd s}
      \<and> (sw_await s = Left \<longrightarrow> (\<exists>b. sw_read s = Read_over b))
      \<and> (holds_reader s \<or> reader_fds (sw_loop s) = {}) \<and> (holds_writer s \<or> writer_fds (sw_loop s) = {}))"

lemmas held_defs = only_held_def holds_reader_def holds_writer_def

lemma only_held_read: "only_held s \<Longrightarrow> read_task_turn row s = Some s' \<Longrightarrow> only_held s'"
  by (cases "sw_read s"; cases row)
    (auto simp: held_defs read_task_turn_def read_goes_on_def wait_readable_def split: if_splits)

lemma only_held_put:
  assumes "reader_fds (sw_loop s) \<subseteq> {sw_fd s}" and "read_holds (sw_read s) \<or> reader_fds (sw_loop s) = {}"
    and "writer_fds (sw_loop s) = {}"
  shows "only_held (put_goes_on taken complete s)"
  using assms
  by (cases taken; cases complete) (auto simp: held_defs put_goes_on_def flush_goes_on_def wait_writable_def)

lemma race_readable_held:
  assumes "race_turn (wait_readable fd) (remove_reader fd) task l = Some (task', l')"
  shows "reader_fds l' \<subseteq> insert fd (reader_fds l) \<and> writer_fds l' = writer_fds l
    \<and> (race_holds task' \<or> reader_fds l' = reader_fds l - {fd})"
  using assms by (cases task) (auto simp: race_turn_def wait_readable_def split: if_splits)

lemma race_writable_held:
  assumes "race_turn (wait_writable fd) (remove_writer fd) task l = Some (task', l')"
  shows "writer_fds l' \<subseteq> insert fd (writer_fds l) \<and> reader_fds l' = reader_fds l
    \<and> (race_holds task' \<or> writer_fds l' = writer_fds l - {fd})"
  using assms by (cases task) (auto simp: race_turn_def wait_writable_def split: if_splits)

lemma cancel_holds [simp]: "race_holds (cancel_race task) = race_holds task" "read_holds (cancel_read rt) = read_holds rt"
  by (cases task; simp add: cancel_race_def) (cases rt; simp add: cancel_read_def)

lemma only_held_step:
  assumes "only_held s" and "wait_step ev s = Some s'"
  shows "only_held s'"
proof (cases ev)
  case (Read_turn row)
  with assms only_held_read show ?thesis by (simp add: wait_step_def)
next
  case (Update_due taken complete)
  with assms(2) have due: "sw_await s = In_wait" "s' = put_goes_on taken complete s"
    by (auto simp: wait_step_def split: if_splits)
  with assms(1) show ?thesis unfolding due(2) by (intro only_held_put) (auto simp: held_defs)
next
  case (Put_turn taken complete)
  with assms(2) obtain fut where put: "sw_await s = Putting fut"
    "s' = put_goes_on taken complete (s\<lparr>sw_loop := remove_writer (sw_fd s) (sw_loop s)\<rparr>)"
    by (auto simp: wait_step_def split: await_at.splits if_splits)
  with assms(1) show ?thesis unfolding put(2) by (intro only_held_put) (auto simp: held_defs)
next
  case Race_readable_turn
  show ?thesis
  proof (cases "sw_await s")
    case (Racing r w d)
    with Race_readable_turn assms(2) obtain x l where turn: "race_turn (wait_readable (sw_fd s)) (remove_reader (sw_fd s)) r (sw_loop s) = Some (x, l)"
      "s' = s\<lparr>sw_loop := l, sw_await := Racing x w d\<rparr>"
      by (auto simp: wait_step_def readable_turn_def)
    from race_readable_held [OF turn(1)] assms(1) Racing show ?thesis unfolding turn(2) by (cases "race_holds x") (auto simp: held_defs)
  next
    case (Abandoning r w)
    with Race_readable_turn assms(2) obtain x l where turn: "race_turn (wait_readable (sw_fd s)) (remove_reader (sw_fd s)) r (sw_loop s) = Some (x, l)"
      "s' = s\<lparr>sw_loop := l, sw_await := Abandoning x w\<rparr>"
      by (auto simp: wait_step_def readable_turn_def)
    from race_readable_held [OF turn(1)] assms(1) Abandoning show ?thesis unfolding turn(2) by (cases "race_holds x") (auto simp: held_defs)
  qed (use assms(2) Race_readable_turn in \<open>simp_all add: wait_step_def\<close>)
next
  case Race_writable_turn
  show ?thesis
  proof (cases "sw_await s")
    case (Racing r w d)
    with Race_writable_turn assms(2) obtain x l where turn: "race_turn (wait_writable (sw_fd s)) (remove_writer (sw_fd s)) w (sw_loop s) = Some (x, l)"
      "s' = s\<lparr>sw_loop := l, sw_await := Racing r x d\<rparr>"
      by (auto simp: wait_step_def writable_turn_def)
    from race_writable_held [OF turn(1)] assms(1) Racing show ?thesis unfolding turn(2) by (cases "race_holds x") (auto simp: held_defs)
  next
    case (Abandoning r w)
    with Race_writable_turn assms(2) obtain x l where turn: "race_turn (wait_writable (sw_fd s)) (remove_writer (sw_fd s)) w (sw_loop s) = Some (x, l)"
      "s' = s\<lparr>sw_loop := l, sw_await := Abandoning r x\<rparr>"
      by (auto simp: wait_step_def writable_turn_def)
    from race_writable_held [OF turn(1)] assms(1) Abandoning show ?thesis unfolding turn(2) by (cases "race_holds x") (auto simp: held_defs)
  qed (use assms(2) Race_writable_turn in \<open>simp_all add: wait_step_def\<close>)
next
  case Race_decided
  with assms show ?thesis by (auto simp: wait_step_def held_defs split: await_at.splits bool.splits if_splits)
next
  case (Race_ends complete)
  with assms show ?thesis
    by (cases complete) (auto simp: wait_step_def flush_goes_on_def held_defs split: await_at.splits race_task.splits bool.splits)
next
  case Stopped
  with assms show ?thesis by (auto simp: wait_step_def leave_await_def held_defs split: await_at.splits)
next
  case Abandoned
  with assms show ?thesis
    by (auto simp: wait_step_def leave_await_def held_defs split: await_at.splits race_task.splits)
next
  case Cleaned_up
  with assms show ?thesis by (auto simp: wait_step_def held_defs split: await_at.splits read_task.splits prod.splits)
qed (use assms in \<open>auto simp: wait_step_def held_defs split: if_splits\<close>)

lemma only_held_run: "only_held s \<Longrightarrow> wait_run evs s = Some s' \<Longrightarrow> only_held s'"
  by (induction evs arbitrary: s) (auto simp: bind_eq_Some_conv dest: only_held_step)

text \<open>A waiting read is woken: its future is resolved already, or will be when the socket is readable.\<close>

definition woken :: "socket_waits \<Rightarrow> bool" where
  "woken s =
     (case sw_read s of
        Read_waits fut \<Rightarrow> fut \<in> set (el_resolved (sw_loop s)) \<or> map_of (el_readers (sw_loop s)) (sw_fd s) = Some fut
      | _ \<Rightarrow> True)"

text \<open>As long as every flush is complete at once, there is no race.\<close>

definition flush_at_once :: "wait_event \<Rightarrow> bool" where
  "flush_at_once ev =
     (case ev of
        Update_due taken complete \<Rightarrow> complete
      | Put_turn taken complete \<Rightarrow> complete
      | _ \<Rightarrow> True)"

definition no_race :: "socket_waits \<Rightarrow> bool" where
  "no_race s = (case sw_await s of Racing r w d \<Rightarrow> False | Abandoning r w \<Rightarrow> False | _ \<Rightarrow> True)"

lemma woken_put: "woken s \<Longrightarrow> woken (put_goes_on taken True s) \<and> no_race (put_goes_on taken True s)"
  by (auto simp: woken_def no_race_def put_goes_on_def flush_goes_on_def wait_writable_def add_writer_def split: read_task.splits)

lemma woken_step:
  assumes "woken s \<and> no_race s" and "flush_at_once ev" and "wait_step ev s = Some s'"
  shows "woken s' \<and> no_race s'"
proof (cases ev)
  case (Read_turn row)
  with assms show ?thesis
    by (cases row; cases "sw_read s")
      (auto simp: wait_step_def read_task_turn_def read_goes_on_def wait_readable_def add_reader_def woken_def no_race_def split: if_splits)
next
  case (Update_due taken complete)
  with assms woken_put [of s taken] show ?thesis by (auto simp: wait_step_def flush_at_once_def split: if_splits)
next
  case (Put_turn taken complete)
  with assms(2,3) have "s' = put_goes_on taken True (s\<lparr>sw_loop := remove_writer (sw_fd s) (sw_loop s)\<rparr>)"
    by (auto simp: wait_step_def flush_at_once_def split: await_at.splits if_splits)
  moreover have "woken (s\<lparr>sw_loop := remove_writer (sw_fd s) (sw_loop s)\<rparr>)"
    using assms(1) by (auto simp: woken_def remove_writer_def split: read_task.splits)
  ultimately show ?thesis using woken_put by simp
next
  case Stopped
  with assms show ?thesis
    by (cases "sw_read s")
      (auto simp: wait_step_def leave_await_def cancel_read_def woken_def no_race_def split: await_at.splits)
next
  case Socket_readable
  with assms show ?thesis by (auto simp: wait_step_def woken_def no_race_def run_callback_def split: read_task.splits option.splits)
next
  case Socket_writable
  with assms show ?thesis by (auto simp: wait_step_def woken_def no_race_def run_callback_def split: read_task.splits option.splits)
next
  case Result_taken
  with assms show ?thesis by (auto simp: wait_step_def woken_def no_race_def split: if_splits)
next
  case Cleaned_up
  with assms show ?thesis by (auto simp: wait_step_def woken_def no_race_def split: await_at.splits read_task.splits)
qed (use assms in \<open>auto simp: wait_step_def no_race_def split: await_at.splits\<close>)

lemma woken_run:
  "woken s \<and> no_race s \<Longrightarrow> list_all flush_at_once evs \<Longrightarrow> wait_run evs s = Some s' \<Longrightarrow> woken s'"
proof (induction evs arbitrary: s)
  case (Cons ev evs)
  then obtain s1 where "wait_step ev s = Some s1" "wait_run evs s1 = Some s'" by (auto simp: bind_eq_Some_conv)
  with Cons woken_step [of s ev s1] show ?case by simp
qed simp

lemma woken_goes_on:
  "woken s \<Longrightarrow> sw_read s = Read_waits fut \<Longrightarrow> \<exists>s'. wait_run [Socket_readable, Read_turn row] s = Some s'"
  by (auto simp: woken_def wait_step_def read_task_turn_def run_callback_def split: option.split)


section \<open>A lost wake-up\<close>

text \<open>A future that nothing will resolve, and a read that waits for it while updates go on.\<close>

definition unnamed :: "nat \<Rightarrow> event_loop \<Rightarrow> bool" where
  "unnamed fut l =
     (fut \<notin> set (el_resolved l) \<and> fut < el_next l \<and> fut \<notin> snd ` set (el_readers l) \<and> fut \<notin> snd ` set (el_writers l))"

definition lost :: "nat \<Rightarrow> socket_waits \<Rightarrow> bool" where
  "lost fut s =
     (sw_read s = Read_waits fut \<and> unnamed fut (sw_loop s)
      \<and> (case sw_await s of In_wait \<Rightarrow> True | Putting _ \<Rightarrow> True | Racing _ _ _ \<Rightarrow> True | _ \<Rightarrow> False))"

lemma values_update: "v \<in> snd ` set (AList.update k x xs) \<Longrightarrow> v = x \<or> v \<in> snd ` set xs"
  by (induction xs) (auto split: if_splits)

lemma values_delete: "v \<in> snd ` set (AList.delete k xs) \<Longrightarrow> v \<in> snd ` set xs"
  by (auto simp: AList.delete_eq)

lemma unnamed_simps:
  "unnamed fut l \<Longrightarrow> unnamed fut (snd (wait_readable fd l))" "unnamed fut l \<Longrightarrow> unnamed fut (snd (wait_writable fd l))"
  "unnamed fut l \<Longrightarrow> unnamed fut (remove_reader fd l)" "unnamed fut l \<Longrightarrow> unnamed fut (remove_writer fd l)"
  by (auto simp: unnamed_def loop_defs dest!: values_update values_delete)

lemma unnamed_callback:
  "unnamed fut l \<Longrightarrow> unnamed fut (run_callback (map_of (el_readers l) fd) l)"
  "unnamed fut l \<Longrightarrow> unnamed fut (run_callback (map_of (el_writers l) fd) l)"
  by (force simp: unnamed_def run_callback_def split: option.splits dest: map_of_SomeD)+

lemma lost_put: "lost fut s \<Longrightarrow> lost fut (put_goes_on taken complete s)"
  using unnamed_simps(2) [of fut "sw_loop s" "sw_fd s"]
  by (cases taken; cases complete) (auto simp: lost_def put_goes_on_def flush_goes_on_def split: prod.splits)

lemma lost_race:
  assumes "race_turn begins ends task l = Some (task', l')" and "unnamed fut l"
    and "unnamed fut l \<Longrightarrow> unnamed fut (snd (begins l))" and "unnamed fut l \<Longrightarrow> unnamed fut (ends l)"
  shows "unnamed fut l'"
  using assms by (cases task) (auto simp: race_turn_def split: prod.splits if_splits)

lemma lost_step:
  assumes "lost fut s" and "ev \<noteq> Stopped" and "wait_step ev s = Some s'"
  shows "lost fut s'"
proof (cases ev)
  case Socket_readable
  with assms unnamed_callback(1) [of fut "sw_loop s" "sw_fd s"] show ?thesis by (auto simp: wait_step_def lost_def)
next
  case Socket_writable
  with assms unnamed_callback(2) [of fut "sw_loop s" "sw_fd s"] show ?thesis by (auto simp: wait_step_def lost_def)
next
  case (Read_turn row)
  with assms show ?thesis by (auto simp: wait_step_def read_task_turn_def lost_def unnamed_def)
next
  case (Update_due taken complete)
  with assms lost_put show ?thesis by (auto simp: wait_step_def split: if_splits)
next
  case (Put_turn taken complete)
  with assms(2,3) obtain k where put: "sw_await s = Putting k"
    "s' = put_goes_on taken complete (s\<lparr>sw_loop := remove_writer (sw_fd s) (sw_loop s)\<rparr>)"
    by (auto simp: wait_step_def split: await_at.splits if_splits)
  have "lost fut (s\<lparr>sw_loop := remove_writer (sw_fd s) (sw_loop s)\<rparr>)"
    using assms(1) put(1) unnamed_simps(4) by (simp add: lost_def)
  with put(2) lost_put show ?thesis by simp
next
  case Race_readable_turn
  with assms obtain r w d x l where turn: "sw_await s = Racing r w d" "s' = s\<lparr>sw_loop := l, sw_await := Racing x w d\<rparr>"
    "race_turn (wait_readable (sw_fd s)) (remove_reader (sw_fd s)) r (sw_loop s) = Some (x, l)"
    by (cases "sw_await s") (auto simp: wait_step_def readable_turn_def lost_def)
  from lost_race [OF turn(3), of fut] unnamed_simps(1,3) assms(1) turn(1,2) show ?thesis by (simp add: lost_def)
next
  case Race_writable_turn
  with assms obtain r w d x l where turn: "sw_await s = Racing r w d" "s' = s\<lparr>sw_loop := l, sw_await := Racing r x d\<rparr>"
    "race_turn (wait_writable (sw_fd s)) (remove_writer (sw_fd s)) w (sw_loop s) = Some (x, l)"
    by (cases "sw_await s") (auto simp: wait_step_def writable_turn_def lost_def)
  from lost_race [OF turn(3), of fut] unnamed_simps(2,4) assms(1) turn(1,2) show ?thesis by (simp add: lost_def)
next
  case Race_decided
  with assms show ?thesis by (auto simp: wait_step_def lost_def split: await_at.splits bool.splits if_splits)
next
  case (Race_ends complete)
  with assms show ?thesis
    by (cases complete) (auto simp: wait_step_def flush_goes_on_def lost_def split: await_at.splits race_task.splits bool.splits)
next
  case Result_taken
  with assms show ?thesis by (auto simp: wait_step_def lost_def split: if_splits)
next
  case Abandoned
  with assms show ?thesis by (auto simp: wait_step_def lost_def split: await_at.splits race_task.splits)
next
  case Cleaned_up
  with assms show ?thesis by (auto simp: wait_step_def lost_def split: await_at.splits)
qed (use assms(2) in simp)

lemma lost_run: "lost fut s \<Longrightarrow> Stopped \<notin> set evs \<Longrightarrow> wait_run evs s = Some s' \<Longrightarrow> sw_read s' = Read_waits fut"
proof (induction evs arbitrary: s)
  case (Cons ev evs)
  then obtain s1 where "wait_step ev s = Some s1" "wait_run evs s1 = Some s'" by (auto simp: bind_eq_Some_conv)
  with Cons lost_step [of fut s ev s1] show ?case by auto
qed (simp add: lost_def)

text \<open>
  The read waits; a status update falls due and is taken, but the flush has to wait; the socket becomes
  writable, the race is over, its other half is cancelled, and the flush is complete.
\<close>

definition lost_wakeup :: "wait_event list" where
  "lost_wakeup =
     [Read_turn False, Update_due True False, Race_readable_turn, Race_writable_turn, Socket_writable,
      Race_writable_turn, Race_decided, Race_readable_turn, Race_ends True]"

lemma lost_wakeup_run:
  "\<exists>s. wait_run lost_wakeup (wait_start fd) = Some s \<and> sw_await s = In_wait \<and> lost 0 s"
  by (simp add: lost_wakeup_def wait_start_def turn_defs loop_defs loop_init_def lost_def unnamed_def)


section \<open>Properties\<close>

text \<open>C10: what waiting for the socket does to the event loop. However the turns of the read, of the status
  updates and of a shutdown or cancellation are interleaved, once \<open>_await_with_status_updates\<close> is left, no
  callback is registered for the socket any more. As long as every flush is complete at once, a read that
  waits is woken by the next readable socket. But a flush that has to wait while the read waits takes the
  read's registration away: it registers a callback of its own for the same socket, which replaces the
  read's, and removes it at its end; after such a run, in which the update is sent and all is well otherwise,
  the read waits for ever, whatever arrives, until something makes the coroutine leave.\<close>

theorem flush_takes_the_reader_away:
  assumes "wait_run evs (wait_start fd) = Some s"
  shows "(sw_await s = Left \<longrightarrow> el_readers (sw_loop s) = [] \<and> el_writers (sw_loop s) = [])
    \<and> (list_all flush_at_once evs \<and> sw_read s = Read_waits fut \<longrightarrow>
         (\<forall>row. \<exists>s'. wait_run [Socket_readable, Read_turn row] s = Some s'))
    \<and> (\<exists>s fut. wait_run lost_wakeup (wait_start fd) = Some s \<and> sw_await s = In_wait
         \<and> (\<forall>evs s'. Stopped \<notin> set evs \<and> wait_run evs s = Some s' \<longrightarrow> sw_read s' = Read_waits fut))"
proof -
  have "only_held (wait_start fd)" "woken (wait_start fd) \<and> no_race (wait_start fd)"
    by (simp_all add: wait_start_def loop_init_def held_defs reader_fds_def writer_fds_def woken_def no_race_def)
  then have held: "only_held s" and awake: "list_all flush_at_once evs \<Longrightarrow> woken s"
    using assms by (auto intro: only_held_run woken_run)
  have "el_readers (sw_loop s) = [] \<and> el_writers (sw_loop s) = []" if "sw_await s = Left"
    using held that by (auto simp: held_defs reader_fds_def writer_fds_def)
  moreover have "\<forall>row. \<exists>s'. wait_run [Socket_readable, Read_turn row] s = Some s'"
    if "list_all flush_at_once evs" "sw_read s = Read_waits fut"
    using woken_goes_on [OF awake [OF that(1)] that(2)] by blast
  moreover from lost_wakeup_run [of fd] obtain l where "wait_run lost_wakeup (wait_start fd) = Some l" "sw_await l = In_wait" "lost 0 l"
    by blast
  ultimately show ?thesis using lost_run [of 0 l] by blast
qed

theorem flush_takes_the_reader_away_witness:
  "\<exists>s. wait_run [Read_turn False, Update_due True True, Stopped, Read_turn False, Cleaned_up] (wait_start 5) = Some s
    \<and> sw_await s = Left \<and> el_readers (sw_loop s) = [] \<and> el_writers (sw_loop s) = []"
proof -
  obtain s where s: "wait_run [Read_turn False, Update_due True True, Stopped, Read_turn False, Cleaned_up] (wait_start 5) = Some s"
    "sw_await s = Left"
    by (simp add: wait_start_def turn_defs loop_defs loop_init_def)
  from flush_takes_the_reader_away [OF s(1), of 0] s show ?thesis by blast
qed

end
