(* ===== verification/Example_Handlers.thy ===== *)
theory Example_Handlers
  imports Abc Py_Bytes
begin

text \<open>
  What the example applications under \<open>src/examples/\<close> share: which changes their handlers act on, the
  payload they take from a change, and what they read out of it.
\<close>

definition is_published_insert :: "change_event \<Rightarrow> bool" where
  "is_published_insert change =
     (chg_table change = lit ''public.published_table'' \<and> chg_kind change = INSERT)"

definition published_inserts :: "transaction \<Rightarrow> change_event list" where
  "published_inserts t = filter is_published_insert (tx_changes t)"

text \<open>\<open>payload[key]\<close>, where the payload is \<open>change.new\<close>\<close>

definition payload_item :: "row option \<Rightarrow> pystr \<Rightarrow> exn + pystr option" where
  "payload_item payload key =
     (case payload of
        None \<Rightarrow> Inl TypeError
      | Some row \<Rightarrow> of_option KeyError (map_of row key))"

end
