(* ===== verification/Example_Restarts.thy ===== *)
theory Example_Restarts
  imports Example_Handlers Builder
begin

text \<open>
  An application around a handler that is started again and again: what the example handlers are
  measured on. A process loads the checkpoint, is sent the transactions behind it, handles as many of
  them as it lives for, and ends at the first exception. The locale \<open>restarting\<close> is what a handler
  promises for one transaction, and has what follows of it for any number of processes.
\<close>

section \<open>An application\<close>

text \<open>
  What \<open>main\<close> of every example does up to \<open>client.run\<close>: the options, checked, and the client on a pool
  for the DSN of the environment.
\<close>

definition example_app ::
    "unicode_db \<Rightarrow> (pystr \<Rightarrow> pystr option) \<Rightarrow> (pystr \<Rightarrow> ('d, 'c) pg_client) \<Rightarrow> pystr \<Rightarrow> (metrics \<Rightarrow> exn option) option
      \<Rightarrow> exn + ('d, 'c) built" where
  "example_app u environ pool consumer_name on_metrics =
     rbind (of_option KeyError (environ (lit ''WALBOX_DSN''))) (\<lambda>dsn.
     rbind (options_post_init u
              ((default_options consumer_name dsn (lit ''published_table_slot'') (lit ''walbox_pub''))
                 \<lparr>opt_on_metrics := on_metrics\<rparr>)) (\<lambda>options.
       Inr (build_with_pool (pool dsn) options)))"

text \<open>It starts whenever the DSN is set and is not blank, for the consumer it names.\<close>

lemma example_app_starts:
  assumes "environ (lit ''WALBOX_DSN'') = Some dsn" and "\<not> blank u dsn"
    and "list_ex (\<lambda>c. 32 < c \<and> c < 127) consumer_name"
  shows "\<exists>app. example_app u environ pool consumer_name on_metrics = Inr app \<and> built_database app = pool dsn
    \<and> built_table app = configure consumer_name default_table"
proof -
  have blank: "\<not> blank u s" if "list_ex (\<lambda>c. 32 < c \<and> c < 127) s" for s
  proof -
    from that obtain c where "c \<in> set s" "\<not> is_space u c" by (auto simp: list_ex_iff is_space_def)
    then show ?thesis by (auto simp: blank_iff list_all_iff)
  qed
  have "\<not> blank u (lit ''published_table_slot'')" "\<not> blank u (lit ''walbox_pub'')"
    by (rule blank, simp add: lit_def)+
  with assms blank [OF assms(3)] show ?thesis
    by (simp add: example_app_def options_post_init_def default_options_def)
qed


section \<open>Processes that come and go\<close>

text \<open>A new process, built on the pool: where its session starts, and its client and store.\<close>

definition new_process ::
    "unicode_db \<Rightarrow> ('d, 'c) pg_client \<Rightarrow> walbox_options \<Rightarrow> (client \<times> checkpoint_table \<times> 'd, exn, int) action" where
  "new_process u P opts = (\<lambda>(_, (_, d)).
     let app = build_with_pool P opts in
     case checkpoint_load u P (built_table app, d) of
       (Inl e, (s, d')) \<Rightarrow> (Inl e, (built_client app, (s, d')))
     | (Inr lsn, (s, d')) \<Rightarrow>
         (case session_load lsn (built_client app) of (start, c) \<Rightarrow> (Inr start, (c, (s, d')))))"

text \<open>
  What PostgreSQL sends from a start position, of all the transactions it has; a process that handles
  one after the other; and processes one after the other, each given what the server sends as far as
  the process lives.
\<close>

definition resent :: "int \<Rightarrow> transaction list \<Rightarrow> transaction list" where
  "resent start wal = filter (\<lambda>t. start \<le> tx_commit_lsn t) wal"

fun serve :: "(transaction \<Rightarrow> ('w, exn, unit) action) \<Rightarrow> transaction list \<Rightarrow> 'w \<Rightarrow> 'w" where
  "serve handle [] w = w"
| "serve handle (t # ts) w = (case handle t w of (Inl _, w') \<Rightarrow> w' | (Inr _, w') \<Rightarrow> serve handle ts w')"

fun lives ::
    "('w, exn, int) action \<Rightarrow> (transaction \<Rightarrow> ('w, exn, unit) action) \<Rightarrow> transaction list \<Rightarrow> nat list \<Rightarrow> 'w \<Rightarrow> 'w" where
  "lives start_process handle wal [] w = w"
| "lives start_process handle wal (k # ks) w =
     (case start_process w of
        (Inl _, w') \<Rightarrow> lives start_process handle wal ks w'
      | (Inr start, w') \<Rightarrow> lives start_process handle wal ks (serve handle (take k (resent start wal)) w'))"

text \<open>Transactions in commit order, and the checkpoint after the first \<open>n\<close> of them.\<close>

definition in_commit_order :: "transaction list \<Rightarrow> bool" where
  "in_commit_order wal = (sorted_wrt (<) (map tx_commit_lsn wal) \<and> list_all (\<lambda>t. 0 \<le> tx_commit_lsn t) wal)"

definition checkpoint_after :: "transaction list \<Rightarrow> nat \<Rightarrow> int option" where
  "checkpoint_after wal n = (if n = 0 then None else Some (tx_commit_lsn (wal ! (n - 1))))"

lemma checkpoint_after_simps [simp]:
  "checkpoint_after wal 0 = None" "checkpoint_after wal (Suc n) = Some (tx_commit_lsn (wal ! n))"
  by (simp_all add: checkpoint_after_def)

definition start_after :: "transaction list \<Rightarrow> nat \<Rightarrow> int" where
  "start_after wal n = (case checkpoint_after wal n of None \<Rightarrow> 0 | Some lsn \<Rightarrow> lsn + 1)"

lemma resent_drop:
  assumes "in_commit_order wal" and "n \<le> length wal"
  shows "resent (start_after wal n) wal = drop n wal"
proof (cases n)
  case 0
  with assms(1) show ?thesis by (auto simp: resent_def start_after_def in_commit_order_def filter_id_conv list_all_iff)
next
  case (Suc k)
  have less: "tx_commit_lsn (wal ! i) < tx_commit_lsn (wal ! j)" if "i < j" "j < length wal" for i j
    using assms(1) that by (simp add: in_commit_order_def sorted_wrt_iff_nth_less)
  have "\<not> tx_commit_lsn (wal ! k) + 1 \<le> tx_commit_lsn t" if t: "t \<in> set (take n wal)" for t
  proof -
    obtain i where "i < n" "t = wal ! i" using t assms(2) by (auto simp: in_set_conv_nth)
    with less [of i k] Suc assms(2) show ?thesis by (cases "i = k") auto
  qed
  moreover have "tx_commit_lsn (wal ! k) + 1 \<le> tx_commit_lsn t" if t: "t \<in> set (drop n wal)" for t
  proof -
    obtain i where "i < length wal - n" "t = wal ! (n + i)" using t by (auto simp: in_set_conv_nth)
    then have "tx_commit_lsn (wal ! k) < tx_commit_lsn t" using less [of k "n + i"] Suc by simp
    then show ?thesis by simp
  qed
  ultimately have "filter (\<lambda>t. tx_commit_lsn (wal ! k) + 1 \<le> tx_commit_lsn t) (take n wal @ drop n wal) = drop n wal"
    by (subst filter_append) (simp add: filter_id_conv filter_empty_conv del: append_take_drop_id)
  with Suc show ?thesis by (simp add: resent_def start_after_def)
qed

lemma configure_fields [simp]: "ct_table (configure consumer table) = table" "ct_consumer_name (configure consumer table) = consumer"
  by (simp_all add: configure_def)

lemma new_process_eq:
  "new_process u P opts (c, (s, d)) =
     (case checkpoint_load u P (configure (opt_consumer_name opts) default_table, d) of
        (Inl e, (s', d')) \<Rightarrow> (Inl e, (client_init opts, (s', d')))
      | (Inr lsn, (s', d')) \<Rightarrow>
          (case session_load lsn (client_init opts) of (start, c') \<Rightarrow> (Inr start, (c', (s', d')))))"
  by (auto simp: new_process_def Let_def split: sum.splits prod.splits)


section \<open>What a handler promises\<close>

text \<open>
  \<open>reached n w\<close>: the first \<open>n\<close> transactions have been dealt with in the world \<open>w\<close>. A handler that
  returns has dealt with one more; one that raises has done so or has left things as they were.
\<close>

locale restarting =
  fixes wal :: "transaction list"
    and start_process :: "('w, exn, int) action"
    and handle :: "transaction \<Rightarrow> ('w, exn, unit) action"
    and reached :: "nat \<Rightarrow> 'w \<Rightarrow> bool"
  assumes starts: "reached n w \<Longrightarrow> start_process w = (r, w') \<Longrightarrow>
      reached n w' \<and> (\<forall>start. r = Inr start \<longrightarrow> resent start wal = drop n wal)"
    and handles: "reached n w \<Longrightarrow> n < length wal \<Longrightarrow> handle (wal ! n) w = (q, w') \<Longrightarrow>
      reached (Suc n) w' \<or> (\<exists>e. q = Inl e) \<and> reached n w'"
begin

lemma serve_reached: "reached n w \<Longrightarrow> \<exists>m. reached m (serve handle (take k (drop n wal)) w)"
proof (induction k arbitrary: n w)
  case (Suc k)
  show ?case
  proof (cases "n < length wal")
    case True
    then have rest: "take (Suc k) (drop n wal) = wal ! n # take k (drop (Suc n) wal)"
      by (simp add: Cons_nth_drop_Suc [symmetric])
    obtain q w' where h: "handle (wal ! n) w = (q, w')" by fastforce
    from handles [OF Suc.prems True h] Suc.IH [of "Suc n" w'] show ?thesis
      by (cases q) (auto simp: rest h)
  next
    case False
    with Suc.prems show ?thesis by auto
  qed
qed auto

lemma lives_reached: "reached n w \<Longrightarrow> \<exists>m. reached m (lives start_process handle wal ks w)"
proof (induction ks arbitrary: n w)
  case (Cons k ks)
  obtain r w' where w': "start_process w = (r, w')" by fastforce
  note started = starts [OF Cons.prems w']
  show ?case
  proof (cases r)
    case (Inl e)
    with Cons.IH [of n w'] started w' show ?thesis by simp
  next
    case (Inr start)
    with started serve_reached [of n w' k] obtain m where "reached m (serve handle (take k (resent start wal)) w')" by auto
    from Cons.IH [OF this] w' Inr show ?thesis by simp
  qed
qed auto

end


section \<open>A new process on PostgreSQL\<close>

text \<open>Starting a process leaves every position, and starts right behind the checkpoint.\<close>

context postgres
begin

lemma new_process_position:
  assumes "new_process u P opts (c, (s, d)) = (r, (c', (s', d')))"
  shows "same_row (configure (opt_consumer_name opts) default_table) s' \<and> position (durable d') = position (durable d)
    \<and> (\<forall>n start. position (durable d) default_table (opt_consumer_name opts) = checkpoint_after wal n \<and> r = Inr start
         \<longrightarrow> start = start_after wal n)"
proof -
  obtain q s1 d1 where load: "checkpoint_load u P (configure (opt_consumer_name opts) default_table, d) = (q, (s1, d1))"
    by (rule prod_cases3)
  have "s' = s1" "d' = d1" using assms load by (auto simp: new_process_eq split: sum.splits prod.splits)
  moreover have "start = start_after wal n"
    if pos: "position (durable d) default_table (opt_consumer_name opts) = checkpoint_after wal n" and r: "r = Inr start" for n start
  proof -
    obtain lsn where q: "q = Inr lsn" using assms load r by (cases q) (auto simp: new_process_eq)
    then have "lsn = checkpoint_after wal n" using load_own [OF load] pos by (simp add: stored_def configure_def)
    with assms load q r show ?thesis
      by (auto simp: new_process_eq start_after_def session_load_def split: option.splits)
  qed
  ultimately show ?thesis using load_own [OF load] by auto
qed

end

end
