(* ===== verification/Example_Concurrency.thy ===== *)
theory Example_Concurrency
  imports Example_Restarts
begin

text \<open>
  \<open>examples/concurrency.py\<close>: \<open>ConcurrentHandler\<close>, which routes the inserts of a transaction to shard
  queues by a hash of their entity, lets one worker per shard process them, and saves the checkpoint
  once every shard it used has drained. The handler, the workers and the broker take turns: an event
  is what happens between two suspension points of one of them. The digest is a parameter.
\<close>

section \<open>\<open>asyncio.Queue\<close> with \<open>join\<close>\<close>

record 'x joinable_queue =
  jq_queue :: "'x async_queue"
  jq_unfinished :: nat

definition jq_init :: "int \<Rightarrow> 'x joinable_queue" where
  "jq_init maxsize = \<lparr>jq_queue = queue_init maxsize, jq_unfinished = 0\<rparr>"

definition jq_items :: "'x joinable_queue \<Rightarrow> 'x list" where
  "jq_items q = q_items (jq_queue q)"

definition jq_put :: "'x \<Rightarrow> ('x joinable_queue, exn, unit) action" where
  "jq_put x q =
     (case put_nowait x (jq_queue q) of
        (Inl e, _) \<Rightarrow> (Inl e, q)
      | (Inr _, q') \<Rightarrow> (Inr (), q\<lparr>jq_queue := q', jq_unfinished := jq_unfinished q + 1\<rparr>))"

definition jq_get :: "('x joinable_queue, exn, 'x) action" where
  "jq_get q = (case queue_get (jq_queue q) of (r, q') \<Rightarrow> (r, q\<lparr>jq_queue := q'\<rparr>))"

definition task_done :: "('x joinable_queue, exn, unit) action" where
  "task_done q =
     (if jq_unfinished q = 0 then (Inl (ValueError []), q)
      else (Inr (), q\<lparr>jq_unfinished := jq_unfinished q - 1\<rparr>))"

text \<open>\<open>join\<close> goes on.\<close>

definition joined :: "'x joinable_queue \<Rightarrow> bool" where
  "joined q = (jq_unfinished q = 0)"


section \<open>The handler object\<close>

text \<open>What a worker task is doing: in \<open>queue.get()\<close>, in \<open>_process_event\<close>, or cancelled.\<close>

datatype worker = Getting_next | Processing row | Cancelled

record concurrent_handler =
  cc_shard_count :: int
  cc_shards :: "row joinable_queue list"
  cc_workers :: "worker list"
  cc_failures :: "exn list"

definition concurrent_init :: "int \<Rightarrow> int \<Rightarrow> concurrent_handler" where
  "concurrent_init shard_count queue_maxsize =
     \<lparr>cc_shard_count = shard_count, cc_shards = replicate (nat shard_count) (jq_init queue_maxsize),
      cc_workers = [], cc_failures = []\<rparr>"

definition concurrent_start :: "concurrent_handler \<Rightarrow> concurrent_handler" where
  "concurrent_start h = h\<lparr>cc_workers := replicate (nat (cc_shard_count h)) Getting_next\<rparr>"

text \<open>
  \<open>stop\<close>, once the time to drain is over: every worker is cancelled, one that is in
  \<open>_process_event\<close> still marks its event as done on the way out.
\<close>

definition concurrent_stop :: "concurrent_handler \<Rightarrow> concurrent_handler" where
  "concurrent_stop h =
     h\<lparr>cc_shards := map2 (\<lambda>q w. case w of Processing _ \<Rightarrow> snd (task_done q) | _ \<Rightarrow> q) (cc_shards h) (cc_workers h),
       cc_workers := map (\<lambda>_. Cancelled) (cc_workers h)\<rparr>"

text \<open>\<open>main\<close>: the client and the started handler.\<close>

definition concurrency_main ::
    "unicode_db \<Rightarrow> (pystr \<Rightarrow> pystr option) \<Rightarrow> (pystr \<Rightarrow> ('d, 'c) pg_client) \<Rightarrow> exn + ('d, 'c) built \<times> concurrent_handler" where
  "concurrency_main u environ pool =
     rbind (example_app u environ pool (lit ''concurrency-consumer'') None) (\<lambda>app.
       Inr (app, concurrent_start (concurrent_init 4 50)))"

text \<open>\<open>_shard_for\<close>, given \<open>hashlib.md5\<close>; an \<open>entity_id\<close> that is not text has no \<open>encode\<close>.\<close>

definition shard_for :: "(bytes \<Rightarrow> bytes) \<Rightarrow> int \<Rightarrow> pystr option \<Rightarrow> exn + int" where
  "shard_for md5 shard_count entity_id =
     (case entity_id of
        None \<Rightarrow> Inl AttributeError
      | Some s \<Rightarrow>
          rbind (str_encode s) (\<lambda>bs.
            if shard_count = 0 then Inl ZeroDivisionError
            else Inr (int_from_bytes (md5 bs) mod shard_count)))"

text \<open>Where the payload of an insert goes: the index into \<open>_shards\<close> and the row.\<close>

definition route :: "(bytes \<Rightarrow> bytes) \<Rightarrow> int \<Rightarrow> change_event \<Rightarrow> exn + nat \<times> row" where
  "route md5 shard_count change =
     rbind (payload_item (chg_new change) (lit ''entity_id'')) (\<lambda>entity_id.
     rbind (shard_for md5 shard_count entity_id) (\<lambda>i.
       if 0 \<le> i \<and> i < shard_count then Inr (nat i, the (chg_new change)) else Inl IndexError))"


section \<open>The system\<close>

text \<open>
  Where a call of \<open>handle\<close> is: at the next change, with the shards it has used; waiting for the
  shards left to join; in \<open>checkpoint.save\<close>; or there is no call. The history of the current call: what
  each shard still had when it began, and what was processed since, with the exception if it failed.
\<close>

datatype activity =
    Free
  | Routing transaction "change_event list" "nat list"
  | Joining transaction "nat list"
  | Saving transaction

record concurrency =
  cs_handler :: concurrent_handler
  cs_activity :: activity
  cs_left :: "row list list"
  cs_done :: "(nat \<times> row \<times> exn option) list"
  cs_outcomes :: "(transaction \<times> exn option) list"

datatype concurrency_event =
    Handle transaction
  | Route
  | ShardJoined nat
  | Settle
  | SaveEnds "exn option"
  | Cancel
  | Take nat
  | Processed nat "exn option"

definition in_work :: "worker \<Rightarrow> row list" where
  "in_work w = (case w of Processing row \<Rightarrow> [row] | _ \<Rightarrow> [])"

text \<open>What a shard still has to do, in order.\<close>

definition backlog :: "concurrent_handler \<Rightarrow> nat \<Rightarrow> row list" where
  "backlog h i = in_work (cc_workers h ! i) @ jq_items (cc_shards h ! i)"

definition handle_ends :: "transaction \<Rightarrow> exn option \<Rightarrow> concurrency \<Rightarrow> concurrency" where
  "handle_ends t outcome s =
     s\<lparr>cs_activity := Free, cs_outcomes := cs_outcomes s @ [(t, outcome)]\<rparr>"

definition set_shard :: "nat \<Rightarrow> row joinable_queue \<Rightarrow> concurrent_handler \<Rightarrow> concurrent_handler" where
  "set_shard i q h = h\<lparr>cc_shards := (cc_shards h)[i := q]\<rparr>"

definition set_worker :: "nat \<Rightarrow> worker \<Rightarrow> concurrent_handler \<Rightarrow> concurrent_handler" where
  "set_worker i w h = h\<lparr>cc_workers := (cc_workers h)[i := w]\<rparr>"

text \<open>One turn of the first loop of \<open>handle\<close>; \<open>put\<close> waits while the shard is full.\<close>

definition route_step ::
    "(bytes \<Rightarrow> bytes) \<Rightarrow> transaction \<Rightarrow> change_event list \<Rightarrow> nat list \<Rightarrow> concurrency \<Rightarrow> concurrency option" where
  "route_step md5 t changes used s =
     (case changes of
        [] \<Rightarrow> Some (s\<lparr>cs_activity := Joining t used\<rparr>)
      | change # rest \<Rightarrow>
          if \<not> is_published_insert change then Some (s\<lparr>cs_activity := Routing t rest used\<rparr>)
          else case route md5 (cc_shard_count (cs_handler s)) change of
                 Inl e \<Rightarrow> Some (handle_ends t (Some e) s)
               | Inr (i, payload) \<Rightarrow>
                   let q = cc_shards (cs_handler s) ! i
                   in if queue_full (jq_queue q) then None
                      else case jq_put payload q of
                             (Inl e, _) \<Rightarrow> Some (handle_ends t (Some e) s)
                           | (Inr _, q') \<Rightarrow>
                               Some (s\<lparr>cs_handler := set_shard i q' (cs_handler s),
                                       cs_activity := Routing t rest (List.insert i used)\<rparr>))"

text \<open>The end of \<open>handle\<close> before the save.\<close>

definition settle_step :: "transaction \<Rightarrow> concurrency \<Rightarrow> concurrency" where
  "settle_step t s =
     (let failures = cc_failures (cs_handler s)
      in if failures = [] then s\<lparr>cs_activity := Saving t\<rparr>
         else handle_ends t (Some (ExceptionGroup failures))
                (s\<lparr>cs_handler := (cs_handler s)\<lparr>cc_failures := []\<rparr>\<rparr>))"

text \<open>
  The two halves of a turn of \<open>_shard_worker\<close>. \<open>except Exception\<close> lets a cancellation through, which
  ends the worker, after \<open>finally\<close>.
\<close>

definition worker_takes :: "nat \<Rightarrow> concurrent_handler \<Rightarrow> concurrent_handler option" where
  "worker_takes i h =
     (if i < length (cc_workers h) \<and> cc_workers h ! i = Getting_next \<and> get_ready (jq_queue (cc_shards h ! i))
      then case jq_get (cc_shards h ! i) of
             (Inl e, q) \<Rightarrow> Some (set_worker i Cancelled (set_shard i q h))
           | (Inr payload, q) \<Rightarrow> Some (set_worker i (Processing payload) (set_shard i q h))
      else None)"

definition worker_finishes :: "nat \<Rightarrow> exn option \<Rightarrow> concurrent_handler \<Rightarrow> (row \<times> concurrent_handler) option" where
  "worker_finishes i outcome h =
     (if i < length (cc_workers h) then
        (case cc_workers h ! i of
           Processing payload \<Rightarrow>
             let h = (case outcome of
                        None \<Rightarrow> h
                      | Some e \<Rightarrow> if e = CancelledError then h else h\<lparr>cc_failures := cc_failures h @ [e]\<rparr>);
                 w = (if outcome = Some CancelledError then Cancelled else Getting_next)
             in Some (payload, set_worker i w (set_shard i (snd (task_done (cc_shards h ! i))) h))
         | _ \<Rightarrow> None)
      else None)"

text \<open>Only \<open>stop\<close> cancels a worker, and \<open>main\<close> calls it after the last call of \<open>handle\<close>.\<close>

definition concurrency_step :: "(bytes \<Rightarrow> bytes) \<Rightarrow> concurrency_event \<Rightarrow> concurrency \<Rightarrow> concurrency option" where
  "concurrency_step md5 ev s =
     (case ev of
        Handle t \<Rightarrow>
          if cs_activity s = Free
          then Some (s\<lparr>cs_activity := Routing t (tx_changes t) [],
                       cs_left := map (backlog (cs_handler s)) [0..<length (cc_shards (cs_handler s))], cs_done := []\<rparr>)
          else None
      | Route \<Rightarrow> (case cs_activity s of Routing t rest used \<Rightarrow> route_step md5 t rest used s | _ \<Rightarrow> None)
      | ShardJoined i \<Rightarrow>
          (case cs_activity s of
             Joining t shards \<Rightarrow>
               if i \<in> set shards \<and> joined (cc_shards (cs_handler s) ! i)
               then Some (s\<lparr>cs_activity := Joining t (remove1 i shards)\<rparr>) else None
           | _ \<Rightarrow> None)
      | Settle \<Rightarrow> (case cs_activity s of Joining t [] \<Rightarrow> Some (settle_step t s) | _ \<Rightarrow> None)
      | SaveEnds outcome \<Rightarrow> (case cs_activity s of Saving t \<Rightarrow> Some (handle_ends t outcome s) | _ \<Rightarrow> None)
      | Cancel \<Rightarrow>
          (case cs_activity s of
             Free \<Rightarrow> None
           | Routing t _ _ \<Rightarrow> Some (handle_ends t (Some CancelledError) s)
           | Joining t _ \<Rightarrow> Some (handle_ends t (Some CancelledError) s)
           | Saving t \<Rightarrow> Some (handle_ends t (Some CancelledError) s))
      | Take i \<Rightarrow> map_option (\<lambda>h. s\<lparr>cs_handler := h\<rparr>) (worker_takes i (cs_handler s))
      | Processed i outcome \<Rightarrow>
          if outcome = Some CancelledError then None
          else map_option (\<lambda>(payload, h). s\<lparr>cs_handler := h, cs_done := cs_done s @ [(i, payload, outcome)]\<rparr>)
                 (worker_finishes i outcome (cs_handler s)))"

definition concurrency_start :: "int \<Rightarrow> int \<Rightarrow> concurrency" where
  "concurrency_start shard_count queue_maxsize =
     \<lparr>cs_handler = concurrent_start (concurrent_init shard_count queue_maxsize), cs_activity = Free,
      cs_left = [], cs_done = [], cs_outcomes = []\<rparr>"

inductive concurrency_reachable :: "(bytes \<Rightarrow> bytes) \<Rightarrow> concurrency \<Rightarrow> concurrency \<Rightarrow> bool"
  for md5 :: "bytes \<Rightarrow> bytes" and s0 :: concurrency where
  concurrency_begins: "concurrency_reachable md5 s0 s0"
| concurrency_goes: "concurrency_reachable md5 s0 s \<Longrightarrow> concurrency_step md5 ev s = Some s' \<Longrightarrow>
    concurrency_reachable md5 s0 s'"

fun concurrency_run :: "(bytes \<Rightarrow> bytes) \<Rightarrow> concurrency_event list \<Rightarrow> concurrency \<Rightarrow> concurrency option" where
  "concurrency_run md5 [] s = Some s"
| "concurrency_run md5 (ev # evs) s = Option.bind (concurrency_step md5 ev s) (concurrency_run md5 evs)"

lemma concurrency_run_reachable:
  "concurrency_reachable md5 s0 s \<Longrightarrow> concurrency_run md5 evs s = Some s' \<Longrightarrow> concurrency_reachable md5 s0 s'"
  by (induction evs arbitrary: s) (auto simp: bind_eq_Some_conv intro: concurrency_goes)

end
