(* ===== verification/Example_Concurrency_Properties.thy ===== *)
theory Example_Concurrency_Properties
  imports Example_Concurrency
begin

text \<open>
  What \<open>ConcurrentHandler\<close> of \<open>examples/concurrency.py\<close> promises: a checkpoint is saved only over
  events that were all processed, each entity's events are processed in order, and a call of \<open>handle\<close>
  comes to an end whenever the broker and the store answer.
\<close>

section \<open>Shards and workers\<close>

definition shape :: "concurrent_handler \<Rightarrow> bool" where
  "shape h =
     (length (cc_shards h) = nat (cc_shard_count h) \<and> length (cc_workers h) = nat (cc_shard_count h)
      \<and> (\<forall>i < nat (cc_shard_count h). \<not> q_is_shutdown (jq_queue (cc_shards h ! i))
           \<and> jq_unfinished (cc_shards h ! i) = length (backlog h i) \<and> cc_workers h ! i \<noteq> Cancelled))"

lemma shapeD:
  assumes "shape h"
  shows "length (cc_shards h) = nat (cc_shard_count h)" "length (cc_workers h) = nat (cc_shard_count h)"
    and "i < nat (cc_shard_count h) \<Longrightarrow> \<not> q_is_shutdown (jq_queue (cc_shards h ! i))"
    and "i < nat (cc_shard_count h) \<Longrightarrow> jq_unfinished (cc_shards h ! i) = length (backlog h i)"
    and "i < nat (cc_shard_count h) \<Longrightarrow> cc_workers h ! i \<noteq> Cancelled"
  using assms by (auto simp: shape_def)

lemma handler_simps [simp]:
  "cc_shard_count (set_shard i q h) = cc_shard_count h" "cc_shard_count (set_worker i w h) = cc_shard_count h"
  "cc_workers (set_shard i q h) = cc_workers h" "cc_shards (set_worker i w h) = cc_shards h"
  "cc_shards (set_shard i q h) = (cc_shards h)[i := q]" "cc_workers (set_worker i w h) = (cc_workers h)[i := w]"
  "cc_failures (set_shard i q h) = cc_failures h" "cc_failures (set_worker i w h) = cc_failures h"
  by (simp_all add: set_shard_def set_worker_def)

lemma shape_start: "shape (concurrent_start (concurrent_init n m))"
  by (simp add: shape_def concurrent_start_def concurrent_init_def jq_init_def backlog_def in_work_def jq_items_def)

lemma backlog_start: "i < nat n \<Longrightarrow> backlog (concurrent_start (concurrent_init n m)) i = []"
  by (simp add: concurrent_start_def concurrent_init_def jq_init_def backlog_def in_work_def jq_items_def)

lemma shard_put_effect:
  assumes "shape h" and "i < nat (cc_shard_count h)" and "\<not> queue_full (jq_queue (cc_shards h ! i))"
  shows "\<exists>q. jq_put row (cc_shards h ! i) = (Inr (), q) \<and> shape (set_shard i q h)
    \<and> (\<forall>j < nat (cc_shard_count h). backlog (set_shard i q h) j = backlog h j @ (if j = i then [row] else []))"
proof -
  let ?q = "(cc_shards h ! i)\<lparr>jq_queue := (jq_queue (cc_shards h ! i))\<lparr>q_items := jq_items (cc_shards h ! i) @ [row]\<rparr>,
      jq_unfinished := jq_unfinished (cc_shards h ! i) + 1\<rparr>"
  have put: "jq_put row (cc_shards h ! i) = (Inr (), ?q)"
    using assms shapeD(3) [OF assms(1,2)] by (simp add: jq_put_def put_nowait_def jq_items_def)
  have backlog: "\<forall>j < nat (cc_shard_count h). backlog (set_shard i ?q h) j = backlog h j @ (if j = i then [row] else [])"
    using assms(2) shapeD(1) [OF assms(1)] by (auto simp: backlog_def jq_items_def nth_list_update)
  moreover have "shape (set_shard i ?q h)"
    using assms(1,2) backlog by (auto simp: shape_def nth_list_update)
  ultimately show ?thesis using put by blast
qed

lemma take_effect:
  assumes "shape h" and "worker_takes i h = Some h'"
  shows "shape h' \<and> cc_failures h' = cc_failures h \<and> cc_shard_count h' = cc_shard_count h
    \<and> (\<forall>j < nat (cc_shard_count h). backlog h' j = backlog h j)"
proof -
  have i: "i < nat (cc_shard_count h)" "cc_workers h ! i = Getting_next"
    using assms shapeD(2) [OF assms(1)] by (auto simp: worker_takes_def split: if_splits)
  obtain row rest where items: "q_items (jq_queue (cc_shards h ! i)) = row # rest"
    using assms i shapeD(3) [OF assms(1) i(1)]
    by (cases "q_items (jq_queue (cc_shards h ! i))") (auto simp: worker_takes_def get_ready_def split: if_splits)
  let ?q = "(cc_shards h ! i)\<lparr>jq_queue := (jq_queue (cc_shards h ! i))\<lparr>q_items := rest\<rparr>\<rparr>"
  have h': "h' = set_worker i (Processing row) (set_shard i ?q h)"
    using assms(2) items by (auto simp: worker_takes_def jq_get_def queue_get_def split: if_splits)
  have backlog: "backlog h' j = backlog h j" if "j < nat (cc_shard_count h)" for j
    using that i items shapeD(1,2) [OF assms(1)]
    by (auto simp: h' backlog_def in_work_def jq_items_def nth_list_update)
  moreover have "shape h'"
    using assms(1) i backlog by (auto simp: shape_def h' nth_list_update)
  ultimately show ?thesis by (simp add: h')
qed

lemma finish_effect:
  assumes "shape h" and "worker_finishes i outcome h = Some (payload, h')" and "outcome \<noteq> Some CancelledError"
  shows "shape h' \<and> i < nat (cc_shard_count h) \<and> cc_shard_count h' = cc_shard_count h
    \<and> cc_failures h' = cc_failures h @ (case outcome of None \<Rightarrow> [] | Some e \<Rightarrow> [e])
    \<and> backlog h i = payload # backlog h' i
    \<and> (\<forall>j < nat (cc_shard_count h). j \<noteq> i \<longrightarrow> backlog h' j = backlog h j)"
proof -
  have i: "i < nat (cc_shard_count h)" "cc_workers h ! i = Processing payload"
    using assms shapeD(2) [OF assms(1)] by (auto simp: worker_finishes_def Let_def split: if_splits worker.splits)
  have unfinished: "jq_unfinished (cc_shards h ! i) = length (backlog h i)" by (rule shapeD(4) [OF assms(1) i(1)])
  then have marked: "task_done (cc_shards h ! i)
      = (Inr (), (cc_shards h ! i)\<lparr>jq_unfinished := length (backlog h i) - 1\<rparr>)"
    using i(2) by (simp add: task_done_def backlog_def in_work_def)
  let ?h = "case outcome of None \<Rightarrow> h | Some e \<Rightarrow> if e = CancelledError then h else h\<lparr>cc_failures := cc_failures h @ [e]\<rparr>"
  have same: "cc_shards ?h = cc_shards h" "cc_workers ?h = cc_workers h" "cc_shard_count ?h = cc_shard_count h"
    "cc_failures ?h = cc_failures h @ (case outcome of None \<Rightarrow> [] | Some e \<Rightarrow> [e])"
    using assms(3) by (auto split: option.splits)
  have h': "h' = set_worker i Getting_next (set_shard i ((cc_shards h ! i)\<lparr>jq_unfinished := length (backlog h i) - 1\<rparr>) ?h)"
    using assms(2,3) i marked same by (auto simp: worker_finishes_def Let_def split: if_splits)
  have other: "backlog h' j = backlog h j" if "j < nat (cc_shard_count h)" "j \<noteq> i" for j
    using that by (simp add: h' backlog_def same)
  have own: "backlog h i = payload # backlog h' i"
    using i shapeD(1,2) [OF assms(1)] by (simp add: h' backlog_def in_work_def same jq_items_def)
  have fields: "cc_shards h' = (cc_shards h)[i := (cc_shards h ! i)\<lparr>jq_unfinished := length (backlog h i) - 1\<rparr>]"
    "cc_workers h' = (cc_workers h)[i := Getting_next]" "cc_shard_count h' = cc_shard_count h"
    by (simp_all add: h' same)
  have "length (backlog h i) - 1 = length (backlog h' i)" using own by simp
  then have "shape h'"
    using assms(1) i other by (auto simp: shape_def fields nth_list_update)
  with own other i(1) show ?thesis by (simp add: h' same)
qed

text \<open>After \<open>stop\<close> no worker is left, and what a shard still counts as unfinished is what is in its queue.\<close>

lemma concurrent_stop_effect:
  assumes "shape h" and "i < nat (cc_shard_count h)"
  shows "cc_workers (concurrent_stop h) ! i = Cancelled
    \<and> jq_items (cc_shards (concurrent_stop h) ! i) = jq_items (cc_shards h ! i)
    \<and> jq_unfinished (cc_shards (concurrent_stop h) ! i) = length (jq_items (cc_shards h ! i))"
  using assms(2) shapeD(1,2,5) [OF assms(1)] shapeD(4) [OF assms]
  by (cases "cc_workers h ! i") (auto simp: concurrent_stop_def task_done_def backlog_def in_work_def jq_items_def)

section \<open>A call of \<open>handle\<close>\<close>

text \<open>Where the published inserts among some changes go, and a shard's part of a list.\<close>

fun routable :: "(bytes \<Rightarrow> bytes) \<Rightarrow> int \<Rightarrow> change_event list \<Rightarrow> bool" where
  "routable md5 n [] = True"
| "routable md5 n (change # changes) =
     ((is_published_insert change \<longrightarrow> (\<exists>p. route md5 n change = Inr p)) \<and> routable md5 n changes)"

fun routes :: "(bytes \<Rightarrow> bytes) \<Rightarrow> int \<Rightarrow> change_event list \<Rightarrow> (nat \<times> row) list" where
  "routes md5 n [] = []"
| "routes md5 n (change # changes) =
     (if is_published_insert change
      then (case route md5 n change of Inl _ \<Rightarrow> [] | Inr p \<Rightarrow> [p]) @ routes md5 n changes
      else routes md5 n changes)"

definition on_shard :: "nat \<Rightarrow> (nat \<times> 'a) list \<Rightarrow> 'a list" where
  "on_shard i ps = map snd (filter (\<lambda>p. fst p = i) ps)"

definition rows_done :: "nat \<Rightarrow> concurrency \<Rightarrow> row list" where
  "rows_done i s = map fst (on_shard i (cs_done s))"

lemma on_shard_simps [simp]:
  "on_shard i [] = []"
  "on_shard i (p # ps) = (if fst p = i then [snd p] else []) @ on_shard i ps"
  "on_shard i (ps @ qs) = on_shard i ps @ on_shard i qs"
  by (simp_all add: on_shard_def)

lemma routes_append [simp]: "routes md5 n (xs @ ys) = routes md5 n xs @ routes md5 n ys"
  by (induction xs) auto

lemma routable_append [simp]: "routable md5 n (xs @ ys) \<longleftrightarrow> routable md5 n xs \<and> routable md5 n ys"
  by (induction xs) auto

text \<open>The shards' rows since the call began; the call's own are \<open>ps\<close> so far.\<close>

definition flow :: "(nat \<times> row) list \<Rightarrow> concurrency \<Rightarrow> bool" where
  "flow ps s =
     (length (cs_left s) = nat (cc_shard_count (cs_handler s))
      \<and> (\<forall>p \<in> set (cs_done s). fst p < nat (cc_shard_count (cs_handler s)))
      \<and> (\<forall>i < nat (cc_shard_count (cs_handler s)).
           cs_left s ! i @ on_shard i ps = rows_done i s @ backlog (cs_handler s) i))"

definition failures_kept :: "concurrency \<Rightarrow> bool" where
  "failures_kept s = (\<forall>(i, row, outcome) \<in> set (cs_done s). \<forall>e. outcome = Some e \<longrightarrow> e \<in> set (cc_failures (cs_handler s)))"

definition own_shards :: "(nat \<times> row) list \<Rightarrow> nat set" where
  "own_shards ps = fst ` set ps"

definition call_inv :: "(bytes \<Rightarrow> bytes) \<Rightarrow> concurrency \<Rightarrow> bool" where
  "call_inv md5 s =
     (let n = cc_shard_count (cs_handler s) in
      case cs_activity s of
        Free \<Rightarrow> True
      | Routing t rest used \<Rightarrow>
          (\<exists>before. tx_changes t = before @ rest \<and> routable md5 n before \<and> flow (routes md5 n before) s
             \<and> own_shards (routes md5 n before) \<subseteq> set used) \<and> failures_kept s
      | Joining t shards \<Rightarrow>
          routable md5 n (tx_changes t) \<and> flow (routes md5 n (tx_changes t)) s \<and> failures_kept s
          \<and> (\<forall>i \<in> own_shards (routes md5 n (tx_changes t)) - set shards. backlog (cs_handler s) i = [])
      | Saving t \<Rightarrow>
          routable md5 n (tx_changes t) \<and> flow (routes md5 n (tx_changes t)) s
          \<and> (\<forall>i \<in> own_shards (routes md5 n (tx_changes t)). backlog (cs_handler s) i = []
               \<and> (\<forall>(row, outcome) \<in> set (on_shard i (cs_done s)). outcome = None)))"

lemma own_shards_simps [simp]:
  "own_shards [] = {}" "own_shards (p # ps) = insert (fst p) (own_shards ps)"
  "own_shards (ps @ qs) = own_shards ps \<union> own_shards qs"
  by (auto simp: own_shards_def)

lemma route_range: "route md5 n change = Inr (i, row) \<Longrightarrow> i < nat n"
  by (auto simp: route_def rbind_eq_Inr split: if_splits)

lemma routes_range: "i \<in> own_shards (routes md5 n changes) \<Longrightarrow> i < nat n"
  by (induction changes) (auto split: if_splits sum.splits dest: route_range)

text \<open>The two steps of a worker keep it.\<close>

lemma call_inv_take:
  assumes "shape (cs_handler s)" and "call_inv md5 s" and "worker_takes i (cs_handler s) = Some h"
  shows "call_inv md5 (s\<lparr>cs_handler := h\<rparr>)"
proof -
  note eff = take_effect [OF assms(1,3)]
  have flow: "flow ps (s\<lparr>cs_handler := h\<rparr>) \<longleftrightarrow> flow ps s" for ps
    using eff by (auto simp: flow_def rows_done_def)
  have fails: "failures_kept (s\<lparr>cs_handler := h\<rparr>) \<longleftrightarrow> failures_kept s"
    using eff by (simp add: failures_kept_def)
  have same: "backlog h i = backlog (cs_handler s) i"
    if "i \<in> own_shards (routes md5 (cc_shard_count (cs_handler s)) cs)" for i cs
    using eff routes_range [OF that] by simp
  show ?thesis
    using assms(2) eff by (cases "cs_activity s") (auto simp: call_inv_def Let_def flow fails same)
qed

lemma call_inv_finish:
  assumes "shape (cs_handler s)" and "call_inv md5 s"
    and "worker_finishes i outcome (cs_handler s) = Some (payload, h)" and "outcome \<noteq> Some CancelledError"
  shows "call_inv md5 (s\<lparr>cs_handler := h, cs_done := cs_done s @ [(i, payload, outcome)]\<rparr>)"
proof -
  let ?s = "s\<lparr>cs_handler := h, cs_done := cs_done s @ [(i, payload, outcome)]\<rparr>"
  note eff = finish_effect [OF assms(1,3,4)]
  have flow: "flow ps ?s" if "flow ps s" for ps
    using that eff by (auto simp: flow_def rows_done_def)
  have fails: "failures_kept ?s" if "failures_kept s"
    using that eff by (auto simp: failures_kept_def split: option.splits)
  have empty: "j \<noteq> i \<and> backlog h j = []"
    if "backlog (cs_handler s) j = []" "j \<in> own_shards (routes md5 (cc_shard_count (cs_handler s)) cs)" for j cs
    using eff that routes_range [OF that(2)] by auto
  show ?thesis
  proof (cases "cs_activity s")
    case (Routing t rest used)
    then show ?thesis using assms(2) eff flow fails by (auto simp: call_inv_def Let_def)
  next
    case (Joining t shards)
    then show ?thesis using assms(2) eff flow fails empty by (auto simp: call_inv_def Let_def)
  next
    case (Saving t)
    then show ?thesis using assms(2) eff flow empty by (fastforce simp: call_inv_def Let_def)
  qed (simp add: call_inv_def)
qed

text \<open>A row waits on the shard of its entity.\<close>

definition at_home :: "(bytes \<Rightarrow> bytes) \<Rightarrow> int \<Rightarrow> nat \<Rightarrow> row \<Rightarrow> bool" where
  "at_home md5 n i row =
     (\<exists>entity_id. map_of row (lit ''entity_id'') = Some entity_id \<and> shard_for md5 n entity_id = Inr (int i))"

definition homes :: "(bytes \<Rightarrow> bytes) \<Rightarrow> concurrency \<Rightarrow> bool" where
  "homes md5 s =
     (let n = cc_shard_count (cs_handler s) in
      (\<forall>i < nat n. \<forall>row \<in> set (backlog (cs_handler s) i). at_home md5 n i row)
      \<and> (cs_activity s \<noteq> Free \<longrightarrow> (\<forall>i < nat n. \<forall>row \<in> set (cs_left s ! i). at_home md5 n i row)))"

lemma route_home: "route md5 n change = Inr (i, row) \<Longrightarrow> at_home md5 n i row"
  by (auto simp: route_def payload_item_def at_home_def rbind_eq_Inr split: if_splits option.splits)

lemma routes_home: "(i, row) \<in> set (routes md5 n changes) \<Longrightarrow> at_home md5 n i row"
  by (induction changes) (auto split: if_splits sum.splits dest: route_home [OF sym])

definition concurrency_inv :: "(bytes \<Rightarrow> bytes) \<Rightarrow> concurrency \<Rightarrow> bool" where
  "concurrency_inv md5 s = (shape (cs_handler s) \<and> homes md5 s \<and> call_inv md5 s)"

lemma inv_start: "concurrency_inv md5 (concurrency_start n m)"
proof -
  have "cc_shard_count (concurrent_start (concurrent_init n m)) = n"
    by (simp add: concurrent_start_def concurrent_init_def)
  then show ?thesis
    by (simp add: concurrency_inv_def shape_start concurrency_start_def homes_def call_inv_def backlog_start)
qed

lemma inv_handle_ends: "concurrency_inv md5 s \<Longrightarrow> concurrency_inv md5 (handle_ends t outcome s)"
  by (auto simp: concurrency_inv_def handle_ends_def homes_def call_inv_def Let_def)

lemma inv_handle:
  assumes "concurrency_inv md5 s"
  shows "concurrency_inv md5 (s\<lparr>cs_activity := Routing t (tx_changes t) [],
      cs_left := map (backlog (cs_handler s)) [0..<length (cc_shards (cs_handler s))], cs_done := []\<rparr>)"
  using assms shapeD(1) [of "cs_handler s"]
  by (auto simp: concurrency_inv_def homes_def call_inv_def Let_def flow_def rows_done_def failures_kept_def
      intro: exI [of _ "[]"])

lemma inv_route:
  assumes "concurrency_inv md5 s" and "cs_activity s = Routing t changes used"
    and "route_step md5 t changes used s = Some s'"
  shows "concurrency_inv md5 s'"
proof -
  let ?h = "cs_handler s" and ?n = "cc_shard_count (cs_handler s)"
  have inv: "shape ?h" "homes md5 s" "failures_kept s" using assms(1,2) by (auto simp: concurrency_inv_def call_inv_def Let_def)
  obtain before where before: "tx_changes t = before @ changes" "routable md5 ?n before"
    "flow (routes md5 ?n before) s" "own_shards (routes md5 ?n before) \<subseteq> set used"
    using assms(1,2) by (auto simp: concurrency_inv_def call_inv_def Let_def)
  show ?thesis
  proof (cases changes)
    case Nil
    then have "s' = s\<lparr>cs_activity := Joining t used\<rparr>" using assms(3) by (simp add: route_step_def)
    with inv before Nil assms(2) show ?thesis
      by (auto simp: concurrency_inv_def homes_def call_inv_def Let_def flow_def rows_done_def failures_kept_def)
  next
    case (Cons change rest)
    have split: "tx_changes t = (before @ [change]) @ rest" using before(1) Cons by simp
    show ?thesis
    proof (cases "is_published_insert change")
      case False
      then have "s' = s\<lparr>cs_activity := Routing t rest used\<rparr>" using assms(3) Cons by (simp add: route_step_def)
      moreover have "routes md5 ?n (before @ [change]) = routes md5 ?n before" "routable md5 ?n (before @ [change])"
        using False before(2) by simp_all
      ultimately show ?thesis
        using inv before split assms(2)
        by (auto simp: concurrency_inv_def homes_def call_inv_def Let_def flow_def rows_done_def failures_kept_def
            simp del: routes_append routable_append intro!: exI [of _ "before @ [change]"])
    next
      case True
      show ?thesis
      proof (cases "route md5 ?n change")
        case (Inl e)
        with True Cons assms(3) have "s' = handle_ends t (Some e) s" by (simp add: route_step_def)
        with assms(1) show ?thesis by (simp add: inv_handle_ends)
      next
        case (Inr p)
        obtain i row where p: "p = (i, row)" by fastforce
        have i: "i < nat ?n" using Inr p route_range by simp
        have room: "\<not> queue_full (jq_queue (cc_shards ?h ! i))"
          using assms(3) Cons True Inr p by (auto simp: route_step_def Let_def split: if_splits)
        from shard_put_effect [OF inv(1) i room] obtain q where q: "jq_put row (cc_shards ?h ! i) = (Inr (), q)"
          "shape (set_shard i q ?h)"
          "\<forall>j < nat ?n. backlog (set_shard i q ?h) j = backlog ?h j @ (if j = i then [row] else [])" by blast
        have s': "s' = s\<lparr>cs_handler := set_shard i q ?h, cs_activity := Routing t rest (List.insert i used)\<rparr>"
          using assms(3) Cons True Inr p room q(1) by (simp add: route_step_def Let_def)
        have routes: "routes md5 ?n (before @ [change]) = routes md5 ?n before @ [(i, row)]"
          "routable md5 ?n (before @ [change])"
          using True Inr p before(2) by simp_all
        have "homes md5 s'"
          using inv(2) q(3) route_home [of md5 ?n change i row] Inr p assms(2) by (auto simp: s' homes_def Let_def)
        moreover have "flow (routes md5 ?n (before @ [change])) s'"
          using before(3) q(3) unfolding routes by (auto simp: s' flow_def rows_done_def)
        moreover have "own_shards (routes md5 ?n (before @ [change])) \<subseteq> set (List.insert i used)"
          using before(4) unfolding routes by auto
        moreover have "failures_kept s'" using inv(3) by (simp add: s' failures_kept_def)
        ultimately show ?thesis
          using q(2) split routes(2)
          by (auto simp: concurrency_inv_def call_inv_def Let_def s' simp del: routes_append routable_append
              intro!: exI [of _ "before @ [change]"])
      qed
    qed
  qed
qed

lemma inv_settle:
  assumes "concurrency_inv md5 s" and "cs_activity s = Joining t []"
  shows "concurrency_inv md5 (settle_step t s)"
proof (cases "cc_failures (cs_handler s) = []")
  case True
  with assms show ?thesis
    by (fastforce simp: concurrency_inv_def settle_step_def call_inv_def homes_def Let_def failures_kept_def flow_def
        rows_done_def on_shard_def)
next
  case False
  let ?h = "cs_handler s"
  have "concurrency_inv md5 (s\<lparr>cs_handler := ?h\<lparr>cc_failures := []\<rparr>, cs_activity := Free\<rparr>)"
    using assms by (auto simp: concurrency_inv_def homes_def call_inv_def Let_def shape_def backlog_def)
  with False show ?thesis
    by (auto simp: settle_step_def handle_ends_def concurrency_inv_def homes_def call_inv_def Let_def)
qed

lemma inv_step:
  assumes "concurrency_inv md5 s" and "concurrency_step md5 ev s = Some s'"
  shows "concurrency_inv md5 s'"
proof (cases ev)
  case (Handle t)
  with assms inv_handle show ?thesis by (auto simp: concurrency_step_def split: if_splits)
next
  case Route
  with assms inv_route show ?thesis by (auto simp: concurrency_step_def split: activity.splits)
next
  case (ShardJoined i)
  with assms(2) obtain t shards where act: "cs_activity s = Joining t shards" "i \<in> set shards"
    "jq_unfinished (cc_shards (cs_handler s) ! i) = 0" "s' = s\<lparr>cs_activity := Joining t (remove1 i shards)\<rparr>"
    by (auto simp: concurrency_step_def joined_def split: activity.splits if_splits)
  have "i < nat (cc_shard_count (cs_handler s)) \<Longrightarrow> backlog (cs_handler s) i = []"
    using act(3) assms(1) shapeD(4) [of "cs_handler s" i] by (simp add: concurrency_inv_def)
  moreover have "j \<in> set shards \<Longrightarrow> j \<notin> set (remove1 i shards) \<Longrightarrow> j = i" for j
    by (metis in_set_remove1)
  ultimately have "backlog (cs_handler s) j = []"
    if "j \<in> own_shards (routes md5 (cc_shard_count (cs_handler s)) (tx_changes t))" "j \<notin> set (remove1 i shards)" for j
    using that routes_range [OF that(1)] assms(1) act(1)
    by (cases "j \<in> set shards") (auto simp: concurrency_inv_def call_inv_def Let_def)
  then show ?thesis
    using assms(1) act(1)
    by (auto simp: act(4) concurrency_inv_def homes_def call_inv_def Let_def flow_def rows_done_def failures_kept_def)
next
  case Settle
  with assms inv_settle show ?thesis by (auto simp: concurrency_step_def split: activity.splits list.splits)
next
  case (SaveEnds outcome)
  with assms inv_handle_ends show ?thesis by (auto simp: concurrency_step_def split: activity.splits)
next
  case Cancel
  with assms inv_handle_ends show ?thesis by (auto simp: concurrency_step_def split: activity.splits)
next
  case (Take i)
  with assms(2) obtain h where h: "worker_takes i (cs_handler s) = Some h" "s' = s\<lparr>cs_handler := h\<rparr>"
    by (auto simp: concurrency_step_def)
  with assms(1) call_inv_take [of s md5 i h] take_effect [of "cs_handler s" i h] show ?thesis
    by (auto simp: concurrency_inv_def homes_def Let_def)
next
  case (Processed i outcome)
  with assms(2) obtain payload h where h: "worker_finishes i outcome (cs_handler s) = Some (payload, h)"
    "s' = s\<lparr>cs_handler := h, cs_done := cs_done s @ [(i, payload, outcome)]\<rparr>" "outcome \<noteq> Some CancelledError"
    by (auto simp: concurrency_step_def split: if_splits)
  have shape: "shape (cs_handler s)" using assms(1) by (simp add: concurrency_inv_def)
  note eff = finish_effect [OF shape h(1,3)]
  have "set (backlog h j) \<subseteq> set (backlog (cs_handler s) j)" if "j < nat (cc_shard_count (cs_handler s))" for j
    using eff that by (cases "j = i") auto
  then have "homes md5 s'" using assms(1) eff h(2) by (auto simp: concurrency_inv_def homes_def Let_def)
  with assms(1) eff call_inv_finish [OF shape _ h(1,3), of md5] h(2) show ?thesis
    by (simp add: concurrency_inv_def)
qed

lemma reachable_inv: "concurrency_reachable md5 (concurrency_start n m) s \<Longrightarrow> concurrency_inv md5 s"
  by (induction rule: concurrency_reachable.induct) (auto intro: inv_start inv_step)

section \<open>Properties\<close>

text \<open>The payloads a transaction's inserts have, and those of one entity.\<close>

definition payloads :: "transaction \<Rightarrow> row list" where
  "payloads t = map (\<lambda>change. the (chg_new change)) (published_inserts t)"

definition of_entity :: "pystr \<Rightarrow> row \<Rightarrow> bool" where
  "of_entity entity row = (map_of row (lit ''entity_id'') = Some (Some entity))"

lemma routes_payloads:
  "routable md5 n changes \<Longrightarrow>
   map snd (routes md5 n changes) = map (\<lambda>change. the (chg_new change)) (filter is_published_insert changes)"
  by (induction changes) (auto simp: route_def rbind_eq_Inr split: if_splits)

lemma filter_on_shard:
  "\<forall>p \<in> set ps. P (snd p) \<longrightarrow> fst p = i \<Longrightarrow> filter P (map snd ps) = filter P (on_shard i ps)"
  by (induction ps) auto

lemma filter_concat_one:
  "i < length xss \<Longrightarrow> \<forall>j < length xss. j \<noteq> i \<longrightarrow> filter P (xss ! j) = [] \<Longrightarrow> filter P (concat xss) = filter P (xss ! i)"
proof (induction xss arbitrary: i)
  case (Cons xs xss)
  show ?case
  proof (cases i)
    case 0
    with Cons.prems(2) have "\<forall>ys \<in> set xss. filter P ys = []" by (fastforce simp: in_set_conv_nth)
    then have "filter P (concat xss) = []" by (induction xss) auto
    with 0 show ?thesis by simp
  next
    case (Suc k)
    from Cons.prems Suc have "filter P xs = []" "filter P (concat xss) = filter P (xss ! k)"
      using Cons.IH [of k] by (fastforce, force)
    with Suc show ?thesis by simp
  qed
qed simp

lemma home_unique: "at_home md5 n i row \<Longrightarrow> of_entity entity row \<Longrightarrow> shard_for md5 n (Some entity) = Inr (int i)"
  by (auto simp: at_home_def of_entity_def)

lemma done_home:
  assumes "flow ps s" and "n = cc_shard_count (cs_handler s)"
    and "\<forall>(i, row) \<in> set ps. at_home md5 n i row"
    and "\<forall>i < nat n. \<forall>row \<in> set (cs_left s ! i). at_home md5 n i row"
    and "(i, row, outcome) \<in> set (cs_done s)"
  shows "at_home md5 n i row"
proof -
  have "row \<in> set (rows_done i s)" using assms(5) by (force simp: rows_done_def on_shard_def)
  moreover have "i < nat n" using assms(1,2,5) by (force simp: flow_def)
  moreover from this have "cs_left s ! i @ on_shard i ps = rows_done i s @ backlog (cs_handler s) i"
    using assms(1,2) by (simp add: flow_def)
  then have "set (rows_done i s) \<subseteq> set (cs_left s ! i) \<union> set (on_shard i ps)"
    by (metis Un_upper1 set_append)
  moreover have "\<forall>row \<in> set (on_shard i ps). at_home md5 n i row" using assms(3) by (auto simp: on_shard_def)
  ultimately show ?thesis using assms(4) by blast
qed

text \<open>
  What holds whenever the handler is in \<open>checkpoint.save\<close>, over the call's own routes.
\<close>

lemma saving_state:
  assumes "concurrency_inv md5 s" and "cs_activity s = Saving t"
  defines "n \<equiv> cc_shard_count (cs_handler s)"
  shows "routable md5 n (tx_changes t)"
    and "i \<in> own_shards (routes md5 n (tx_changes t)) \<Longrightarrow>
      rows_done i s = cs_left s ! i @ on_shard i (routes md5 n (tx_changes t))
      \<and> (\<forall>(row, outcome) \<in> set (on_shard i (cs_done s)). outcome = None)"
    and "(i, row, outcome) \<in> set (cs_done s) \<Longrightarrow> at_home md5 n i row"
    and "\<forall>i < nat n. \<forall>row \<in> set (cs_left s ! i). at_home md5 n i row"
    and "length (cs_left s) = nat n"
proof -
  let ?ps = "routes md5 n (tx_changes t)"
  have inv: "routable md5 n (tx_changes t)" "flow ?ps s"
    "\<forall>i \<in> own_shards ?ps. backlog (cs_handler s) i = [] \<and> (\<forall>(row, outcome) \<in> set (on_shard i (cs_done s)). outcome = None)"
    "\<forall>i < nat n. \<forall>row \<in> set (cs_left s ! i). at_home md5 n i row"
    using assms(1,2) by (auto simp: concurrency_inv_def call_inv_def homes_def Let_def n_def)
  show "routable md5 n (tx_changes t)" "\<forall>i < nat n. \<forall>row \<in> set (cs_left s ! i). at_home md5 n i row" by (rule inv)+
  show "length (cs_left s) = nat n" using inv(2) by (simp add: flow_def n_def)
  show "rows_done i s = cs_left s ! i @ on_shard i ?ps \<and> (\<forall>(row, outcome) \<in> set (on_shard i (cs_done s)). outcome = None)"
    if "i \<in> own_shards ?ps"
    using that inv(2,3) routes_range [OF that] by (simp add: flow_def n_def)
  show "at_home md5 n i row" if "(i, row, outcome) \<in> set (cs_done s)"
    by (rule done_home [OF inv(2) n_def [THEN meta_eq_to_obj_eq] _ inv(4) that]) (auto dest: routes_home)
qed

text \<open>A run with two shards of one place each: two events of one transaction, and its save.\<close>

definition demo_insert :: "string \<Rightarrow> change_event" where
  "demo_insert entity =
     \<lparr>chg_kind = INSERT, chg_table = lit ''public.published_table'',
      chg_new = Some [(lit ''entity_id'', Some (lit entity))], chg_old = None\<rparr>"

definition demo_events :: transaction where
  "demo_events =
     \<lparr>tx_xid = 1, tx_commit_lsn = 9, tx_commit_time = 0,
      tx_changes = [demo_insert ''a'', demo_insert ''b'', demo_insert ''a'']\<rparr>"

definition demo_saving :: "concurrency_event list" where
  "demo_saving =
     [Handle demo_events, Route, Take 1, Route, Take 0, Processed 0 None, Route, Route, Processed 1 None, Take 1,
      ShardJoined 0, Processed 1 None, ShardJoined 1, Settle]"

lemma demo_routes:
  "route (\<lambda>bs. bs) 2 (demo_insert ''a'') = Inr (1, [(lit ''entity_id'', Some (lit ''a''))])"
  "route (\<lambda>bs. bs) 2 (demo_insert ''b'') = Inr (0, [(lit ''entity_id'', Some (lit ''b''))])"
  "is_published_insert (demo_insert e)"
  by (simp_all add: route_def demo_insert_def payload_item_def shard_for_def str_encode_def is_scalar_def
      utf8_encode_def utf8_encode_char_def int_from_bytes_def is_published_insert_def)

lemmas run_defs = concurrency_step_def concurrency_start_def concurrent_start_def concurrent_init_def jq_init_def
  route_step_def jq_put_def put_nowait_def queue_full_def qsize_def set_shard_def set_worker_def
  handle_ends_def settle_step_def worker_takes_def worker_finishes_def jq_get_def queue_get_def get_ready_def
  task_done_def joined_def queue_init_def Let_def numeral_2_eq_2

definition one_event :: "string \<Rightarrow> int \<Rightarrow> transaction" where
  "one_event entity lsn = \<lparr>tx_xid = lsn, tx_commit_lsn = lsn, tx_commit_time = 0, tx_changes = [demo_insert entity]\<rparr>"

text \<open>
  A call is cancelled, by a lost connection, while it waits for its shards; what it left behind fails
  then; the next transaction, on another shard and processed without an exception, is refused.
\<close>

definition stale_failure_run :: "concurrency_event list" where
  "stale_failure_run =
     [Handle (one_event ''a'' 1), Route, Route, Take 1, Cancel, Processed 1 (Some (ApplicationError 0)),
      Handle (one_event ''b'' 2), Route, Route, Take 0, Processed 0 None, ShardJoined 0, Settle]"

lemma failure_outlives_its_call:
  "\<exists>s. concurrency_run (\<lambda>bs. bs) stale_failure_run (concurrency_start 2 1) = Some s
    \<and> map (\<lambda>(i, payload, outcome). outcome) (cs_done s) = [None]
    \<and> cs_outcomes s = [(one_event ''a'' 1, Some CancelledError), (one_event ''b'' 2, Some (ExceptionGroup [ApplicationError 0]))]"
  by (simp add: run_defs demo_routes stale_failure_run_def one_event_def List.insert_def)

lemma save_processed:
  assumes "concurrency_inv md5 s" and "cs_activity s = Saving t"
    and that: "payload \<in> set (payloads t)"
  shows "\<exists>i. (i, payload, None) \<in> set (cs_done s)"
proof -
  note state = saving_state [OF assms(1,2)]
  define n where "n = cc_shard_count (cs_handler s)"
  let ?ps = "routes md5 n (tx_changes t)"
  note state = state [folded n_def]
  have payloads: "payloads t = map snd ?ps"
    using routes_payloads [OF state(1)] by (simp add: payloads_def published_inserts_def)
  from that obtain i where i: "(i, payload) \<in> set ?ps" by (auto simp: payloads)
  then have own: "i \<in> own_shards ?ps" by (force simp: own_shards_def)
  have "payload \<in> set (on_shard i ?ps)" using i by (force simp: on_shard_def)
  then have "payload \<in> set (rows_done i s)" using state(2) [OF own] by simp
  then obtain outcome where "(i, payload, outcome) \<in> set (cs_done s)" "(payload, outcome) \<in> set (on_shard i (cs_done s))"
    by (force simp: rows_done_def on_shard_def)
  with state(2) [OF own] show ?thesis by auto
qed

lemma save_order:
  assumes "concurrency_inv md5 s" and "cs_activity s = Saving t"
    and that: "list_ex (of_entity entity) (payloads t)"
  shows "filter (of_entity entity) (map (\<lambda>(i, payload, outcome). payload) (cs_done s))
    = filter (of_entity entity) (concat (cs_left s)) @ filter (of_entity entity) (payloads t)"
proof -
  note state = saving_state [OF assms(1,2)]
  define n where "n = cc_shard_count (cs_handler s)"
  let ?ps = "routes md5 n (tx_changes t)"
  note state = state [folded n_def]
  have payloads: "payloads t = map snd ?ps"
    using routes_payloads [OF state(1)] by (simp add: payloads_def published_inserts_def)
  from that obtain i row where i: "(i, row) \<in> set ?ps" "of_entity entity row"
    by (auto simp: payloads list_ex_iff)
  then have own: "i \<in> own_shards ?ps" by (force simp: own_shards_def)
  have here: "shard_for md5 n (Some entity) = Inr (int i)" using home_unique [OF routes_home [OF i(1)] i(2)] .
  have done_rows: "filter (of_entity entity) (map (\<lambda>(i, payload, outcome). payload) (cs_done s))
      = filter (of_entity entity) (rows_done i s)"
  proof -
    have "j = i" if "(j, row, outcome) \<in> set (cs_done s)" "of_entity entity row" for j row outcome
      using home_unique [OF state(3) [OF that(1)] that(2)] here by simp
    then have "\<forall>p \<in> set (cs_done s). of_entity entity (fst (snd p)) \<longrightarrow> fst p = i" by auto
    then have "filter (\<lambda>d. of_entity entity (fst d)) (map snd (cs_done s)) = filter (\<lambda>d. of_entity entity (fst d)) (on_shard i (cs_done s))"
      by (intro filter_on_shard) auto
    then show ?thesis
      by (auto simp: rows_done_def filter_map comp_def case_prod_unfold dest: arg_cong [where f = "map fst"])
  qed
  have left: "filter (of_entity entity) (concat (cs_left s)) = filter (of_entity entity) (cs_left s ! i)"
  proof (rule filter_concat_one)
    show "i < length (cs_left s)" using state(5) routes_range [OF own] by simp
    show "\<forall>j < length (cs_left s). j \<noteq> i \<longrightarrow> filter (of_entity entity) (cs_left s ! j) = []"
    proof (intro allI impI)
      fix j assume "j < length (cs_left s)" and other: "j \<noteq> i"
      then have "at_home md5 n j row" if "row \<in> set (cs_left s ! j)" for row using that state(4,5) by simp
      with here other show "filter (of_entity entity) (cs_left s ! j) = []"
        by (metis (no_types, lifting) filter_False home_unique of_nat_eq_iff sum.inject(2))
    qed
  qed
  have own_rows: "filter (of_entity entity) (payloads t) = filter (of_entity entity) (on_shard i ?ps)"
  proof -
    have "j = i" if "(j, row) \<in> set ?ps" "of_entity entity row" for j row
      using home_unique [OF routes_home [OF that(1)] that(2)] here by simp
    then show ?thesis unfolding payloads by (intro filter_on_shard) auto
  qed
  show ?thesis unfolding done_rows left own_rows using state(2) [OF own] by simp
qed

text \<open>C16: a checkpoint is only saved over finished work. Whenever \<open>handle\<close> has got to
  \<open>checkpoint.save\<close>, each insert of the transaction into the published table was processed, without an
  exception, since the call began; and for every entity in the transaction, what was processed of it
  since then is first what an earlier, cancelled call had left in the shards, in its order, and then the
  transaction's own events of the entity, each once and in the transaction's order. This holds for
  every digest, every number of shards and every bound of their queues. What a cancelled call has left
  can also be a failure, and that one is raised by the next call, whose own events had none.\<close>

theorem concurrent_save_covers_transaction:
  assumes "concurrency_reachable md5 (concurrency_start shard_count queue_maxsize) s"
    and "cs_activity s = Saving t"
  shows "(\<forall>payload \<in> set (payloads t). \<exists>i. (i, payload, None) \<in> set (cs_done s))
    \<and> (\<forall>entity. list_ex (of_entity entity) (payloads t) \<longrightarrow>
         filter (of_entity entity) (map (\<lambda>(i, payload, outcome). payload) (cs_done s))
         = filter (of_entity entity) (concat (cs_left s)) @ filter (of_entity entity) (payloads t))
    \<and> (\<exists>s. concurrency_run (\<lambda>bs. bs) stale_failure_run (concurrency_start 2 1) = Some s
         \<and> map (\<lambda>(i, payload, outcome). outcome) (cs_done s) = [None]
         \<and> cs_outcomes s =
             [(one_event ''a'' 1, Some CancelledError), (one_event ''b'' 2, Some (ExceptionGroup [ApplicationError 0]))])"
  using save_processed [OF reachable_inv [OF assms(1)] assms(2)] save_order [OF reachable_inv [OF assms(1)] assms(2)]
    failure_outlives_its_call by blast

theorem concurrent_save_covers_transaction_witness:
  "\<exists>s. concurrency_run (\<lambda>bs. bs) demo_saving (concurrency_start 2 1) = Some s \<and> cs_activity s = Saving demo_events
    \<and> length (payloads demo_events) = 3
    \<and> (\<forall>payload \<in> set (payloads demo_events). \<exists>i. (i, payload, None) \<in> set (cs_done s))"
proof -
  obtain s where s: "concurrency_run (\<lambda>bs. bs) demo_saving (concurrency_start 2 1) = Some s"
    "cs_activity s = Saving demo_events"
    by (simp add: run_defs demo_routes demo_saving_def demo_events_def List.insert_def)
  have "concurrency_reachable (\<lambda>bs. bs) (concurrency_start 2 1) s"
    by (rule concurrency_run_reachable [OF concurrency_begins s(1)])
  from concurrent_save_covers_transaction [OF this s(2)] s show ?thesis
    by (simp add: payloads_def published_inserts_def demo_events_def demo_routes)
qed


section \<open>A call comes to an end\<close>

text \<open>Everything that is not a new call or a cancellation.\<close>

definition own_event :: "concurrency_event \<Rightarrow> bool" where
  "own_event ev = (case ev of Handle _ \<Rightarrow> False | Cancel \<Rightarrow> False | _ \<Rightarrow> True)"

text \<open>How many turns are left, at most.\<close>

definition shard_work :: "concurrent_handler \<Rightarrow> nat \<Rightarrow> nat" where
  "shard_work h i = 2 * length (jq_items (cc_shards h ! i)) + length (in_work (cc_workers h ! i))"

fun activity_work :: "activity \<Rightarrow> nat" where
  "activity_work Free = 0"
| "activity_work (Routing t rest used) = 4 * length rest + length used + 3"
| "activity_work (Joining t shards) = length shards + 2"
| "activity_work (Saving t) = 1"

definition turns_left :: "concurrency \<Rightarrow> nat" where
  "turns_left s = (\<Sum>i < nat (cc_shard_count (cs_handler s)). shard_work (cs_handler s) i) + activity_work (cs_activity s)"

lemma sum_one_changes:
  fixes f g :: "nat \<Rightarrow> nat"
  assumes "i < n" and "\<forall>j < n. j \<noteq> i \<longrightarrow> f j = g j"
  shows "sum f {..<n} + g i = sum g {..<n} + f i"
proof -
  have "sum f ({..<n} - {i}) = sum g ({..<n} - {i})" using assms(2) by (intro sum.cong) auto
  moreover have "sum f {..<n} = f i + sum f ({..<n} - {i})" "sum g {..<n} = g i + sum g ({..<n} - {i})"
    using assms(1) by (simp_all add: sum.remove)
  ultimately show ?thesis by simp
qed

lemma put_work:
  assumes "shape h" and "i < nat (cc_shard_count h)" and "jq_put row (cc_shards h ! i) = (Inr (), q)"
  shows "(\<Sum>j < nat (cc_shard_count h). shard_work (set_shard i q h) j) = (\<Sum>j < nat (cc_shard_count h). shard_work h j) + 2"
proof -
  have "jq_items q = jq_items (cc_shards h ! i) @ [row]"
    using assms(3) by (auto simp: jq_put_def put_nowait_def jq_items_def split: if_splits)
  then have "shard_work (set_shard i q h) i = shard_work h i + 2"
    using assms(2) shapeD(1) [OF assms(1)] by (simp add: shard_work_def)
  then show ?thesis
    using sum_one_changes [OF assms(2), of "shard_work (set_shard i q h)" "shard_work h"] by (simp add: shard_work_def)
qed

lemma worker_work:
  assumes "shape h" and "worker_takes i h = Some h' \<or> outcome \<noteq> Some CancelledError \<and> worker_finishes i outcome h = Some (payload, h')"
  shows "(\<Sum>j < nat (cc_shard_count h). shard_work h' j) + 1 = (\<Sum>j < nat (cc_shard_count h). shard_work h j)
    \<and> cc_shard_count h' = cc_shard_count h"
proof -
  have i: "i < nat (cc_shard_count h)"
    using assms(2) shapeD(2) [OF assms(1)] by (auto simp: worker_takes_def worker_finishes_def split: if_splits)
  have len: "i < length (cc_shards h)" "i < length (cc_workers h)" using i shapeD(1,2) [OF assms(1)] by simp_all
  have own: "shard_work h' i + 1 = shard_work h i"
    using assms(2) len shapeD(3) [OF assms(1) i]
    by (auto simp: worker_takes_def worker_finishes_def shard_work_def jq_get_def queue_get_def get_ready_def jq_items_def
        in_work_def task_done_def Let_def split: if_splits worker.splits list.splits option.splits)
  have other: "shard_work h' j = shard_work h j" if "j \<noteq> i" for j
    using assms(2) that
    by (auto simp: worker_takes_def worker_finishes_def shard_work_def jq_get_def queue_get_def Let_def
        split: if_splits worker.splits list.splits option.splits)
  have "cc_shard_count h' = cc_shard_count h"
    using assms(2) by (auto simp: worker_takes_def worker_finishes_def jq_get_def queue_get_def Let_def
        split: if_splits worker.splits list.splits option.splits)
  with sum_one_changes [OF i, of "shard_work h'" "shard_work h"] own other show ?thesis by simp
qed

lemma length_insert_le: "length (List.insert x xs) \<le> length xs + 1"
  by (simp add: List.insert_def)

lemma route_work:
  assumes "shape (cs_handler s)" and "cs_activity s = Routing t rest used"
    and "route_step md5 t rest used s = Some s'"
  shows "turns_left s' < turns_left s"
proof (cases rest)
  case Nil
  with assms(2,3) show ?thesis by (auto simp: route_step_def turns_left_def)
next
  case (Cons change changes)
  show ?thesis
  proof (cases "is_published_insert change \<and> (\<exists>p. route md5 (cc_shard_count (cs_handler s)) change = Inr p)")
    case True
    then obtain i row where to: "route md5 (cc_shard_count (cs_handler s)) change = Inr (i, row)" by auto
    note i = route_range [OF this]
    have room: "\<not> queue_full (jq_queue (cc_shards (cs_handler s) ! i))"
      using assms(3) Cons True to by (auto simp: route_step_def Let_def split: if_splits)
    from shard_put_effect [OF assms(1) i room] obtain q where q: "jq_put row (cc_shards (cs_handler s) ! i) = (Inr (), q)" by blast
    have "s' = s\<lparr>cs_handler := set_shard i q (cs_handler s), cs_activity := Routing t changes (List.insert i used)\<rparr>"
      using assms(3) Cons True to room q by (simp add: route_step_def Let_def)
    with put_work [OF assms(1) i q] assms(2) Cons length_insert_le [of i used] show ?thesis by (simp add: turns_left_def)
  next
    case False
    with assms(2,3) Cons show ?thesis
      by (auto simp: route_step_def turns_left_def handle_ends_def split: if_splits sum.splits)
  qed
qed

lemma own_event_work:
  assumes "shape (cs_handler s)" and "own_event ev" and "concurrency_step md5 ev s = Some s'"
  shows "turns_left s' < turns_left s"
proof (cases ev)
  case Route
  with assms show ?thesis by (auto simp: concurrency_step_def dest: route_work split: activity.splits)
next
  case (ShardJoined i)
  with assms(3) obtain t shards where "cs_activity s = Joining t shards" "i \<in> set shards"
    "s' = s\<lparr>cs_activity := Joining t (remove1 i shards)\<rparr>"
    by (auto simp: concurrency_step_def split: activity.splits if_splits)
  then show ?thesis using length_pos_if_in_set [of i shards] by (simp add: turns_left_def length_remove1)
next
  case Settle
  with assms(3) show ?thesis
    by (auto simp: concurrency_step_def turns_left_def settle_step_def handle_ends_def Let_def shard_work_def
        split: activity.splits list.splits)
next
  case (SaveEnds outcome)
  with assms(3) show ?thesis by (auto simp: concurrency_step_def turns_left_def handle_ends_def split: activity.splits)
next
  case (Take i)
  with assms(3) obtain h where h: "worker_takes i (cs_handler s) = Some h" "s' = s\<lparr>cs_handler := h\<rparr>"
    by (auto simp: concurrency_step_def)
  with worker_work [OF assms(1), of i h None] show ?thesis by (simp add: turns_left_def)
next
  case (Processed i outcome)
  with assms(3) obtain payload h where h: "worker_finishes i outcome (cs_handler s) = Some (payload, h)"
    "s' = s\<lparr>cs_handler := h, cs_done := cs_done s @ [(i, payload, outcome)]\<rparr>" "outcome \<noteq> Some CancelledError"
    by (auto simp: concurrency_step_def split: if_splits)
  with worker_work [OF assms(1), of i h outcome payload] show ?thesis by (simp add: turns_left_def)
qed (use assms(2) in \<open>simp_all add: own_event_def\<close>)

text \<open>The shards a call waits for exist.\<close>

definition touched_range :: "concurrency \<Rightarrow> bool" where
  "touched_range s =
     (case cs_activity s of
        Routing t rest used \<Rightarrow> \<forall>i \<in> set used. i < nat (cc_shard_count (cs_handler s))
      | Joining t shards \<Rightarrow> \<forall>i \<in> set shards. i < nat (cc_shard_count (cs_handler s))
      | _ \<Rightarrow> True)"

lemma touched_step:
  assumes "shape (cs_handler s)" and "touched_range s" and "concurrency_step md5 ev s = Some s'"
  shows "touched_range s'"
proof (cases ev)
  case (Take i)
  with assms(3) obtain h where h: "worker_takes i (cs_handler s) = Some h" "s' = s\<lparr>cs_handler := h\<rparr>"
    by (auto simp: concurrency_step_def)
  with worker_work [OF assms(1), of i h None] assms(2) show ?thesis by (simp add: touched_range_def split: activity.splits)
next
  case (Processed i outcome)
  with assms(3) obtain payload h where h: "worker_finishes i outcome (cs_handler s) = Some (payload, h)"
    "s' = s\<lparr>cs_handler := h, cs_done := cs_done s @ [(i, payload, outcome)]\<rparr>" "outcome \<noteq> Some CancelledError"
    by (auto simp: concurrency_step_def split: if_splits)
  with worker_work [OF assms(1), of i h outcome payload] assms(2) show ?thesis
    by (simp add: touched_range_def split: activity.splits)
next
  case (ShardJoined i)
  with assms(3) obtain t shards where "cs_activity s = Joining t shards"
    "s' = s\<lparr>cs_activity := Joining t (remove1 i shards)\<rparr>"
    by (auto simp: concurrency_step_def split: activity.splits if_splits)
  with assms(2) set_remove1_subset [of i shards] show ?thesis by (auto simp: touched_range_def)
next
  case Route
  with assms(2,3) show ?thesis
    by (auto simp: concurrency_step_def touched_range_def route_step_def handle_ends_def Let_def dest: route_range
        split: activity.splits list.splits if_splits sum.splits prod.splits)
qed (use assms(2,3) in \<open>auto simp: concurrency_step_def touched_range_def settle_step_def handle_ends_def Let_def
       split: activity.splits list.splits if_splits\<close>)

lemma reachable_touched: "concurrency_reachable md5 (concurrency_start n m) s \<Longrightarrow> touched_range s"
proof (induction rule: concurrency_reachable.induct)
  case concurrency_begins
  show ?case by (simp add: touched_range_def concurrency_start_def)
next
  case (concurrency_goes s ev s')
  then show ?case using touched_step reachable_inv [OF concurrency_goes(1)] by (auto simp: concurrency_inv_def)
qed

text \<open>A shard with something to do lets its worker go on.\<close>

lemma backlog_moves:
  assumes "shape (cs_handler s)" and "i < nat (cc_shard_count (cs_handler s))" and "backlog (cs_handler s) i \<noteq> []"
  shows "\<exists>ev s'. own_event ev \<and> concurrency_step md5 ev s = Some s'"
proof (cases "cc_workers (cs_handler s) ! i")
  case Getting_next
  then have "q_items (jq_queue (cc_shards (cs_handler s) ! i)) \<noteq> []"
    using assms(3) by (simp add: backlog_def in_work_def jq_items_def)
  then have "concurrency_step md5 (Take i) s \<noteq> None"
    using Getting_next assms(2) shapeD(2) [OF assms(1)]
    by (auto simp: concurrency_step_def worker_takes_def get_ready_def split: prod.splits sum.splits)
  then show ?thesis by (intro exI [of _ "Take i"]) (auto simp: own_event_def)
next
  case (Processing payload)
  then have "concurrency_step md5 (Processed i None) s \<noteq> None"
    using assms(2) shapeD(2) [OF assms(1)] by (simp add: concurrency_step_def worker_finishes_def Let_def)
  then show ?thesis by (intro exI [of _ "Processed i None"]) (auto simp: own_event_def)
next
  case Cancelled
  with shapeD(5) [OF assms(1,2)] show ?thesis by simp
qed

lemma call_moves:
  assumes "shape (cs_handler s)" and "touched_range s" and "cs_activity s \<noteq> Free"
  shows "\<exists>ev s'. own_event ev \<and> concurrency_step md5 ev s = Some s'"
proof (cases "cs_activity s")
  case (Routing t rest used)
  show ?thesis
  proof (cases "route_step md5 t rest used s")
    case None
    then obtain i where i: "i < nat (cc_shard_count (cs_handler s))" "queue_full (jq_queue (cc_shards (cs_handler s) ! i))"
      by (auto simp: route_step_def Let_def dest: route_range split: list.splits if_splits sum.splits prod.splits)
    then have "backlog (cs_handler s) i \<noteq> []" by (auto simp: queue_full_def qsize_def backlog_def jq_items_def)
    with backlog_moves [OF assms(1) i(1)] show ?thesis by blast
  next
    case (Some s')
    with Routing show ?thesis by (intro exI [of _ Route]) (simp add: own_event_def concurrency_step_def)
  qed
next
  case (Joining t shards)
  show ?thesis
  proof (cases shards)
    case Nil
    with Joining show ?thesis by (intro exI [of _ Settle]) (simp add: own_event_def concurrency_step_def)
  next
    case (Cons i rest)
    then have i: "i < nat (cc_shard_count (cs_handler s))" using assms(2) Joining by (simp add: touched_range_def)
    show ?thesis
    proof (cases "joined (cc_shards (cs_handler s) ! i)")
      case True
      with Joining Cons show ?thesis by (intro exI [of _ "ShardJoined i"]) (simp add: own_event_def concurrency_step_def)
    next
      case False
      then have "backlog (cs_handler s) i \<noteq> []" using shapeD(4) [OF assms(1) i] by (auto simp: joined_def)
      with backlog_moves [OF assms(1) i] show ?thesis by blast
    qed
  qed
next
  case (Saving t)
  then show ?thesis by (intro exI [of _ "SaveEnds None"]) (simp add: own_event_def concurrency_step_def)
qed (use assms(3) in simp)

lemma own_run_work:
  "concurrency_reachable md5 (concurrency_start n m) s \<Longrightarrow> list_all own_event evs \<Longrightarrow>
   concurrency_run md5 evs s = Some s' \<Longrightarrow> length evs + turns_left s' \<le> turns_left s"
proof (induction evs arbitrary: s)
  case (Cons ev evs)
  then obtain s1 where s1: "concurrency_step md5 ev s = Some s1" "concurrency_run md5 evs s1 = Some s'"
    by (auto simp: bind_eq_Some_conv)
  have "turns_left s1 < turns_left s"
    using own_event_work [OF _ _ s1(1)] reachable_inv [OF Cons.prems(1)] Cons.prems(2) by (simp add: concurrency_inv_def)
  with Cons.IH [OF concurrency_goes [OF Cons.prems(1) s1(1)] _ s1(2)] Cons.prems(2) show ?case by simp
qed simp

text \<open>C17: a call of \<open>handle\<close> comes to an end. Whatever turns the handler and its workers take, with
  events that succeed or fail and shards that are full, the number of them is bounded by what is in the
  shards and in the transaction; and as long as the call has not ended, one of them can be taken:
  waiting for a place in a shard, for a shard to drain and for a payload never deadlock.\<close>

theorem concurrent_handle_ends:
  assumes "concurrency_reachable md5 (concurrency_start shard_count queue_maxsize) s"
    and "list_all own_event evs" and "concurrency_run md5 evs s = Some s'"
  shows "length evs \<le> turns_left s
    \<and> (cs_activity s' \<noteq> Free \<longrightarrow> (\<exists>ev s''. own_event ev \<and> concurrency_step md5 ev s' = Some s''))"
proof -
  note reachable = concurrency_run_reachable [OF assms(1,3)]
  show ?thesis
    using own_run_work [OF assms] call_moves [OF _ reachable_touched [OF reachable]] reachable_inv [OF reachable]
    by (auto simp: concurrency_inv_def)
qed

theorem concurrent_handle_ends_witness:
  "\<exists>s s'. concurrency_run (\<lambda>bs. bs) [Handle demo_events] (concurrency_start 2 1) = Some s \<and> turns_left s = 15
    \<and> concurrency_run (\<lambda>bs. bs) (tl demo_saving) s = Some s' \<and> length (tl demo_saving) \<le> turns_left s
    \<and> (\<exists>ev s''. own_event ev \<and> concurrency_step (\<lambda>bs. bs) ev s' = Some s'')"
proof -
  obtain s s' where s: "concurrency_run (\<lambda>bs. bs) [Handle demo_events] (concurrency_start 2 1) = Some s" "turns_left s = 15"
    "concurrency_run (\<lambda>bs. bs) (tl demo_saving) s = Some s'" "cs_activity s' \<noteq> Free"
    by (simp add: run_defs demo_routes demo_saving_def demo_events_def List.insert_def turns_left_def shard_work_def
        jq_items_def in_work_def)
  have own: "list_all own_event (tl demo_saving)" by (simp add: demo_saving_def own_event_def)
  have "concurrency_reachable (\<lambda>bs. bs) (concurrency_start 2 1) s"
    by (rule concurrency_run_reachable [OF concurrency_begins s(1)])
  from concurrent_handle_ends [OF this own s(3)] s show ?thesis by blast
qed

end
