(* ===== verification/Example_Postgres.thy ===== *)
theory Example_Postgres
  imports Example_Restarts
begin

text \<open>
  \<open>examples/postgres.py\<close>: the handler that writes a projection of the inserts and saves the checkpoint
  in one PostgreSQL transaction. Inserting a row is one more call on the database, a parameter with
  what PostgreSQL promises of it as the locale \<open>projected_postgres\<close>. What the handler and the store of
  the library promise together: across any number of restarts the projection holds the rows of
  exactly the transactions up to the checkpoint.
\<close>

section \<open>\<open>json.dumps\<close>\<close>

text \<open>Of a text or \<open>None\<close>, with the default \<open>ensure_ascii\<close>.\<close>

definition json_unicode_escape :: "nat \<Rightarrow> pystr" where
  "json_unicode_escape c = [92, 117] @ hex_padded 4 c"

definition json_escape :: "nat \<Rightarrow> pystr" where
  "json_escape c =
     (if c = 34 \<or> c = 92 then [92, c]
      else if c = 8 then [92, 98]
      else if c = 9 then [92, 116]
      else if c = 10 then [92, 110]
      else if c = 12 then [92, 102]
      else if c = 13 then [92, 114]
      else if 32 \<le> c \<and> c < 127 then [c]
      else if c < 0x10000 then json_unicode_escape c
      else json_unicode_escape (0xD800 + (c - 0x10000) div 0x400) @ json_unicode_escape (0xDC00 + (c - 0x10000) mod 0x400))"

definition json_dumps :: "pystr option \<Rightarrow> pystr" where
  "json_dumps v = (case v of None \<Rightarrow> lit ''null'' | Some s \<Rightarrow> [34] @ concat (map json_escape s) @ [34])"


section \<open>The handler\<close>

text \<open>The parameters of the \<open>INSERT\<close>, in order; \<open>Jsonb(x)\<close> is the document \<open>json.dumps(x)\<close>.\<close>

type_synonym projected_row = "pystr option \<times> pystr option \<times> pystr option \<times> pystr"

definition projection_row :: "row option \<Rightarrow> exn + projected_row" where
  "projection_row new =
     rbind (payload_item new (lit ''entity_type'')) (\<lambda>entity_type.
     rbind (payload_item new (lit ''entity_id'')) (\<lambda>entity_id.
     rbind (payload_item new (lit ''event_type'')) (\<lambda>event_type.
     rbind (payload_item new (lit ''payload'')) (\<lambda>payload.
       Inr (entity_type, entity_id, event_type, json_dumps payload)))))"

fun insert_changes :: "('c \<Rightarrow> projected_row \<Rightarrow> ('d, exn, unit) action) \<Rightarrow> 'c \<Rightarrow> change_event list \<Rightarrow> ('d, exn, unit) action" where
  "insert_changes ins c [] = areturn ()"
| "insert_changes ins c (change # changes) =
     (if is_published_insert change
      then abind (alift (projection_row (chg_new change))) (\<lambda>row.
           abind (ins c row) (\<lambda>_. insert_changes ins c changes))
      else insert_changes ins c changes)"

text \<open>An action of the database, beside the store's fields and the client.\<close>

definition on_pool :: "('d, exn, 'a) action \<Rightarrow> (client \<times> checkpoint_table \<times> 'd, exn, 'a) action" where
  "on_pool m = beside_client (on_db m)"

text \<open>\<open>async with pool.connection() as conn\<close>\<close>

definition pool_connection ::
    "('d, 'c) pg_client \<Rightarrow> ('c \<Rightarrow> (client \<times> checkpoint_table \<times> 'd, exn, 'a) action)
      \<Rightarrow> (client \<times> checkpoint_table \<times> 'd, exn, 'a) action" where
  "pool_connection P body =
     abind (on_pool (pg_acquire P)) (\<lambda>c st.
       case body c st of
         (Inl e, st') \<Rightarrow> abind (on_pool (pg_release P c True)) (\<lambda>_. araise e) st'
       | (Inr x, st') \<Rightarrow> abind (on_pool (pg_release P c False)) (\<lambda>_. areturn x) st')"

definition postgres_handle ::
    "('d, 'c) pg_client \<Rightarrow> ('c \<Rightarrow> projected_row \<Rightarrow> ('d, exn, unit) action) \<Rightarrow> transaction \<Rightarrow> pyfloat \<Rightarrow> pyfloat
      \<Rightarrow> (client \<times> checkpoint_table \<times> 'd, exn, unit) action" where
  "postgres_handle P ins t started finished =
     pool_connection P (\<lambda>c.
       abind (on_pool (insert_changes ins c (tx_changes t))) (\<lambda>_.
       abind (postgres_handler_save P t (tx_commit_lsn t) (Some c) started finished) (\<lambda>_.
       on_pool (pg_commit P c))))"

definition postgres_main :: "unicode_db \<Rightarrow> (pystr \<Rightarrow> pystr option) \<Rightarrow> (pystr \<Rightarrow> ('d, 'c) pg_client) \<Rightarrow> exn + ('d, 'c) built" where
  "postgres_main u environ pool = example_app u environ pool (lit ''postgres-sink-consumer'') None"

lemma on_pool_eq: "on_pool m (c, (s, d)) = (r, (c', (s', d'))) \<longleftrightarrow> c' = c \<and> s' = s \<and> m d = (r, d')"
  by (auto simp: on_pool_def beside_client_def on_db_def split: prod.splits)

lemma on_pool_split: "on_pool m (c, (s, d)) = (fst (m d), (c, (s, snd (m d))))"
  by (simp add: on_pool_def beside_client_def on_db_split)


section \<open>What PostgreSQL promises of the projection\<close>

text \<open>
  \<open>projected d\<close> are the committed rows, \<open>projecting c d\<close> those the connection \<open>c\<close> sees. A commit
  makes the changes of both tables durable, or those of neither.
\<close>

locale projected_postgres = postgres P durable seen up
  for P :: "('d, 'c) pg_client" and durable :: "'d \<Rightarrow> tables" and seen :: "'c \<Rightarrow> 'd \<Rightarrow> tables" and up :: "'d \<Rightarrow> bool" +
  fixes ins :: "'c \<Rightarrow> projected_row \<Rightarrow> ('d, exn, unit) action"
    and projected :: "'d \<Rightarrow> projected_row list"
    and projecting :: "'c \<Rightarrow> 'd \<Rightarrow> projected_row list"
  assumes acquire_rows: "pg_acquire P d = (r, d') \<Longrightarrow> projected d' = projected d \<and> (\<forall>c. r = Inr c \<longrightarrow> projecting c d' = projected d)"
    and insert_row: "ins c row d = (Inr u, d') \<Longrightarrow>
      projecting c d' = projecting c d @ [row] \<and> seen c d' = seen c d \<and> projected d' = projected d \<and> durable d' = durable d"
    and insert_fails: "ins c row d = (Inl e, d') \<Longrightarrow> projected d' = projected d \<and> durable d' = durable d"
    and execute_rows: "pg_execute P c stmt d = (q, d') \<Longrightarrow>
      projected d' = projected d \<and> (\<forall>x. q = Inr x \<longrightarrow> projecting c d' = projecting c d)"
    and commit_rows: "pg_commit P c d = (Inr u, d') \<Longrightarrow> projected d' = projecting c d \<and> projecting c d' = projecting c d"
    and commit_fails_rows: "pg_commit P c d = (Inl e, d') \<Longrightarrow>
      (durable d', projected d') \<in> {(durable d, projected d), (seen c d, projecting c d)}"
    and rolled_back_rows: "pg_release P c True d = (released, d') \<Longrightarrow> projected d' = projected d"
    and released_rows: "pg_release P c False d = (Inr u, d') \<Longrightarrow> projected d' = projecting c d"
    and release_fails_rows: "pg_release P c False d = (Inl e, d') \<Longrightarrow>
      (durable d', projected d') \<in> {(durable d, projected d), (seen c d, projecting c d)}"

text \<open>The rows of a transaction.\<close>

fun rows_of :: "change_event list \<Rightarrow> exn + projected_row list" where
  "rows_of [] = Inr []"
| "rows_of (change # changes) =
     (if is_published_insert change
      then rbind (projection_row (chg_new change)) (\<lambda>row. rbind (rows_of changes) (\<lambda>rows. Inr (row # rows)))
      else rows_of changes)"

context projected_postgres
begin

lemma insert_changes_effect:
  "insert_changes ins c changes d = (r, d') \<Longrightarrow>
     durable d' = durable d \<and> projected d' = projected d
     \<and> (r = Inr () \<longrightarrow> seen c d' = seen c d \<and> (\<exists>rows. rows_of changes = Inr rows \<and> projecting c d' = projecting c d @ rows))"
proof (induction changes arbitrary: d)
  case (Cons change changes)
  show ?case
  proof (cases "is_published_insert change")
    case True
    show ?thesis
    proof (cases "projection_row (chg_new change)")
      case (Inl e)
      with True Cons.prems show ?thesis by auto
    next
      case (Inr row)
      obtain q d1 where q: "ins c row d = (q, d1)" by fastforce
      show ?thesis
      proof (cases q)
        case (Inl e)
        with True Cons.prems \<open>projection_row (chg_new change) = Inr row\<close> q insert_fails [of c row d e d1]
        show ?thesis by (auto simp: abind_def)
      next
        case (Inr u)
        with True Cons.prems \<open>projection_row (chg_new change) = Inr row\<close> q
        have rest: "insert_changes ins c changes d1 = (r, d')" by (simp add: abind_def)
        show ?thesis
          using Cons.IH [OF rest] insert_row [of c row d u d1] q Inr True \<open>projection_row (chg_new change) = Inr row\<close>
          by auto
      qed
    qed
  next
    case False
    with Cons show ?thesis by simp
  qed
qed auto

lemma ensure_schema_rows:
  "ensure_schema P c (s, d) = (r, (s', d')) \<Longrightarrow> projected d' = projected d \<and> (r = Inr () \<longrightarrow> projecting c d' = projecting c d)"
  by (auto simp: ensure_schema_def abind_def on_db_def split: prod.splits sum.splits if_splits dest: execute_rows)

lemma upsert_rows:
  "upsert P c l (s, d) = (r, (s', d')) \<Longrightarrow> projected d' = projected d \<and> (r = Inr () \<longrightarrow> projecting c d' = projecting c d)"
  by (auto simp: upsert_def abind_def on_db_def split: prod.splits sum.splits if_splits dest: execute_rows)

lemma save_joined_rows:
  assumes "checkpoint_save P l (Some c) (s, d) = (r, (s', d'))"
  shows "projected d' = projected d \<and> (r = Inr () \<longrightarrow> projecting c d' = projecting c d)"
proof -
  obtain a s1 d1 where a: "ensure_schema P c (s, d) = (a, (s1, d1))" by (rule prod_cases3)
  with assms ensure_schema_rows [OF a] upsert_rows [of c l s1 d1 r s' d'] show ?thesis
    by (cases a) (auto simp: checkpoint_save_def)
qed

end

text \<open>What a call of \<open>handle\<close> leaves: nothing, or the rows and the position.\<close>

definition handled :: "checkpoint_table \<Rightarrow> transaction \<Rightarrow> tables \<times> projected_row list \<Rightarrow> tables \<times> projected_row list \<Rightarrow> bool" where
  "handled s t old new =
     (\<exists>rows. rows_of (tx_changes t) = Inr rows \<and> snd new = snd old @ rows
        \<and> position (fst new) = (position (fst old))(ct_table s :=
            (position (fst old) (ct_table s))(ct_consumer_name s := Some (tx_commit_lsn t))))"

definition untouched :: "tables \<times> projected_row list \<Rightarrow> tables \<times> projected_row list \<Rightarrow> bool" where
  "untouched old new = (position (fst new) = position (fst old) \<and> snd new = snd old)"

lemma untouched_refl [simp]: "untouched old old"
  by (simp add: untouched_def)

lemma untouched_handled: "untouched old mid \<Longrightarrow> handled s t mid new \<Longrightarrow> handled s t old new"
  by (auto simp: untouched_def handled_def)

context projected_postgres
begin

lemma body_effect:
  assumes run: "abind (on_pool (insert_changes ins k (tx_changes t))) (\<lambda>_.
       abind (postgres_handler_save P t (tx_commit_lsn t) (Some k) started finished) (\<lambda>_.
       on_pool (pg_commit P k))) (c, (s, d)) = (r, (c', (s', d')))"
    and view: "seen k d = durable d" "projecting k d = projected d"
  shows "same_row s s'"
    and "r = Inr () \<Longrightarrow> handled s t (durable d, projected d) (durable d', projected d')
      \<and> handled s t (durable d, projected d) (seen k d', projecting k d')"
    and "r = Inl e \<Longrightarrow> untouched (durable d, projected d) (durable d', projected d')
      \<or> handled s t (durable d, projected d) (durable d', projected d')"
proof -
  let ?old = "(durable d, projected d)"
  have all: "same_row s s' \<and> (case r of
      Inr _ \<Rightarrow> handled s t ?old (durable d', projected d') \<and> handled s t ?old (seen k d', projecting k d')
    | Inl _ \<Rightarrow> untouched ?old (durable d', projected d') \<or> handled s t ?old (durable d', projected d'))"
  proof -
    obtain a d1 where a: "insert_changes ins k (tx_changes t) d = (a, d1)" by fastforce
    note inserted = insert_changes_effect [OF a]
    show ?thesis
    proof (cases a)
      case (Inl e)
      with run a have "s' = s" "d' = d1" "r = Inl e" by (auto simp: abind_def on_pool_split)
      with inserted show ?thesis by (simp add: untouched_def)
    next
      case (Inr x)
      then obtain rows where rows: "rows_of (tx_changes t) = Inr rows" "projecting k d1 = projected d @ rows"
        "seen k d1 = durable d" using inserted view by auto
      obtain b s2 d2 where b: "checkpoint_save P (tx_commit_lsn t) (Some k) (s, d1) = (b, (s2, d2))" by (rule prod_cases3)
      note saved = save_joined [OF b] save_joined_rows [OF b]
      show ?thesis
      proof (cases b)
        case (Inl e)
        with run a b \<open>a = Inr x\<close> have "s' = s2" "d' = d2" "\<exists>e'. r = Inl e'"
          by (auto simp: abind_def on_pool_split postgres_handler_save_eq)
        with inserted saved show ?thesis by (auto simp: untouched_def)
      next
        case (Inr y)
        obtain q d3 where q: "pg_commit P k d2 = (q, d3)" by fastforce
        with run a b \<open>a = Inr x\<close> Inr have *: "s' = s2" "d' = d3" "r = q"
          by (auto simp: abind_def on_pool_split postgres_handler_save_eq)
        have ok: "handled s t ?old (seen k d2, projecting k d2)"
          using rows saved Inr by (simp add: handled_def)
        show ?thesis
        proof (cases q)
          case (Inl e)
          with commit_fails_rows [of k d2 e d3] q have "(durable d3, projected d3) \<in> {(durable d2, projected d2), (seen k d2, projecting k d2)}"
            by simp
          with ok inserted saved * Inl show ?thesis by (auto simp: untouched_def)
        next
          case (Inr z)
          with commit [of k d2 z d3] commit_rows [of k d2 z d3] q ok saved * show ?thesis by simp
        qed
      qed
    qed
  qed
  then show "same_row s s'"
    and "r = Inr () \<Longrightarrow> handled s t ?old (durable d', projected d') \<and> handled s t ?old (seen k d', projecting k d')"
    and "r = Inl e \<Longrightarrow> untouched ?old (durable d', projected d') \<or> handled s t ?old (durable d', projected d')"
    by simp_all
qed

text \<open>The call as a whole: the rows and the position move together, or neither does.\<close>

lemma handle_atomic:
  assumes "postgres_handle P ins t started finished (c, (s, d)) = (r, (c', (s', d')))"
  shows "same_row s s'
    \<and> (handled s t (durable d, projected d) (durable d', projected d')
       \<or> (\<exists>e. r = Inl e) \<and> untouched (durable d, projected d) (durable d', projected d'))"
proof -
  let ?body = "\<lambda>k. abind (on_pool (insert_changes ins k (tx_changes t))) (\<lambda>_.
       abind (postgres_handler_save P t (tx_commit_lsn t) (Some k) started finished) (\<lambda>_. on_pool (pg_commit P k)))"
  let ?old = "(durable d, projected d)"
  obtain a d1 where a: "pg_acquire P d = (a, d1)" by fastforce
  note rows = acquire_rows [OF a]
  show ?thesis
  proof (cases a)
    case (Inl e)
    with assms a have "s' = s" "d' = d1" "r = Inl e"
      by (auto simp: postgres_handle_def pool_connection_def abind_def on_pool_split)
    with acquire_fails [of d e d1] a Inl rows show ?thesis by (simp add: untouched_def)
  next
    case (Inr k)
    note same = acquire [of d k d1] rows
    then have view: "seen k d1 = durable d1" "projecting k d1 = projected d1" "durable d1 = durable d" "projected d1 = projected d"
      using a Inr by simp_all
    obtain b c2 s2 d2 where b: "?body k (c, (s, d1)) = (b, (c2, (s2, d2)))" by (rule prod_cases4)
    note effect = body_effect [OF b view(1,2), unfolded view(3,4)]
    show ?thesis
    proof (cases b)
      case (Inl e)
      obtain q d3 where q: "pg_release P k True d2 = (q, d3)" by fastforce
      from assms a Inr b Inl q have *: "s' = s2" "d' = d3" "\<exists>e'. r = Inl e'"
        by (auto simp: postgres_handle_def pool_connection_def abind_def on_pool_split split: sum.splits)
      with rolled_back [OF q] rolled_back_rows [OF q] effect(1,3) Inl show ?thesis by auto
    next
      case (Inr x)
      obtain q d3 where q: "pg_release P k False d2 = (q, d3)" by fastforce
      from assms a \<open>a = Inr k\<close> b Inr q have *: "s' = s2" "d' = d3"
        by (auto simp: postgres_handle_def pool_connection_def abind_def on_pool_split split: sum.splits)
      have "(durable d3, projected d3) \<in> {(durable d2, projected d2), (seen k d2, projecting k d2)}"
        using released [of k d2 "projr q" d3] released_rows [of k d2 "projr q" d3] release_fails_rows [of k d2 "projl q" d3] q
        by (cases q) auto
      with effect(1,2) Inr * show ?thesis by auto
    qed
  qed
qed

end

section \<open>Over restarts\<close>

text \<open>The projection is that of the first \<open>n\<close> transactions, and the checkpoint the last of them.\<close>

definition projects_up_to :: "nat \<Rightarrow> transaction list \<Rightarrow> int option \<Rightarrow> projected_row list \<Rightarrow> bool" where
  "projects_up_to n wal checkpoint rows =
     (n \<le> length wal \<and> rows_of (concat (map tx_changes (take n wal))) = Inr rows
      \<and> checkpoint = checkpoint_after wal n)"

lemma rows_of_append:
  "rows_of (xs @ ys) = rbind (rows_of xs) (\<lambda>a. rbind (rows_of ys) (\<lambda>b. Inr (a @ b)))"
  by (induction xs) (auto simp: rbind_def split: sum.splits)

lemma projects_next:
  assumes "projects_up_to n wal checkpoint rows" and "n < length wal" and "rows_of (tx_changes (wal ! n)) = Inr new"
  shows "projects_up_to (Suc n) wal (Some (tx_commit_lsn (wal ! n))) (rows @ new)"
  using assms by (simp add: projects_up_to_def take_Suc_conv_app_nth rows_of_append)

context projected_postgres
begin

lemma load_rows:
  assumes "checkpoint_load u P (s, d) = (r, (s', d'))"
  shows "projected d' = projected d"
proof -
  let ?body = "\<lambda>c. abind (ensure_schema P c) (\<lambda>_. abind (on_db (pg_commit P c)) (\<lambda>_. fetch_lsn P c))"
  have body: "projected d2 = projected d1 \<and> (\<forall>x. q = Inr x \<longrightarrow> projecting c d2 = projected d1)"
    if view: "projecting c d1 = projected d1" and run: "?body c (s, d1) = (q, (s2, d2))" for c d1 q s2 d2
  proof -
    obtain a s3 d3 where a: "ensure_schema P c (s, d1) = (a, (s3, d3))" by (rule prod_cases3)
    note e = ensure_schema_rows [OF a]
    obtain b d4 where b: "pg_commit P c d3 = (b, d4)" by fastforce
    obtain f d5 where f: "pg_execute P c (SelectLsn (ct_table s3) (ct_consumer_name s3)) d4 = (f, d5)" by fastforce
    from run a b f have "q = Inl e' \<Longrightarrow> d2 \<in> {d3, d4, d5}" "q = Inr x \<Longrightarrow> a = Inr () \<and> b = Inr () \<and> f = Inr x \<and> d2 = d5"
      "d2 \<noteq> d3 \<Longrightarrow> a = Inr ()" "d2 \<noteq> d3 \<Longrightarrow> d2 \<noteq> d4 \<Longrightarrow> b = Inr ()" for e' x
      by (auto simp: abind_def on_db_def fetch_lsn_def split: sum.splits)
    then show ?thesis
      using e view commit_rows [of c d3 _ d4] commit_fails_rows [of c d3 _ d4] b execute_rows [OF f]
      by (cases a; cases b; cases q) auto
  qed
  obtain a d1 where a: "pg_acquire P d = (a, d1)" by fastforce
  obtain q s2 d2 where w: "with_connection P ?body (s, d) = (q, (s2, d2))" by (rule prod_cases3)
  have "d' = d2"
    using assms w by (auto simp: checkpoint_load_def abind_def split: sum.splits option.splits if_splits)
  moreover have "projected d2 = projected d"
  proof (cases a)
    case (Inl e)
    with a w acquire_rows [OF a] show ?thesis by (simp add: with_connection_def abind_def on_db_def)
  next
    case (Inr c)
    obtain b s3 d3 where b: "?body c (s, d1) = (b, (s3, d3))" by (rule prod_cases3)
    have view: "projecting c d1 = projected d1" "projected d1 = projected d" using acquire_rows [OF a] Inr by simp_all
    note left = body [OF view(1) b]
    obtain x where release: "pg_release P c (\<exists>e. b = Inl e) d3 = (x, d2)"
      using w a Inr b by (auto simp: with_connection_def abind_def on_db_def split: sum.splits prod.splits)
    show ?thesis
    proof (cases b)
      case (Inl e)
      with release rolled_back_rows [of c d3 x d2] left view show ?thesis by simp
    next
      case (Inr y)
      with left view have "projected d3 = projected d" "projecting c d3 = projected d" by simp_all
      with Inr release released_rows [of c d3 "projr x" d2] release_fails_rows [of c d3 "projl x" d2] show ?thesis
        by (cases x) auto
    qed
  qed
  ultimately show ?thesis by simp
qed

end

definition projection_reached ::
    "('d \<Rightarrow> tables) \<Rightarrow> ('d \<Rightarrow> projected_row list) \<Rightarrow> transaction list \<Rightarrow> walbox_options \<Rightarrow> nat
      \<Rightarrow> client \<times> checkpoint_table \<times> 'd \<Rightarrow> bool" where
  "projection_reached durable projected wal opts n = (\<lambda>(c, (s, d)).
     in_commit_order wal \<and> same_row (configure (opt_consumer_name opts) default_table) s
     \<and> projects_up_to n wal (position (durable d) default_table (opt_consumer_name opts)) (projected d))"

sublocale projected_postgres \<subseteq> restarts: restarting wal "new_process u P opts"
  "\<lambda>t. postgres_handle P ins t (fst (clock t)) (snd (clock t))" "projection_reached durable projected wal opts"
  for wal u opts clock
proof unfold_locales
  fix n w r w'
  assume reached: "projection_reached durable projected wal opts n w" and run: "new_process u P opts w = (r, w')"
  obtain c s d where w: "w = (c, (s, d))" by (rule prod_cases3)
  obtain c' s' d' where w': "w' = (c', (s', d'))" by (rule prod_cases3)
  note position = new_process_position [OF run [unfolded w w'], of wal]
  have rows: "projected d' = projected d"
    using run load_rows [of u "configure (opt_consumer_name opts) default_table" d]
    by (auto simp: w w' new_process_eq split: prod.splits sum.splits)
  have *: "in_commit_order wal" "n \<le> length wal"
    "position (durable d) default_table (opt_consumer_name opts) = checkpoint_after wal n"
    using reached by (auto simp: w projection_reached_def projects_up_to_def)
  have "projection_reached durable projected wal opts n w'"
    using reached position rows by (simp add: w w' projection_reached_def)
  moreover have "resent start wal = drop n wal" if "r = Inr start" for start
    using position *(3) that resent_drop [OF *(1,2)] by simp
  ultimately show "projection_reached durable projected wal opts n w' \<and> (\<forall>start. r = Inr start \<longrightarrow> resent start wal = drop n wal)"
    by blast
next
  fix n w q w'
  assume reached: "projection_reached durable projected wal opts n w" and n: "n < length wal"
    and run: "postgres_handle P ins (wal ! n) (fst (clock (wal ! n))) (snd (clock (wal ! n))) w = (q, w')"
  obtain c s d where w: "w = (c, (s, d))" by (rule prod_cases3)
  obtain c' s' d' where w': "w' = (c', (s', d'))" by (rule prod_cases3)
  note atomic = handle_atomic [OF run [unfolded w w']]
  have "projection_reached durable projected wal opts n w'" if "untouched (durable d, projected d) (durable d', projected d')"
    using that reached atomic by (simp add: w w' projection_reached_def untouched_def same_row_def)
  moreover have "projection_reached durable projected wal opts (Suc n) w'"
    if "handled s (wal ! n) (durable d, projected d) (durable d', projected d')"
    using that reached atomic projects_next [OF _ n]
    by (auto simp: w w' projection_reached_def handled_def same_row_def)
  ultimately show "projection_reached durable projected wal opts (Suc n) w'
      \<or> (\<exists>e. q = Inl e) \<and> projection_reached durable projected wal opts n w'"
    using atomic by blast
qed

context projected_postgres
begin

lemma projection_lives:
  "projection_reached durable projected wal opts n w \<Longrightarrow>
   \<exists>m. projection_reached durable projected wal opts m
     (lives (new_process u P opts) (\<lambda>t. postgres_handle P ins t (fst (clock t)) (snd (clock t))) wal ks w)"
  by (rule restarts.lives_reached)

end


section \<open>A small database with a projection\<close>

text \<open>
  The database of the theory \<open>Checkpoint\<close> with a second table: its committed rows, and the rows every
  connection that has inserted sees. The three text columns are \<open>NOT NULL\<close>.
\<close>

record ledger =
  lg_db :: mini
  lg_rows :: "projected_row list"
  lg_work :: "(nat \<times> projected_row list) list"

definition ledger_view :: "nat \<Rightarrow> ledger \<Rightarrow> projected_row list" where
  "ledger_view c d = (case map_of (lg_work d) c of None \<Rightarrow> lg_rows d | Some rows \<Rightarrow> rows)"

definition ledger_drop :: "nat \<Rightarrow> ledger \<Rightarrow> ledger" where
  "ledger_drop c d = d\<lparr>lg_work := AList.delete c (lg_work d)\<rparr>"

definition ledger_insert :: "nat \<Rightarrow> projected_row \<Rightarrow> (ledger, exn, unit) action" where
  "ledger_insert c row d =
     (case row of (entity_type, entity_id, event_type, payload) \<Rightarrow>
        if entity_type = None \<or> entity_id = None \<or> event_type = None then (Inl (ApplicationError 1), d)
        else (Inr (), d\<lparr>lg_work := AList.update c (ledger_view c d @ [row]) (lg_work d)\<rparr>))"

definition ledger_commit :: "nat \<Rightarrow> (ledger, exn, unit) action" where
  "ledger_commit c d =
     (case mini_commit c (lg_db d) of
        (Inl e, m) \<Rightarrow> (Inl e, ledger_drop c d\<lparr>lg_db := m\<rparr>)
      | (Inr _, m) \<Rightarrow> (Inr (), ledger_drop c d\<lparr>lg_db := m, lg_rows := ledger_view c d\<rparr>))"

definition ledger_client :: "(ledger, nat) pg_client" where
  "ledger_client =
     \<lparr>pg_acquire = (\<lambda>d. case pg_acquire mini_client (lg_db d) of
          (Inl e, m) \<Rightarrow> (Inl e, d\<lparr>lg_db := m\<rparr>)
        | (Inr c, m) \<Rightarrow> (Inr c, ledger_drop c d\<lparr>lg_db := m\<rparr>)),
      pg_release = (\<lambda>c raised d.
        if raised then (Inr (), ledger_drop c d\<lparr>lg_db := mini_drop c (lg_db d)\<rparr>) else ledger_commit c d),
      pg_execute = (\<lambda>c stmt d. case mini_execute c stmt (lg_db d) of (r, m) \<Rightarrow> (r, d\<lparr>lg_db := m\<rparr>)),
      pg_commit = ledger_commit\<rparr>"

definition ledger_init :: "exn option list \<Rightarrow> ledger" where
  "ledger_init commits = \<lparr>lg_db = mini_init commits, lg_rows = [], lg_work = []\<rparr>"

abbreviation ledger_durable :: "ledger \<Rightarrow> tables" where
  "ledger_durable d \<equiv> mini_durable (lg_db d)"

abbreviation ledger_seen :: "nat \<Rightarrow> ledger \<Rightarrow> tables" where
  "ledger_seen c d \<equiv> mini_seen c (lg_db d)"

lemma mini_client_fields:
  "pg_execute mini_client = mini_execute" "pg_commit mini_client = mini_commit"
  "pg_release mini_client c False = mini_commit c" "pg_release mini_client c True m = (Inr (), mini_drop c m)"
  by (simp_all add: mini_client_def)

lemmas ledger_simps = ledger_client_def ledger_commit_def ledger_drop_def ledger_view_def ledger_insert_def

interpretation ledger: projected_postgres ledger_client ledger_durable ledger_seen "\<lambda>d. md_commits (lg_db d) = []"
  ledger_insert lg_rows ledger_view
proof unfold_locales
  note mini = mini_client_fields
  fix d d' :: ledger and c :: nat and e u r q t k l stmt released
  show "pg_acquire ledger_client d = (Inr c, d') \<Longrightarrow> ledger_durable d' = ledger_durable d \<and> ledger_seen c d' = ledger_durable d"
    using mini_pg.acquire [of "lg_db d" c "lg_db d'"] by (auto simp: ledger_simps split: prod.splits sum.splits)
  show "pg_acquire ledger_client d = (Inl e, d') \<Longrightarrow> ledger_durable d' = ledger_durable d"
    using mini_pg.acquire_fails [of "lg_db d" e "lg_db d'"] by (auto simp: ledger_simps split: prod.splits sum.splits)
  show "pg_execute ledger_client c (CreateTable t) d = (Inr r, d') \<Longrightarrow>
      ledger_seen c d' = create_table t (ledger_seen c d) \<and> ledger_durable d' = ledger_durable d"
    using mini_pg.create [of c t "lg_db d" r "lg_db d'"] by (auto simp: ledger_client_def mini split: prod.splits)
  show "pg_execute ledger_client c (SelectLsn t k) d = (Inr r, d') \<Longrightarrow>
      r = position (ledger_seen c d) t k \<and> ledger_seen c d' = ledger_seen c d \<and> ledger_durable d' = ledger_durable d"
    using mini_pg.select [of c t k "lg_db d" r "lg_db d'"] by (auto simp: ledger_client_def mini split: prod.splits)
  show "pg_execute ledger_client c (Upsert t k l) d = (Inr r, d') \<Longrightarrow>
      ledger_seen c d t \<noteq> None \<and> ledger_seen c d' = set_position t k l (ledger_seen c d) \<and> ledger_durable d' = ledger_durable d"
    using mini_pg.upsert_row [of c t k l "lg_db d" r "lg_db d'"] by (auto simp: ledger_client_def mini split: prod.splits)
  show "pg_execute ledger_client c stmt d = (Inl e, d') \<Longrightarrow> ledger_durable d' = ledger_durable d"
    using mini_pg.execute_fails [of c stmt "lg_db d" e "lg_db d'"] by (auto simp: ledger_client_def mini split: prod.splits)
  show "pg_commit ledger_client c d = (Inr u, d') \<Longrightarrow> ledger_durable d' = ledger_seen c d \<and> ledger_seen c d' = ledger_seen c d"
    using mini_pg.commit [of c "lg_db d" "()" "lg_db d'"]
    by (auto simp: ledger_client_def ledger_commit_def mini split: prod.splits sum.splits)
  show "pg_commit ledger_client c d = (Inl e, d') \<Longrightarrow> ledger_durable d' \<in> {ledger_durable d, ledger_seen c d}"
    using mini_pg.commit_fails [of c "lg_db d" e "lg_db d'"]
    by (auto simp: ledger_client_def ledger_commit_def mini split: prod.splits sum.splits)
  show "pg_release ledger_client c True d = (released, d') \<Longrightarrow> ledger_durable d' = ledger_durable d"
    using mini_pg.rolled_back [of c "lg_db d" "Inr ()" "lg_db d'"] by (auto simp: ledger_client_def mini)
  show "pg_release ledger_client c False d = (Inr u, d') \<Longrightarrow> ledger_durable d' = ledger_seen c d"
    using mini_pg.released [of c "lg_db d" "()" "lg_db d'"]
    by (auto simp: ledger_client_def ledger_commit_def mini split: prod.splits sum.splits)
  show "pg_release ledger_client c False d = (Inl e, d') \<Longrightarrow> ledger_durable d' \<in> {ledger_durable d, ledger_seen c d}"
    using mini_pg.release_fails [of c "lg_db d" e "lg_db d'"]
    by (auto simp: ledger_client_def ledger_commit_def mini split: prod.splits sum.splits)
  show "md_commits (lg_db d) = [] \<Longrightarrow> \<exists>c d'. pg_acquire ledger_client d = (Inr c, d') \<and> md_commits (lg_db d') = []"
    by (auto simp: ledger_simps mini_simps)
  show "md_commits (lg_db d) = [] \<Longrightarrow> bindable t \<Longrightarrow> t \<noteq> [] \<Longrightarrow>
      \<exists>r d'. pg_execute ledger_client c (CreateTable t) d = (Inr r, d') \<and> md_commits (lg_db d') = []"
    using mini_pg.up_create [of "lg_db d" t c] by (auto simp: ledger_client_def mini split: prod.splits)
  show "md_commits (lg_db d) = [] \<Longrightarrow> bindable k \<Longrightarrow> ledger_seen c d t \<noteq> None \<Longrightarrow>
      \<exists>r d'. pg_execute ledger_client c (SelectLsn t k) d = (Inr r, d') \<and> md_commits (lg_db d') = []"
    using mini_pg.up_select [of "lg_db d" k c t] by (auto simp: ledger_client_def mini split: prod.splits)
  show "md_commits (lg_db d) = [] \<Longrightarrow> bindable k \<Longrightarrow> bigint l \<Longrightarrow> ledger_seen c d t \<noteq> None \<Longrightarrow>
      \<exists>r d'. pg_execute ledger_client c (Upsert t k l) d = (Inr r, d') \<and> md_commits (lg_db d') = []"
    using mini_pg.up_upsert [of "lg_db d" k l c t] by (auto simp: ledger_client_def mini split: prod.splits)
  show "md_commits (lg_db d) = [] \<Longrightarrow> \<exists>d'. pg_commit ledger_client c d = (Inr (), d') \<and> md_commits (lg_db d') = []"
    by (auto simp: ledger_simps mini_simps)
  show "md_commits (lg_db d) = [] \<Longrightarrow> \<exists>d'. pg_release ledger_client c False d = (Inr (), d') \<and> md_commits (lg_db d') = []"
    by (auto simp: ledger_simps mini_simps)
qed (auto simp: ledger_simps mini_simps split: prod.splits sum.splits option.splits list.splits if_splits)

section \<open>Properties\<close>

text \<open>
  The payload of a published row arrives as the text of a JSON document; \<open>Jsonb\<close> of a text is the
  document that is this text, a string. What is stored is never the document that was published.
\<close>

lemma projected_payload_is_a_string:
  assumes "projection_row new = Inr (entity_type, entity_id, event_type, payload)"
    and "payload_item new (lit ''payload'') = Inr (Some document)"
  shows "hd payload = 34 \<and> last payload = 34 \<and> 2 \<le> length payload"
  using assms by (auto simp: projection_row_def json_dumps_def rbind_eq_Inr)


definition demo_row :: "string \<Rightarrow> string \<Rightarrow> row" where
  "demo_row entity payload =
     [(lit ''entity_type'', Some (lit ''user'')), (lit ''entity_id'', Some (lit entity)),
      (lit ''event_type'', Some (lit ''created'')), (lit ''payload'', Some (lit payload))]"

definition demo_wal :: "transaction list" where
  "demo_wal =
     map (\<lambda>(lsn, entity). \<lparr>tx_xid = lsn, tx_commit_lsn = lsn, tx_commit_time = 0,
            tx_changes = [\<lparr>chg_kind = INSERT, chg_table = lit ''public.published_table'',
                           chg_new = Some (demo_row entity ''{}''), chg_old = None\<rparr>]\<rparr>)
       [(9, ''a''), (19, ''b'')]"

text \<open>
  The first process loads its checkpoint, with two commits, and fails at the commit of its first
  transaction; the second handles both.
\<close>

definition demo_lives :: "unicode_db \<Rightarrow> client \<times> checkpoint_table \<times> ledger" where
  "demo_lives u =
     lives (new_process u ledger_client demo_options) (\<lambda>t. postgres_handle ledger_client ledger_insert t 0 0) demo_wal [2, 2]
       (client_init demo_options, (built_table (build_with_pool ledger_client demo_options),
          ledger_init [None, None, Some (OperationalError [])]))"


end
