(* ===== verification/Example_Broker.thy ===== *)
theory Example_Broker
  imports Example_Restarts "HOL-Library.Sublist"
begin

text \<open>
  \<open>examples/broker.py\<close>: the handler that publishes every insert and then saves the checkpoint on a
  connection of its own. What publishing does is the parameter of the locale \<open>broker\<close>: a call that
  returns has delivered its message, one that raises may have. Over restarts no message is lost and
  their order is kept; only those of the transaction behind the checkpoint can be repeated.
\<close>

section \<open>The handler\<close>

fun publish_inserts :: "(row option \<Rightarrow> ('b, exn, unit) action) \<Rightarrow> change_event list \<Rightarrow> ('b, exn, unit) action" where
  "publish_inserts publish [] = areturn ()"
| "publish_inserts publish (change # changes) =
     (if is_published_insert change
      then abind (publish (chg_new change)) (\<lambda>_. publish_inserts publish changes)
      else publish_inserts publish changes)"

text \<open>The broker beside the client and the store.\<close>

definition on_broker :: "('b, exn, 'a) action \<Rightarrow> ('b \<times> 'w, exn, 'a) action" where
  "on_broker m = (\<lambda>(b, w). case m b of (r, b') \<Rightarrow> (r, (b', w)))"

definition beside_broker :: "('w, exn, 'a) action \<Rightarrow> ('b \<times> 'w, exn, 'a) action" where
  "beside_broker m = (\<lambda>(b, w). case m w of (r, w') \<Rightarrow> (r, (b, w')))"

definition broker_handle ::
    "('d, 'c) pg_client \<Rightarrow> (row option \<Rightarrow> ('b, exn, unit) action) \<Rightarrow> transaction \<Rightarrow> pyfloat \<Rightarrow> pyfloat
      \<Rightarrow> ('b \<times> client \<times> checkpoint_table \<times> 'd, exn, unit) action" where
  "broker_handle P publish t started finished =
     abind (on_broker (publish_inserts publish (tx_changes t))) (\<lambda>_.
     beside_broker (postgres_handler_save P t (tx_commit_lsn t) None started finished))"

definition broker_main :: "unicode_db \<Rightarrow> (pystr \<Rightarrow> pystr option) \<Rightarrow> (pystr \<Rightarrow> ('d, 'c) pg_client) \<Rightarrow> exn + ('d, 'c) built" where
  "broker_main u environ pool = example_app u environ pool (lit ''broker-consumer'') None"

text \<open>The messages of a transaction.\<close>

definition messages_of :: "transaction \<Rightarrow> row option list" where
  "messages_of t = map chg_new (published_inserts t)"


section \<open>What a broker promises\<close>

locale broker =
  fixes publish :: "row option \<Rightarrow> ('b, exn, unit) action"
    and delivered :: "'b \<Rightarrow> row option list"
  assumes publishes: "publish m b = (Inr (), b') \<Longrightarrow> delivered b' = delivered b @ [m]"
    and publish_fails: "publish m b = (Inl e, b') \<Longrightarrow> delivered b' \<in> {delivered b, delivered b @ [m]}"
begin

lemma publish_inserts_effect:
  "publish_inserts publish changes b = (r, b') \<Longrightarrow>
   \<exists>sent. delivered b' = delivered b @ sent \<and> prefix sent (map chg_new (filter is_published_insert changes))
     \<and> (r = Inr () \<longrightarrow> sent = map chg_new (filter is_published_insert changes))"
proof (induction changes arbitrary: b)
  case (Cons change changes)
  show ?case
  proof (cases "is_published_insert change")
    case True
    obtain q b1 where q: "publish (chg_new change) b = (q, b1)" by fastforce
    show ?thesis
    proof (cases q)
      case (Inl e)
      with publish_fails [of "chg_new change" b e b1] q True Cons.prems show ?thesis
        by (intro exI [of _ "drop (length (delivered b)) (delivered b')"]) auto
    next
      case (Inr x)
      with q True Cons.prems have "publish_inserts publish changes b1 = (r, b')" by simp
      from Cons.IH [OF this] obtain sent where sent: "delivered b' = delivered b1 @ sent"
        "prefix sent (map chg_new (filter is_published_insert changes))"
        "r = Inr () \<longrightarrow> sent = map chg_new (filter is_published_insert changes)" by blast
      moreover have "delivered b1 = delivered b @ [chg_new change]" using publishes q Inr by simp
      ultimately show ?thesis using True by (intro exI [of _ "chg_new change # sent"]) simp
    qed
  next
    case False
    with Cons show ?thesis by simp
  qed
qed simp

end

text \<open>One that keeps its messages and knows what its next calls do: raise or not, deliver or not.\<close>

record list_broker =
  lb_delivered :: "row option list"
  lb_answers :: "(exn \<times> bool) option list"

definition list_publish :: "row option \<Rightarrow> (list_broker, exn, unit) action" where
  "list_publish m b =
     (case lb_answers b of
        Some (e, arrives) # rest \<Rightarrow>
          (Inl e, b\<lparr>lb_delivered := lb_delivered b @ (if arrives then [m] else []), lb_answers := rest\<rparr>)
      | rest \<Rightarrow> (Inr (), b\<lparr>lb_delivered := lb_delivered b @ [m], lb_answers := tl rest\<rparr>))"

interpretation list_broker: broker list_publish lb_delivered
  by unfold_locales (auto simp: list_publish_def split: list.splits option.splits if_splits)


section \<open>Over restarts\<close>

text \<open>
  The delivered messages are those of the first \<open>n\<close> transactions, with the beginnings of the
  transaction at hand, from attempts that failed, before it.
\<close>

inductive delivered_up_to :: "transaction list \<Rightarrow> nat \<Rightarrow> row option list \<Rightarrow> bool" for wal where
  delivered_none: "delivered_up_to wal 0 []"
| delivered_part: "delivered_up_to wal n ms \<Longrightarrow> n < length wal \<Longrightarrow> prefix begun (messages_of (wal ! n)) \<Longrightarrow>
    delivered_up_to wal n (ms @ begun)"
| delivered_all: "delivered_up_to wal n ms \<Longrightarrow> n < length wal \<Longrightarrow>
    delivered_up_to wal (Suc n) (ms @ messages_of (wal ! n))"

text \<open>Nothing is lost or out of order, and nothing beyond the transaction at hand is there.\<close>

lemma delivered_covers:
  "delivered_up_to wal n ms \<Longrightarrow> subseq (concat (map messages_of (take n wal))) ms
     \<and> set ms \<subseteq> set (concat (map messages_of (take (Suc n) wal)))"
proof (induction rule: delivered_up_to.induct)
  case (delivered_part n ms begun)
  then have "subseq (concat (map messages_of (take n wal))) (ms @ begun)"
    by (simp add: subseq_rev_drop_many)
  moreover have "set begun \<subseteq> set (concat (map messages_of (take (Suc n) wal)))"
    using delivered_part.hyps(2,3) set_mono_prefix by (fastforce simp: take_Suc_conv_app_nth)
  ultimately show ?case using delivered_part.IH by simp
next
  case (delivered_all n ms)
  then have "subseq (concat (map messages_of (take (Suc n) wal))) (ms @ messages_of (wal ! n))"
    by (simp add: take_Suc_conv_app_nth list_emb_append_mono)
  moreover have "set (ms @ messages_of (wal ! n)) \<subseteq> set (concat (map messages_of (take (Suc (Suc n)) wal)))"
  proof -
    have "set (take (Suc n) wal) \<subseteq> set (take (Suc (Suc n)) wal)" by (rule set_take_subset_set_take) simp
    moreover have "wal ! n \<in> set (take (Suc n) wal)" using delivered_all.hyps(2) by (simp add: take_Suc_conv_app_nth)
    ultimately show ?thesis using delivered_all.IH by fastforce
  qed
  ultimately show ?case ..
qed simp

definition broker_reached ::
    "('d \<Rightarrow> tables) \<Rightarrow> ('b \<Rightarrow> row option list) \<Rightarrow> transaction list \<Rightarrow> walbox_options \<Rightarrow> nat
      \<Rightarrow> 'b \<times> client \<times> checkpoint_table \<times> 'd \<Rightarrow> bool" where
  "broker_reached durable delivered wal opts n = (\<lambda>(b, (c, (s, d))).
     in_commit_order wal \<and> n \<le> length wal \<and> same_row (configure (opt_consumer_name opts) default_table) s
     \<and> position (durable d) default_table (opt_consumer_name opts) = checkpoint_after wal n
     \<and> delivered_up_to wal n (delivered b))"

locale broker_app = postgres P durable seen up + broker publish delivered
  for P :: "('d, 'c) pg_client" and durable :: "'d \<Rightarrow> tables" and seen :: "'c \<Rightarrow> 'd \<Rightarrow> tables" and up :: "'d \<Rightarrow> bool"
    and publish :: "row option \<Rightarrow> ('b, exn, unit) action" and delivered :: "'b \<Rightarrow> row option list"
begin

lemma broker_handle_goes_on:
  assumes "broker_reached durable delivered wal opts n w" and "n < length wal"
    and "broker_handle P publish (wal ! n) started finished w = (q, w')"
  shows "broker_reached durable delivered wal opts (Suc n) w'
    \<or> (\<exists>e. q = Inl e) \<and> broker_reached durable delivered wal opts n w'"
proof -
  let ?t = "wal ! n"
  obtain b c s d where w: "w = (b, (c, (s, d)))" by (rule prod_cases4)
  obtain r b1 where r: "publish_inserts publish (tx_changes ?t) b = (r, b1)" by fastforce
  obtain sent where sent: "delivered b1 = delivered b @ sent" "prefix sent (messages_of ?t)" "r = Inr () \<longrightarrow> sent = messages_of ?t"
    using publish_inserts_effect [OF r] by (auto simp: messages_of_def published_inserts_def)
  have now: "delivered_up_to wal n (delivered b)" "in_commit_order wal"
    "ct_table s = default_table" "ct_consumer_name s = opt_consumer_name opts"
    "position (durable d) default_table (opt_consumer_name opts) = checkpoint_after wal n"
    using assms(1) by (auto simp: w broker_reached_def same_row_def)
  show ?thesis
  proof (cases r)
    case (Inl e)
    with assms(3) r w have "q = Inl e" "w' = (b1, (c, (s, d)))"
      by (auto simp: broker_handle_def abind_def on_broker_def)
    with assms(1,2) sent(1) delivered_part [OF now(1) assms(2) sent(2)] show ?thesis
      by (auto simp: w broker_reached_def)
  next
    case (Inr x)
    obtain a s2 d2 where save: "checkpoint_save P (tx_commit_lsn ?t) None (s, d) = (a, (s2, d2))" by (rule prod_cases3)
    obtain c2 where w': "w' = (b1, (c2, (s2, d2)))" and q: "(\<exists>e. q = Inl e) \<longleftrightarrow> (\<exists>e. a = Inl e)"
      using assms(3) r w Inr save
      by (auto simp: broker_handle_def abind_def on_broker_def beside_broker_def postgres_handler_save_eq split: sum.splits)
    note saved = save_own [OF save]
    have "same_row (configure (opt_consumer_name opts) default_table) s2" using saved now by (simp add: same_row_def)
    moreover have "delivered b1 = delivered b @ messages_of ?t" using sent Inr by simp
    moreover have "position (durable d2) default_table (opt_consumer_name opts) \<in>
        (case a of Inr _ \<Rightarrow> {Some (tx_commit_lsn ?t)} | Inl _ \<Rightarrow> {checkpoint_after wal n, Some (tx_commit_lsn ?t)})"
      using saved now by (cases a) (simp_all add: stored_def)
    ultimately show ?thesis
      using delivered_all [OF now(1) assms(2)] delivered_part [OF now(1) assms(2), of "messages_of ?t"] assms(2) now(2) q
      by (cases a) (auto simp: w' broker_reached_def)
  qed
qed

end

sublocale broker_app \<subseteq> restarts: restarting wal "beside_broker (new_process u P opts)"
  "\<lambda>t. broker_handle P publish t (fst (clock t)) (snd (clock t))" "broker_reached durable delivered wal opts"
  for wal u opts clock
proof unfold_locales
  fix n r and w w' :: "'b \<times> client \<times> checkpoint_table \<times> 'd"
  assume reached: "broker_reached durable delivered wal opts n w" and run: "beside_broker (new_process u P opts) w = (r, w')"
  obtain b c s d where w: "w = (b, (c, (s, d)))" by (rule prod_cases4)
  obtain c' s' d' where started: "new_process u P opts (c, (s, d)) = (r, (c', (s', d')))" and w': "w' = (b, (c', (s', d')))"
    using run by (auto simp: w beside_broker_def split: prod.splits)
  note position = new_process_position [OF started, of wal]
  have *: "in_commit_order wal" "n \<le> length wal"
    "position (durable d) default_table (opt_consumer_name opts) = checkpoint_after wal n"
    using reached by (auto simp: w broker_reached_def)
  have "broker_reached durable delivered wal opts n w'"
    using reached position by (simp add: w w' broker_reached_def)
  moreover have "resent start wal = drop n wal" if "r = Inr start" for start
    using position *(3) that resent_drop [OF *(1,2)] by simp
  ultimately show "broker_reached durable delivered wal opts n w' \<and> (\<forall>start. r = Inr start \<longrightarrow> resent start wal = drop n wal)"
    by blast
next
  show "broker_reached durable delivered wal opts n w \<Longrightarrow> n < length wal \<Longrightarrow>
      broker_handle P publish (wal ! n) (fst (clock (wal ! n))) (snd (clock (wal ! n))) w = (q, w') \<Longrightarrow>
      broker_reached durable delivered wal opts (Suc n) w' \<or> (\<exists>e. q = Inl e) \<and> broker_reached durable delivered wal opts n w'"
    for n w q w'
    by (rule broker_handle_goes_on)
qed

context broker_app
begin

lemma broker_lives:
  "broker_reached durable delivered wal opts n w \<Longrightarrow>
   \<exists>m. broker_reached durable delivered wal opts m
     (lives (beside_broker (new_process u P opts)) (\<lambda>t. broker_handle P publish t (fst (clock t)) (snd (clock t))) wal ks w)"
  by (rule restarts.lives_reached)

end

interpretation small_app: broker_app mini_client mini_durable mini_seen "\<lambda>d. md_commits d = []" list_publish lb_delivered
  by unfold_locales

section \<open>Properties\<close>


definition demo_message :: "string \<Rightarrow> row option" where
  "demo_message entity = Some [(lit ''entity_id'', Some (lit entity))]"

definition demo_published :: "transaction list" where
  "demo_published =
     map (\<lambda>(lsn, entities). \<lparr>tx_xid = lsn, tx_commit_lsn = lsn, tx_commit_time = 0,
            tx_changes = map (\<lambda>entity. \<lparr>chg_kind = INSERT, chg_table = lit ''public.published_table'',
                                        chg_new = demo_message entity, chg_old = None\<rparr>) entities\<rparr>)
       [(9, [''a'', ''b'']), (19, [''c''])]"

text \<open>The second message of the first transaction fails in the first process, on its way back.\<close>

definition demo_broker_lives :: "unicode_db \<Rightarrow> list_broker \<times> client \<times> checkpoint_table \<times> mini" where
  "demo_broker_lives u =
     lives (beside_broker (new_process u mini_client demo_options)) (\<lambda>t. broker_handle mini_client list_publish t 0 0)
       demo_published [2, 2]
       (\<lparr>lb_delivered = [], lb_answers = [None, Some (ApplicationError 0, True)]\<rparr>,
        (client_init demo_options, (built_table (build_with_pool mini_client demo_options), mini_init [])))"


end
