(* ===== verification/Example_Metrics.thy ===== *)
theory Example_Metrics
  imports Example_Restarts "HOL-Library.Sublist"
begin

text \<open>
  \<open>examples/metrics.py\<close>: the callback that hands each snapshot to a bounded queue, and the task that
  takes them off it. The callback neither waits nor raises; what is exported are the snapshots in their
  order, without those that came while the queue was full.
\<close>

section \<open>The callback and the exporter\<close>

definition on_metrics_good :: "metrics \<Rightarrow> (metrics async_queue, exn, unit) action" where
  "on_metrics_good m q =
     (case put_nowait m q of
        (Inl QueueFull, q') \<Rightarrow> (Inr (), q')
      | (Inl e, q') \<Rightarrow> (Inl e, q')
      | (Inr _, q') \<Rightarrow> (Inr (), q'))"

text \<open>A turn of \<open>export_metrics\<close>, which waits for a snapshot; what it does with it is a log call.\<close>

definition export_turn :: "metrics async_queue \<Rightarrow> (metrics \<times> metrics async_queue) option" where
  "export_turn q =
     (if get_ready q
      then (case queue_get q of (Inl _, q') \<Rightarrow> None | (Inr m, q') \<Rightarrow> Some (m, q'))
      else None)"

text \<open>\<open>handle\<close> logs the inserts and saves.\<close>

definition metrics_handle ::
    "('d, 'c) pg_client \<Rightarrow> transaction \<Rightarrow> pyfloat \<Rightarrow> pyfloat \<Rightarrow> (client \<times> checkpoint_table \<times> 'd, exn, unit) action" where
  "metrics_handle P t started finished = postgres_handler_save P t (tx_commit_lsn t) None started finished"

text \<open>
  \<open>main\<close>: the queue, and the client with the callback, which is given here as its result in the state the
  queue is in when it is called.
\<close>

definition metrics_main ::
    "unicode_db \<Rightarrow> (pystr \<Rightarrow> pystr option) \<Rightarrow> (pystr \<Rightarrow> ('d, 'c) pg_client) \<Rightarrow> (metrics \<Rightarrow> exn option)
      \<Rightarrow> exn + metrics async_queue \<times> ('d, 'c) built" where
  "metrics_main u environ pool callback =
     rbind (example_app u environ pool (lit ''metrics-consumer'') (Some callback)) (\<lambda>app.
       Inr (queue_init 100, app))"


section \<open>Reports and exports in any order\<close>

text \<open>\<open>Some m\<close> is a call of the callback, \<open>None\<close> a turn of the exporter, if it has anything to do.\<close>

fun reports :: "metrics option list \<Rightarrow> metrics list" where
  "reports [] = []"
| "reports (Some m # turns) = m # reports turns"
| "reports (None # turns) = reports turns"

fun metrics_traffic :: "metrics option list \<Rightarrow> metrics async_queue \<Rightarrow> exn list \<times> metrics list \<times> metrics async_queue" where
  "metrics_traffic [] q = ([], [], q)"
| "metrics_traffic (Some m # turns) q =
     (let (r, q') = on_metrics_good m q; (raised, exported, q'') = metrics_traffic turns q'
      in (case r of Inl e \<Rightarrow> e # raised | Inr _ \<Rightarrow> raised, exported, q''))"
| "metrics_traffic (None # turns) q =
     (case export_turn q of
        None \<Rightarrow> metrics_traffic turns q
      | Some (m, q') \<Rightarrow> (let (raised, exported, q'') = metrics_traffic turns q' in (raised, m # exported, q'')))"

lemma report_effect:
  assumes "\<not> q_is_shutdown q" and "queue_fits q"
  shows "\<exists>q'. on_metrics_good m q = (Inr (), q') \<and> \<not> q_is_shutdown q' \<and> queue_fits q' \<and> q_maxsize q' = q_maxsize q
    \<and> q_items q' = q_items q @ (if queue_full q then [] else [m])"
  using assms by (auto simp: on_metrics_good_def put_nowait_def queue_fits_def queue_full_def qsize_def)

lemma export_effect:
  assumes "\<not> q_is_shutdown q" and "export_turn q = Some (m, q')"
  shows "q_items q = m # q_items q' \<and> \<not> q_is_shutdown q' \<and> q_maxsize q' = q_maxsize q \<and> (queue_fits q \<longrightarrow> queue_fits q')"
  using assms
  by (auto simp: export_turn_def queue_get_def queue_fits_def qsize_def split: if_splits list.splits prod.splits sum.splits)

text \<open>
  No call of the callback raises, the queue stays within its bound, and what is exported or still queued
  is what was reported, in order, without the snapshots that were dropped; none is if the reports fit.
\<close>

lemma metrics_traffic_effect:
  assumes "\<not> q_is_shutdown q" and "queue_fits q" and "metrics_traffic turns q = (raised, exported, q')"
  shows "raised = [] \<and> queue_fits q' \<and> q_maxsize q' = q_maxsize q
    \<and> subseq (exported @ q_items q') (q_items q @ reports turns)
    \<and> (qsize q + int (length (reports turns)) \<le> q_maxsize q \<longrightarrow>
         exported @ q_items q' = q_items q @ reports turns)"
  using assms
proof (induction turns q arbitrary: raised exported q' rule: metrics_traffic.induct)
  case (1 q)
  then show ?case by simp
next
  case (2 m turns q)
  obtain q1 where q1: "on_metrics_good m q = (Inr (), q1)" "\<not> q_is_shutdown q1" "queue_fits q1" "q_maxsize q1 = q_maxsize q"
    "q_items q1 = q_items q @ (if queue_full q then [] else [m])"
    using report_effect [OF 2(2,3)] by blast
  obtain raised1 exported1 q2 where rest: "metrics_traffic turns q1 = (raised1, exported1, q2)" by (rule prod_cases3)
  have out: "raised = raised1" "exported = exported1" "q' = q2" using 2(4) q1(1) rest by simp_all
  note IH = 2(1) [OF q1(1) [symmetric] refl q1(2,3) rest]
  have "subseq (q_items q1 @ reports turns) (q_items q @ m # reports turns)"
    using q1(5) by (cases "queue_full q") (auto intro!: list_emb_append_mono)
  moreover have "qsize q + int (length (m # reports turns)) \<le> q_maxsize q \<Longrightarrow> \<not> queue_full q"
    by (simp add: queue_full_def)
  ultimately show ?case
    using IH q1(4,5) by (auto simp: out qsize_def intro: subseq_order.trans)
next
  case (3 turns q)
  show ?case
  proof (cases "export_turn q")
    case None
    with 3 show ?thesis by simp
  next
    case (Some p)
    obtain m q1 where p: "p = (m, q1)" by fastforce
    obtain raised1 exported1 q2 where rest: "metrics_traffic turns q1 = (raised1, exported1, q2)" by (rule prod_cases3)
    have out: "raised = raised1" "exported = m # exported1" "q' = q2" using 3(5) Some p rest by simp_all
    note eff = export_effect [OF 3(3) Some [unfolded p]]
    with 3(2) [OF Some p [symmetric] _ _ rest] 3(4) show ?thesis by (auto simp: out qsize_def)
  qed
qed

end
