(* ===== verification/Spec2Isabelle.thy ===== *)
theory Spec2Isabelle
  imports Pipeline Session Socket_Waits Example_Concurrency_Properties Example_Postgres Example_Broker Example_Metrics
begin

text \<open>
  walbox (\<open>src/walbox/\<close>) is a Python client for PostgreSQL logical replication. It reads the stream of
  a replication slot, puts the row changes of each committed transaction together, hands the
  transactions to the application's handler one at a time in commit order, and lets the handler save how
  far it got, so that a restart goes on from there.

  The parts and how they work together.
    \<^item> \<open>transport.py\<close> (theory \<open>Transport\<close>) opens the replication connection, creates the slot, starts the
      stream and then reads frames and writes status updates, waiting for the socket where libpq asks for it.
    \<^item> \<open>protocol.py\<close> (\<open>Protocol\<close>) decodes a frame to an \<open>XLogData\<close> or a keepalive and encodes the status
      update; \<open>pgoutput.py\<close> (\<open>Pgoutput\<close>) decodes the payload of an \<open>XLogData\<close> to one of fourteen
      messages, with a relation cache and the flag for streaming brackets as its state.
    \<^item> \<open>transaction.py\<close> (\<open>Assembler\<close>) keeps a bucket of changes per open transaction, with the savepoint
      boundaries in it, and makes a \<open>Transaction\<close> of it at the commit.
    \<^item> \<open>client.py\<close> (\<open>Client\<close>, \<open>Client_System\<close>) runs a receiver and a consumer around a bounded queue
      (\<open>Async_Queue\<close>, \<open>asyncio.Queue\<close>), calls the handler, counts, reports metrics, sends feedback, and
      reconnects with a growing delay after a connection error.
    \<^item> \<open>abc.py\<close> (\<open>Abc\<close>) has the shared types, the checked options and the checkpoint handle;
      \<open>checkpoint.py\<close> (\<open>Checkpoint\<close>) the store behind the handle, a row per consumer in PostgreSQL;
      \<open>errors.py\<close> (\<open>Errors\<close>) the exceptions with their context; \<open>builder.py\<close> (\<open>Builder\<close>) wires a client
      and a store together. \<open>Session\<close> is the head of \<open>_run_once\<close>, where client, store and transport meet;
      \<open>Socket_Waits\<close> is where a pending read, status updates and a shutdown meet at the event loop.
    \<^item> The applications under \<open>src/examples/\<close>: \<open>concurrency.py\<close> (\<open>Example_Concurrency\<close>) spreads a transaction over
      shard queues with a worker each; \<open>postgres.py\<close> (\<open>Example_Postgres\<close>) writes a projection and the checkpoint
      in one database transaction; \<open>broker.py\<close> (\<open>Example_Broker\<close>) publishes and then saves; \<open>metrics.py\<close>
      (\<open>Example_Metrics\<close>) exports metrics through a bounded queue. \<open>Example_Handlers\<close> is what they share,
      \<open>Example_Restarts\<close> an application that is started again and again.

  How the code is written down. Python integers are \<open>int\<close>, bytes \<open>8 word\<close> lists, text a list of code
  points, floats the rationals an IEEE double can hold, with the rounding written out (\<open>Py_Float\<close>), a
  \<open>dict\<close> an association list in insertion order. An exception is a value of the type \<open>exn\<close>: a function
  gives \<open>exn + 'a\<close>, a method that changes its object is an \<open>action\<close>, which gives the result beside the
  state it leaves, also when it raises. Slicing, indexing, \<open>int.from_bytes\<close>, \<open>bytes.decode\<close>, \<open>str.strip\<close>,
  \<open>repr\<close> and the like are modelled with what they do out of range (\<open>Walbox_Prelude\<close>, \<open>Py_Text\<close>,
  \<open>Py_Bytes\<close>, \<open>Py_Replace\<close>); which code points are printable, spaces or digits is the parameter
  \<open>unicode_db\<close>. A coroutine that waits is a function to an option (\<open>Py_Loops\<close>): its loops are
  \<open>partial_function (option)\<close>, without any bound on the turns, \<open>None\<close> means it waits for ever, and that
  it returns is proved along a measure. Each function, dataclass and method of the modules above is a
  definition of the same name, or of that name after the class.

  What is not under \<open>src/\<close> is a parameter: libpq is a record of the calls the transport makes (\<open>pgconn\<close>),
  with its documented promises as the locale \<open>libpq\<close>; psycopg and the checkpoint database are a record
  (\<open>pg_client\<close>) with PostgreSQL's promises on transactions as the locale \<open>postgres\<close>. Both locales are
  interpreted on an executable instance (\<open>peer_libpq\<close>, \<open>mini_pg\<close>), on which the witnesses run. For the
  examples, the \<open>INSERT\<close> of the projection, the broker's \<open>publish\<close> and \<open>hashlib.md5\<close> are parameters. The
  server's side of the wire format is written down from the protocol documentation where the decoders
  are measured against it (\<open>encode_wire\<close> and its parts in \<open>Pgoutput_Wire\<close>).

  What the lemmas show, theory by theory.
    \<^item> \<open>Protocol\<close>, \<open>Pgoutput_Wire\<close>, \<open>Pgoutput_Stream\<close>: every frame and every message a server can write
      decodes to what it means; arbitrary bytes raise one of the listed exceptions; the stateful decoder
      follows the server in and out of streaming brackets. \<open>Decoder_Types\<close>: whatever the bytes, messages
      and cache stay well typed.
    \<^item> \<open>Assembler_Spec\<close>, \<open>Transaction_Server\<close>: a rejected message changes nothing, a message touches one
      bucket, boundaries stay inside; and a simulation between the assembler and a server with nested
      savepoints (locale \<open>simulation\<close> and its interpretation \<open>assembler_sim\<close>): what is handed out are the
      committed transactions with the surviving changes.
    \<^item> \<open>Pipeline\<close>: the same end to end, from the bytes of the frames to the transactions handed to the queue.
    \<^item> \<open>Client_System\<close>: \<open>run\<close> as a step function whose events are what happens between two suspension
      points of the receiver, the consumer, the handler and the environment; every order of them is a
      run. \<open>Client_Invariants\<close>, \<open>Client_Properties\<close>: invariants of the reachable states (feedback, order of
      delivery, the bound of the queue, counters, back-off), the end of a run after \<open>close\<close>, which
      exceptions end it, and runs in which it goes wrong.
    \<^item> \<open>Transport_Properties\<close>: the commands, reads and writes return, with which results and exceptions, on
      every connection that keeps libpq's promises; the text form of an LSN.
    \<^item> \<open>Socket_Waits\<close>: an invariant of the registrations over every interleaving (nothing is registered that
      no coroutine waits for), and a run after which a read is never woken.
    \<^item> \<open>Checkpoint\<close>: the store fulfils the contract of a checkpoint store (locale \<open>checkpoint_store\<close>); a
      joined save stands and falls with the caller's transaction; when its operations return. \<open>Builder\<close>:
      the store refines the one \<open>Client_System\<close> assumes, and a restart goes on right behind the last
      saved transaction. \<open>Session\<close>: opening a session returns where the server answers (locale
      \<open>answering_libpq\<close>) and refines the set-up events of \<open>Client_System\<close>; which of its exceptions end \<open>run\<close>.
    \<^item> \<open>Example_Concurrency_Properties\<close>: invariants of the handler and its workers in every interleaving (what
      is in a shard, in work and done makes up what was routed there); a checkpoint is saved only over
      finished work, entity by entity in order, and a call of \<open>handle\<close> ends. \<open>Example_Restarts\<close>: the locale
      \<open>restarting\<close> has what follows for any number of processes from what a handler does with one
      transaction; \<open>Example_Postgres\<close> (locale \<open>projected_postgres\<close>, instance \<open>ledger\<close>) gets exactly-once
      from it, \<open>Example_Broker\<close> (locales \<open>broker\<close> and \<open>broker_app\<close>, instances \<open>list_broker\<close> and \<open>small_app\<close>)
      at-least-once. \<open>Example_Metrics\<close>: the callback never raises, the queue keeps its bound, and snapshots
      are dropped only when it is full.
    \<^item> \<open>Abc\<close>, \<open>Errors\<close>: which options are accepted, what an error keeps and how it prints.

  Bounds. \<open>pg_now_micros\<close> is treated for clock readings from 2000 to 2142 (\<open>2 ^ 52\<close> microseconds), where
  the float arithmetic is within one microsecond; LSNs are 64 bits wide where they are on the wire, and
  \<open>BIGINT\<close> in the checkpoint table; the shutdown measure is at most eight turns of the client.

  Not modelled. Log calls. Cancellation from outside (\<open>task.cancel\<close> on \<open>run\<close>), beside what it does to the
  waits for the socket. A status update counts as one
  turn, although its \<open>write\<close> may wait. Other writers of the checkpoint row at the same time: a connection
  sees what is committed when it is acquired, and its own changes. Time passes only as the readings the
  events carry. Of the examples, the signal handlers that call \<open>close\<close>, and the time \<open>on_metrics_bad\<close> and
  \<open>publish_to_broker\<close> sleep; a process that is started again is sent everything behind its checkpoint, which
  PostgreSQL does as long as the feedback is not ahead of it (\<open>Client_Properties\<close> has a run where it is).
  The tests and the docs were read for what the code means to do.
\<close>

end
